(* ===== verification/Prelude.thy ===== *)
theory Prelude
  imports Main "HOL-Library.Word" "HOL-Library.Monad_Syntax"
begin

text \<open>
  What every other theory of the development shares: names for the C types, the option
  monad in which the C code is written (the value \<open>None\<close> stands for a failed
  \<^verbatim>\<open>assert\<close>, an \<^verbatim>\<open>abort()\<close> or a dereference of a pointer that is
  not allocated), loops over a list in that monad, and generic lemmas on lists and maps.
\<close>

unbundle bit_operations_syntax

type_synonym u8 = "8 word"
type_synonym u16 = "16 word"
type_synonym u32 = "32 word"

text \<open>Addresses of heap objects. Each kind of object has an address space of its own.\<close>

type_synonym ptr = nat

named_theorems frame_simps \<open>fields an operation leaves alone\<close>
named_theorems inv_intros \<open>operations that keep an invariant\<close>
named_theorems wlp_intros \<open>what a computation establishes if it does not stop the program\<close>

section \<open>The option monad\<close>

text \<open>The \<^verbatim>\<open>assert\<close> macro: the program stops when the condition is false.\<close>

definition c_assert :: "bool \<Rightarrow> unit option" where
  "c_assert b = (if b then Some () else None)"

lemma c_assert_Some [simp]: "c_assert b = Some u \<longleftrightarrow> b"
  by (simp add: c_assert_def)

lemma c_assert_None [simp]: "c_assert b = None \<longleftrightarrow> \<not> b"
  by (simp add: c_assert_def)

lemma bind_c_assert_Some [simp]: "Option.bind (c_assert b) f = Some x \<longleftrightarrow> b \<and> f () = Some x"
  by (simp add: c_assert_def)

lemma bind_c_assert_True [simp]: "b \<Longrightarrow> Option.bind (c_assert b) f = f ()"
  by (simp add: c_assert_def)

text \<open>
  \<open>foldM f xs s\<close> is the loop that runs the body \<open>f\<close> on every element of \<open>xs\<close>,
  threading the state and stopping when a body stops the program.
\<close>

fun foldM :: "('a \<Rightarrow> 's \<Rightarrow> 's option) \<Rightarrow> 'a list \<Rightarrow> 's \<Rightarrow> 's option" where
  "foldM f [] s = Some s"
| "foldM f (x # xs) s = Option.bind (f x s) (foldM f xs)"

lemma foldM_append: "foldM f (xs @ ys) s = Option.bind (foldM f xs s) (foldM f ys)"
  by (induction xs arbitrary: s) (auto split: Option.bind_splits)

lemma foldM_cong [fundef_cong]:
  "xs = ys \<Longrightarrow> s = t \<Longrightarrow> (\<And>x u. x \<in> set ys \<Longrightarrow> f x u = g x u) \<Longrightarrow> foldM f xs s = foldM g ys t"
proof (induction xs arbitrary: ys s t)
  case Nil
  then show ?case by auto
next
  case (Cons x xs)
  have "foldM f xs = foldM g xs"
    using Cons.prems by (intro ext Cons.IH) auto
  with Cons.prems show ?case by auto
qed

text \<open>Partial correctness: what every body keeps holds after the loop.\<close>

lemma foldM_invariant:
  assumes "foldM f xs s = Some s'" and "I s"
    and "\<And>x s s'. x \<in> set xs \<Longrightarrow> I s \<Longrightarrow> f x s = Some s' \<Longrightarrow> I s'"
  shows "I s'"
  using assms
proof (induction xs arbitrary: s)
  case Nil
  then show ?case by simp
next
  case (Cons x xs)
  from Cons.prems(1) obtain t where t: "f x s = Some t" "foldM f xs t = Some s'"
    by (auto simp: bind_eq_Some_conv)
  have "I t" using Cons.prems(2) t(1) by (rule Cons.prems(3) [rotated]) simp
  with t(2) show ?case by (rule Cons.IH) (auto intro: Cons.prems(3))
qed

text \<open>Total correctness, with an invariant that may speak of the part already processed.\<close>

lemma foldM_total_prefix:
  assumes "I [] s"
    and "\<And>pre x rest s. xs = pre @ x # rest \<Longrightarrow> I pre s \<Longrightarrow>
      \<exists>s'. f x s = Some s' \<and> I (pre @ [x]) s'"
  shows "\<exists>s'. foldM f xs s = Some s' \<and> I xs s'"
proof -
  have "\<exists>s'. foldM f ys t = Some s' \<and> I xs s'" if "xs = pre @ ys" "I pre t" for ys pre t
    using that
  proof (induction ys arbitrary: pre t)
    case Nil
    then show ?case by simp
  next
    case (Cons y ys)
    from assms(2) [OF Cons.prems] obtain t' where "f y t = Some t'" "I (pre @ [y]) t'"
      by blast
    moreover have "xs = (pre @ [y]) @ ys" using Cons.prems by simp
    ultimately show ?case using Cons.IH [of "pre @ [y]" t'] by simp
  qed
  from this [of "[]" xs s] assms(1) show ?thesis by simp
qed

lemma foldM_total:
  assumes "I s" and "\<And>x s. x \<in> set xs \<Longrightarrow> I s \<Longrightarrow> \<exists>s'. f x s = Some s' \<and> I s'"
  shows "\<exists>s'. foldM f xs s = Some s' \<and> I s'"
  using assms by (intro foldM_total_prefix [where I = "\<lambda>_. I"]) auto

text \<open>A loop whose body is a total function is an ordinary fold.\<close>

lemma foldM_Some: "foldM (\<lambda>x s. Some (f x s)) xs s = Some (fold f xs s)"
  by (induction xs arbitrary: s) auto

lemma fold_frame: "(\<And>x s. x \<in> set xs \<Longrightarrow> g (f x s) = g s) \<Longrightarrow> g (fold f xs s) = g s"
  by (induction xs arbitrary: s) auto

text \<open>\<open>wlp m P\<close>: if \<open>m\<close> does not stop the program, its result satisfies \<open>P\<close>.\<close>

definition wlp :: "'a option \<Rightarrow> ('a \<Rightarrow> bool) \<Rightarrow> bool" where
  "wlp m P \<longleftrightarrow> (\<forall>y. m = Some y \<longrightarrow> P y)"

lemma case_SomeE: "case m of None \<Rightarrow> False | Some x \<Rightarrow> P x \<Longrightarrow> (\<And>x. m = Some x \<Longrightarrow> P x \<Longrightarrow> R) \<Longrightarrow> R"
  by (cases m) simp_all

lemma wlpI: "(\<And>y. m = Some y \<Longrightarrow> P y) \<Longrightarrow> wlp m P"
  by (simp add: wlp_def)

lemma wlpD: "wlp m P \<Longrightarrow> m = Some y \<Longrightarrow> P y"
  by (simp add: wlp_def)

lemma wlp_mono: "wlp m P \<Longrightarrow> (\<And>y. P y \<Longrightarrow> Q y) \<Longrightarrow> wlp m Q"
  by (simp add: wlp_def)

lemma wlp_bind [wlp_intros]: "wlp m (\<lambda>y. wlp (f y) P) \<Longrightarrow> wlp (Option.bind m f) P"
  by (auto simp: wlp_def bind_eq_Some_conv)

lemma wlp_Some [wlp_intros]: "P x \<Longrightarrow> wlp (Some x) P"
  by (simp add: wlp_def)

lemma wlp_None [wlp_intros]: "wlp None P"
  by (simp add: wlp_def)

lemma wlp_assert [wlp_intros]: "(b \<Longrightarrow> P ()) \<Longrightarrow> wlp (c_assert b) P"
  by (simp add: wlp_def)

lemma wlp_if [wlp_intros]: "(b \<Longrightarrow> wlp m P) \<Longrightarrow> (\<not> b \<Longrightarrow> wlp n P) \<Longrightarrow> wlp (if b then m else n) P"
  by simp

lemma wlp_let [wlp_intros]: "wlp (f x) P \<Longrightarrow> wlp (let y = x in f y) P"
  by simp

lemma wlp_case_prod [wlp_intros]: "(\<And>a b. x = (a, b) \<Longrightarrow> wlp (f a b) P) \<Longrightarrow> wlp (case x of (a, b) \<Rightarrow> f a b) P"
  by (cases x) simp

lemma wlp_case_bool [wlp_intros]:
  "(b \<Longrightarrow> wlp m P) \<Longrightarrow> (\<not> b \<Longrightarrow> wlp n P) \<Longrightarrow> wlp (case b of True \<Rightarrow> m | False \<Rightarrow> n) P"
  by (cases b) simp_all

lemma wlp_case_option [wlp_intros]:
  "(x = None \<Longrightarrow> wlp m P) \<Longrightarrow> (\<And>y. x = Some y \<Longrightarrow> wlp (f y) P) \<Longrightarrow> wlp (case x of None \<Rightarrow> m | Some y \<Rightarrow> f y) P"
  by (cases x) simp_all

lemma wlp_foldM:
  assumes "I s" and "\<And>x s. x \<in> set xs \<Longrightarrow> I s \<Longrightarrow> wlp (f x s) I" and "\<And>s. I s \<Longrightarrow> P s"
  shows "wlp (foldM f xs s) P"
  using assms foldM_invariant [of f xs s _ I] by (auto simp: wlp_def)

section \<open>Lists and maps\<close>

lemma remove1_Cons_self [simp]: "remove1 x (x # xs) = xs"
  by simp

lemma set_remove1_distinct [simp]: "distinct xs \<Longrightarrow> set (remove1 x xs) = set xs - {x}"
  by (rule set_remove1_eq)

lemma list_all2_map_eq: "list_all2 (\<lambda>x y. f x = y) xs ys \<longleftrightarrow> ys = map f xs"
  by (auto simp: list_all2_conv_all_nth list_eq_iff_nth_eq)

lemma find_Some_D: "List.find P xs = Some x \<Longrightarrow> x \<in> set xs \<and> P x"
  by (auto simp: find_Some_iff)

lemma find_append: "List.find P (xs @ ys) =
    (case List.find P xs of None \<Rightarrow> List.find P ys | Some x \<Rightarrow> Some x)"
  by (induction xs) auto

lemma find_unique:
  assumes "x \<in> set xs" and "P x" and "\<And>y. y \<in> set xs \<Longrightarrow> P y \<Longrightarrow> y = x"
  shows "List.find P xs = Some x"
proof (cases "List.find P xs")
  case None
  with assms(1,2) show ?thesis by (auto simp: find_None_iff)
next
  case (Some y)
  with assms(3) show ?thesis by (auto dest: find_Some_D)
qed

section \<open>Word facts\<close>

lemma unat_u8_less: "unat (x :: u8) < 256"
  using unsigned_less [of x] by simp

lemma unat_of_nat_u8: "n < 256 \<Longrightarrow> unat (of_nat n :: u8) = n"
  by (simp add: unat_of_nat take_bit_nat_eq_self)

lemma unat_u32_less: "unat (x :: u32) < 4294967296"
  using unsigned_less [of x] by simp

lemma unat_u16_less: "unat (x :: u16) < 65536"
  using unsigned_less [of x] by simp

section \<open>Allocation\<close>

text \<open>
  Whether each coming allocation fails: \<open>True\<close> at the head is a failure of the next one, and
  the allocations after the end of the list succeed.
\<close>

type_synonym oom = "bool list"

fun malloc :: "oom \<Rightarrow> bool \<times> oom" where
  "malloc [] = (True, [])"
| "malloc (b # bs) = (\<not> b, bs)"

end
