(* ===== verification/CommitState.thy ===== *)
theory CommitState
  imports Prelude
begin

text \<open>
  The commit state every object of the network model carries
  (\<^verbatim>\<open>netmodel/private/state.h\<close>), and the two helpers of
  \<^verbatim>\<open>netmodel/lsdn.c\<close> that mark an object for renewal. The C functions change the
  state through a pointer; here they return the new state.
\<close>

datatype lsdn_state =
    LSDN_STATE_NEW
  | LSDN_STATE_RENEW
  | LSDN_STATE_DELETE
  | LSDN_STATE_OK
  | LSDN_STATE_ERR
  | LSDN_STATE_FAIL

text \<open>
  What the macro \<^verbatim>\<open>free_helper\<close> does with an object: run the deallocation
  function at once, or mark the object (\<^verbatim>\<open>pending_free = true\<close>,
  \<^verbatim>\<open>state = LSDN_STATE_DELETE\<close>) for the deletion sweep of the next commit.
\<close>

datatype free_action = Free_now | Mark_deleted

definition free_helper :: "lsdn_state \<Rightarrow> free_action" where
  "free_helper st = (if st = LSDN_STATE_NEW then Free_now else Mark_deleted)"

definition ack_state :: "lsdn_state \<Rightarrow> lsdn_state" where
  "ack_state s =
     (let s1 = (if s = LSDN_STATE_NEW \<or> s = LSDN_STATE_RENEW then LSDN_STATE_OK else s)
      in if s1 = LSDN_STATE_ERR then LSDN_STATE_NEW else s1)"

fun ack_decommit :: "lsdn_state \<Rightarrow> bool \<times> lsdn_state" where
  "ack_decommit LSDN_STATE_DELETE = (True, LSDN_STATE_DELETE)"
| "ack_decommit LSDN_STATE_RENEW = (True, LSDN_STATE_NEW)"
| "ack_decommit s = (False, s)"

text \<open>The macro \<^verbatim>\<open>ack_delete\<close>: deallocate when \<^verbatim>\<open>pending_free\<close> is set.\<close>

definition ack_delete :: "bool \<Rightarrow> bool" where
  "ack_delete pending_free = pending_free"

definition renew :: "lsdn_state \<Rightarrow> lsdn_state option" where
  "renew state = do {
     c_assert (state \<noteq> LSDN_STATE_DELETE);
     Some (if state = LSDN_STATE_OK then LSDN_STATE_RENEW else state)
   }"

definition propagate :: "lsdn_state \<Rightarrow> lsdn_state \<Rightarrow> lsdn_state" where
  "propagate src dst =
     (if src = LSDN_STATE_RENEW \<and> dst = LSDN_STATE_OK then LSDN_STATE_RENEW else dst)"

definition should_be_validated :: "lsdn_state \<Rightarrow> bool" where
  "should_be_validated state \<longleftrightarrow> state = LSDN_STATE_NEW \<or> state = LSDN_STATE_RENEW"

definition will_be_deleted :: "lsdn_state \<Rightarrow> bool" where
  "will_be_deleted state \<longleftrightarrow> state = LSDN_STATE_DELETE"

definition state_ok :: "lsdn_state \<Rightarrow> bool" where
  "state_ok state \<longleftrightarrow> state = LSDN_STATE_OK \<or> state = LSDN_STATE_NEW"

lemmas commit_state_defs = free_helper_def ack_state_def ack_delete_def renew_def propagate_def
  should_be_validated_def will_be_deleted_def state_ok_def

lemma ack_state_simps [simp]:
  "ack_state LSDN_STATE_NEW = LSDN_STATE_OK"
  "ack_state LSDN_STATE_RENEW = LSDN_STATE_OK"
  "ack_state LSDN_STATE_DELETE = LSDN_STATE_DELETE"
  "ack_state LSDN_STATE_OK = LSDN_STATE_OK"
  "ack_state LSDN_STATE_ERR = LSDN_STATE_NEW"
  "ack_state LSDN_STATE_FAIL = LSDN_STATE_FAIL"
  by (simp_all add: ack_state_def)

lemma renew_simps [simp]:
  "renew LSDN_STATE_NEW = Some LSDN_STATE_NEW"
  "renew LSDN_STATE_RENEW = Some LSDN_STATE_RENEW"
  "renew LSDN_STATE_DELETE = None"
  "renew LSDN_STATE_OK = Some LSDN_STATE_RENEW"
  "renew LSDN_STATE_ERR = Some LSDN_STATE_ERR"
  "renew LSDN_STATE_FAIL = Some LSDN_STATE_FAIL"
  by (simp_all add: renew_def c_assert_def)

lemma renew_Some_iff: "(\<exists>s'. renew s = Some s') \<longleftrightarrow> s \<noteq> LSDN_STATE_DELETE"
  by (cases s) simp_all

lemma ack_decommit_fst: "fst (ack_decommit s) \<longleftrightarrow> s = LSDN_STATE_DELETE \<or> s = LSDN_STATE_RENEW"
  by (cases s) simp_all

lemma ack_decommit_snd: "snd (ack_decommit s) = (if s = LSDN_STATE_RENEW then LSDN_STATE_NEW else s)"
  by (cases s) simp_all

lemma propagate_idem: "propagate f (propagate f t) = propagate f t"
  by (simp add: propagate_def)

end
