(* ===== verification/Errors.thy ===== *)
theory Errors
  imports CommitState
begin

text \<open>
  Error codes, problem reports and the error-accumulation helpers:
  \<^verbatim>\<open>netmodel/include/errors.h\<close>, \<^verbatim>\<open>netmodel/errors.c\<close> and
  \<^verbatim>\<open>netmodel/private/errors.h\<close>.
\<close>

section \<open>Error codes and problems\<close>

datatype lsdn_err_t =
    LSDNE_OK | LSDNE_NOMEM | LSDNE_PARSE | LSDNE_DUPLICATE | LSDNE_NOIF | LSDNE_NETLINK
  | LSDNE_VALIDATE | LSDNE_COMMIT | LSDNE_INCONSISTENT

datatype lsdn_problem_code =
    LSDNP_PHYS_NOATTR | LSDNP_PHYS_DUPATTR | LSDNP_PHYS_INCOMPATIBLE_IPV
  | LSDNP_PHYS_NOT_ATTACHED | LSDNP_VIRT_NOIF | LSDNP_VIRT_NOATTR | LSDNP_VIRT_DUPATTR
  | LSDNP_NET_BAD_NETTYPE | LSDNP_NET_BADID | LSDNP_NET_DUPID | LSDNP_VR_INCOMPATIBLE_MATCH
  | LSDNP_VR_DUPLICATE_RULE | LSDNP_COMMIT_NETLINK | LSDNP_COMMIT_NETLINK_CLEANUP
  | LSDNP_COMMIT_NOMEM | LSDNP_NO_NLSOCK | LSDNP_RATES_INVALID

text \<open>
  A reference to a problem item: its type and what the untyped pointer points to.
  \<open>LSDNS_IF v\<close> is the connected interface of the virt \<open>v\<close>, the only interface the
  code ever reports. \<^verbatim>\<open>LSDNS_END\<close> ends a variadic list and is the end of the HOL
  list here.
\<close>

datatype lsdn_problem_ref =
    LSDNS_ATTR string
  | LSDNS_PHYS ptr
  | LSDNS_PA ptr
  | LSDNS_NET ptr
  | LSDNS_VIRT ptr
  | LSDNS_IF ptr
  | LSDNS_NETID u32
  | LSDNS_VR ptr

record lsdn_problem =
  code :: lsdn_problem_code
  refs :: "lsdn_problem_ref list"

definition LSDN_MAX_PROBLEM_REFS :: nat where
  "LSDN_MAX_PROBLEM_REFS = 10"

fun problem_code_names :: "lsdn_problem_code \<Rightarrow> string" where
  "problem_code_names LSDNP_PHYS_NOATTR =
     ''An attribute %o must be defined on phys %o for attachment to net %o.''"
| "problem_code_names LSDNP_PHYS_DUPATTR =
     ''Duplicate attribute %o specified for phys %o and phys %o.''"
| "problem_code_names LSDNP_PHYS_INCOMPATIBLE_IPV =
     ''Phys %o and phys %o attached to net %o have incompatible ip versions.''"
| "problem_code_names LSDNP_PHYS_NOT_ATTACHED =
     ''Trying to connect virt %o to a network %o on phys %o, but the phys is not attached to that network.''"
| "problem_code_names LSDNP_VIRT_NOIF =
     ''The interface %o specified for virt %o does not exist.''"
| "problem_code_names LSDNP_VIRT_NOATTR =
     ''An attribute %o must be defined on virt %o connected to net %o.''"
| "problem_code_names LSDNP_VIRT_DUPATTR =
     ''Duplicate attribute %o specified for virt %o and virt %o connected to net %o.''"
| "problem_code_names LSDNP_NET_BAD_NETTYPE =
     ''Trying to create net %o and net %o of incompatible network types on the same machine.''"
| "problem_code_names LSDNP_NET_BADID =
     ''Trying to create net %o with net id %o that is out of the allowed range for this type of network.''"
| "problem_code_names LSDNP_NET_DUPID =
     ''Trying to create net %o and net %o with the same net id %o.''"
| "problem_code_names LSDNP_VR_INCOMPATIBLE_MATCH =
     ''Rules %o and %o on virt %o share the same priority, but have different match targets or masks.''"
| "problem_code_names LSDNP_VR_DUPLICATE_RULE =
     ''Rules %o and %o on virt %o share the same priority and are completely equal''"
| "problem_code_names LSDNP_COMMIT_NETLINK =
     ''Committing %o failed because kernel has refused the operation''"
| "problem_code_names LSDNP_COMMIT_NETLINK_CLEANUP =
     ''Cleanup of %o failed because kernel has refused the operation. It has been left in inconsistent state.''"
| "problem_code_names LSDNP_COMMIT_NOMEM =
     ''Committing %o failed because memory was exhausted.''"
| "problem_code_names LSDNP_NO_NLSOCK = ''Can not establish netlink socket.''"
| "problem_code_names LSDNP_RATES_INVALID =
     ''Effective QoS (%o) rate on %o is not greater than zero. This is probably not the rate you are looking for.''"

section \<open>Reporting\<close>

text \<open>
  The problem callback of the context. \<open>CB_NULL\<close> is a null callback, \<open>CB_ABORT\<close> the
  \<^verbatim>\<open>abort_handler\<close> that \<^verbatim>\<open>lsdn_context_free\<close> installs, and
  \<open>CB_USER\<close> any callback that returns; the problems given to it are kept in
  \<open>problem_log\<close>, the last one first.
\<close>

datatype lsdn_problem_cb = CB_NULL | CB_USER | CB_ABORT

record reporter =
  problem_cb :: lsdn_problem_cb
  problem_count :: nat
  problem_log :: "lsdn_problem list"
  inconsistent :: bool

text \<open>
  The loop over the variadic arguments stores each reference in the next slot of
  \<^verbatim>\<open>ctx->problem_refs\<close>, asserting that a slot is left.
\<close>

fun collect_refs :: "lsdn_problem_ref list \<Rightarrow> lsdn_problem_ref list \<Rightarrow> lsdn_problem_ref list option" where
  "collect_refs [] acc = Some acc"
| "collect_refs (r # rs) acc = do {
     c_assert (length acc < LSDN_MAX_PROBLEM_REFS);
     collect_refs rs (acc @ [r])
   }"

definition lsdn_problem_report ::
    "lsdn_problem_code \<Rightarrow> lsdn_problem_ref list \<Rightarrow> reporter \<Rightarrow> reporter option" where
  "lsdn_problem_report c args ctx = do {
     rs \<leftarrow> collect_refs args [];
     let problem = \<lparr>code = c, refs = rs\<rparr>;
     ctx \<leftarrow> (case problem_cb ctx of
         CB_NULL \<Rightarrow> Some ctx
       | CB_USER \<Rightarrow> Some (ctx\<lparr>problem_log := problem # problem_log ctx\<rparr>)
       | CB_ABORT \<Rightarrow> None);
     Some (ctx\<lparr>problem_count := problem_count ctx + 1\<rparr>)
   }"

section \<open>Printing a problem\<close>

text \<open>
  \<open>subject_name\<close> reads the name of the object a reference points to
  (\<^verbatim>\<open>ifname\<close>, \<^verbatim>\<open>name.str\<close>), \<open>None\<close> for a null name;
  \<open>addr\<close> is what the C library prints for \<^verbatim>\<open>%p\<close> of the reference. An
  interface prints its name and, since the branch does not set
  \<^verbatim>\<open>printed\<close>, the address after it.
\<close>

definition format_subject ::
    "(lsdn_problem_ref \<Rightarrow> string option) \<Rightarrow> (lsdn_problem_ref \<Rightarrow> string) \<Rightarrow> lsdn_problem_ref \<Rightarrow> string option" where
  "format_subject subject_name addr subj =
     (let or_addr = (case subject_name subj of None \<Rightarrow> addr subj | Some n \<Rightarrow> n) in
      case subj of
        LSDNS_IF v \<Rightarrow> map_option (\<lambda>n. n @ addr subj) (subject_name subj)
      | LSDNS_NET n \<Rightarrow> Some or_addr
      | LSDNS_VIRT v \<Rightarrow> Some or_addr
      | LSDNS_PHYS p \<Rightarrow> Some or_addr
      | LSDNS_ATTR a \<Rightarrow> Some a
      | _ \<Rightarrow> Some (addr subj))"

fun format_loop ::
    "(lsdn_problem_ref \<Rightarrow> string option) \<Rightarrow> string \<Rightarrow> lsdn_problem_ref list \<Rightarrow> string option" where
  "format_loop sub [] rs = Some []"
| "format_loop sub (c # fmt) rs =
     (if c = CHR ''%'' then
        (case fmt of
           [] \<Rightarrow> None
         | d # fmt' \<Rightarrow> do {
             c_assert (d = CHR ''o'');
             c_assert (rs \<noteq> []);
             t \<leftarrow> sub (hd rs);
             rest \<leftarrow> format_loop sub fmt' (tl rs);
             Some (t @ rest)
           })
      else map_option (\<lambda>t. c # t) (format_loop sub fmt rs))"

text \<open>
  What goes to the stream \<^verbatim>\<open>out\<close> and what goes to \<^verbatim>\<open>stderr\<close>: the
  final newline is written to \<^verbatim>\<open>stderr\<close> whatever \<^verbatim>\<open>out\<close> is.
\<close>

definition lsdn_problem_format ::
    "(lsdn_problem_ref \<Rightarrow> string option) \<Rightarrow> (lsdn_problem_ref \<Rightarrow> string) \<Rightarrow> lsdn_problem
      \<Rightarrow> (string \<times> string) option" where
  "lsdn_problem_format subject_name addr problem = do {
     text \<leftarrow> format_loop (format_subject subject_name addr)
       (problem_code_names (code problem)) (refs problem);
     Some (text, [CHR 0x0A])
   }"

section \<open>Error accumulation\<close>

text \<open>Transform any error into \<^verbatim>\<open>LSDNE_INCONSISTENT\<close>.\<close>

definition acc_inconsistent :: "lsdn_err_t \<Rightarrow> lsdn_err_t \<Rightarrow> lsdn_err_t" where
  "acc_inconsistent dst src = (if src \<noteq> LSDNE_OK then LSDNE_INCONSISTENT else dst)"

text \<open>
  The out-of-memory callback: none, the predefined \<^verbatim>\<open>lsdn_abort_cb\<close>, or one of
  the user's that returns.
\<close>

datatype lsdn_nomem_cb = NOMEM_NULL | NOMEM_USER | NOMEM_ABORT

definition ret_err :: "lsdn_nomem_cb \<Rightarrow> lsdn_err_t \<Rightarrow> lsdn_err_t option" where
  "ret_err cb err = (if err = LSDNE_NOMEM \<and> cb = NOMEM_ABORT then None else Some err)"

definition ret_ptr :: "lsdn_nomem_cb \<Rightarrow> ptr option \<Rightarrow> ptr option option" where
  "ret_ptr cb p = (if p = None \<and> cb = NOMEM_ABORT then None else Some p)"

text \<open>
  \<open>mark_commit_err\<close> returns whether the operation failed, the object's new state and the
  reporter. An error code that no commit operation may return aborts the program.
\<close>

definition mark_commit_err ::
    "reporter \<Rightarrow> lsdn_state \<Rightarrow> lsdn_problem_ref \<Rightarrow> bool \<Rightarrow> lsdn_err_t
      \<Rightarrow> (bool \<times> lsdn_state \<times> reporter) option" where
  "mark_commit_err ctx s subj fatal err =
     (if s = LSDN_STATE_FAIL then Some (True, s, ctx)
      else if err = LSDNE_INCONSISTENT \<or> fatal \<and> err = LSDNE_NETLINK then do {
        ctx \<leftarrow> lsdn_problem_report LSDNP_COMMIT_NETLINK_CLEANUP [subj] ctx;
        Some (True, LSDN_STATE_FAIL, ctx)
      }
      else if err = LSDNE_NETLINK then do {
        ctx \<leftarrow> lsdn_problem_report LSDNP_COMMIT_NETLINK [subj] ctx;
        Some (True, LSDN_STATE_ERR, ctx)
      }
      else if err = LSDNE_NOMEM then do {
        ctx \<leftarrow> lsdn_problem_report LSDNP_COMMIT_NOMEM [subj] ctx;
        Some (True, LSDN_STATE_ERR, ctx)
      }
      else if err = LSDNE_OK then Some (False, s, ctx)
      else None)"

section \<open>Facts about reports\<close>

definition problem_arity :: "lsdn_problem_code \<Rightarrow> nat" where
  "problem_arity c = count_list (problem_code_names c) (CHR ''%'')"

lemma problem_arity_simps [simp]:
  "problem_arity LSDNP_PHYS_NOATTR = 3" "problem_arity LSDNP_PHYS_DUPATTR = 3"
  "problem_arity LSDNP_PHYS_INCOMPATIBLE_IPV = 3" "problem_arity LSDNP_PHYS_NOT_ATTACHED = 3"
  "problem_arity LSDNP_VIRT_NOIF = 2" "problem_arity LSDNP_VIRT_NOATTR = 3"
  "problem_arity LSDNP_VIRT_DUPATTR = 4" "problem_arity LSDNP_NET_BAD_NETTYPE = 2"
  "problem_arity LSDNP_NET_BADID = 2" "problem_arity LSDNP_NET_DUPID = 3"
  "problem_arity LSDNP_VR_INCOMPATIBLE_MATCH = 3" "problem_arity LSDNP_VR_DUPLICATE_RULE = 3"
  "problem_arity LSDNP_COMMIT_NETLINK = 1" "problem_arity LSDNP_COMMIT_NETLINK_CLEANUP = 1"
  "problem_arity LSDNP_COMMIT_NOMEM = 1" "problem_arity LSDNP_NO_NLSOCK = 0"
  "problem_arity LSDNP_RATES_INVALID = 2"
  by (simp_all add: problem_arity_def)

text \<open>A format string is well formed when every percent sign starts the conversion \<^verbatim>\<open>%o\<close>.\<close>

fun fmt_wf :: "string \<Rightarrow> bool" where
  "fmt_wf [] = True"
| "fmt_wf (c # fmt) =
     (if c = CHR ''%'' then (case fmt of [] \<Rightarrow> False | d # fmt' \<Rightarrow> d = CHR ''o'' \<and> fmt_wf fmt')
      else fmt_wf fmt)"

lemma fmt_wf_problem_code_names: "fmt_wf (problem_code_names c)"
  by (cases c) simp_all

lemma format_loop_Some_iff:
  assumes "fmt_wf fmt" and "\<And>r. r \<in> set rs \<Longrightarrow> sub r \<noteq> None"
  shows "(\<exists>t. format_loop sub fmt rs = Some t) \<longleftrightarrow> count_list fmt (CHR ''%'') \<le> length rs"
  using assms
proof (induction sub fmt rs rule: format_loop.induct)
  case (2 sub c fmt rs)
  show ?case
  proof (cases "c = CHR ''%''")
    case True
    then obtain fmt' where fmt: "fmt = CHR ''o'' # fmt'" and wf: "fmt_wf fmt'"
      using "2.prems"(1) by (auto split: list.splits)
    show ?thesis
    proof (cases rs)
      case Nil
      then show ?thesis using True fmt by (simp add: c_assert_def)
    next
      case (Cons r rs')
      then obtain t where "sub r = Some t" using "2.prems"(2) by fastforce
      moreover have "(\<exists>t. format_loop sub fmt' rs' = Some t) \<longleftrightarrow>
          count_list fmt' (CHR ''%'') \<le> length rs'"
        using "2.IH"(1) [OF True fmt, of "()" "()" t] "2.prems"(2) wf Cons \<open>sub r = Some t\<close>
        by (simp add: c_assert_def)
      ultimately show ?thesis using True fmt Cons by (auto simp: c_assert_def bind_eq_Some_conv)
    qed
  qed (use 2 in auto)
qed simp

lemma collect_refs_eq:
  "collect_refs rs acc =
     (if rs = [] \<or> length acc + length rs \<le> LSDN_MAX_PROBLEM_REFS then Some (acc @ rs) else None)"
  by (induction rs acc rule: collect_refs.induct) (auto simp: c_assert_def)

lemma lsdn_problem_report_eq:
  assumes "length args \<le> LSDN_MAX_PROBLEM_REFS" and "problem_cb ctx \<noteq> CB_ABORT"
  shows "lsdn_problem_report c args ctx = Some (ctx\<lparr>
    problem_log := (if problem_cb ctx = CB_USER then [\<lparr>code = c, refs = args\<rparr>] else []) @ problem_log ctx,
    problem_count := problem_count ctx + 1\<rparr>)"
  using assms by (cases "problem_cb ctx") (simp_all add: lsdn_problem_report_def collect_refs_eq)

lemma lsdn_problem_report_SomeD:
  assumes "lsdn_problem_report c args ctx = Some ctx'"
  shows "problem_count ctx' = problem_count ctx + 1" "problem_cb ctx' = problem_cb ctx"
    "inconsistent ctx' = inconsistent ctx" "problem_cb ctx \<noteq> CB_ABORT"
  using assms
  by (cases "problem_cb ctx"; auto simp: lsdn_problem_report_def bind_eq_Some_conv)+

text \<open>\<open>mark_commit_err\<close> is total on the errors a commit step may return.\<close>

definition commit_step_err :: "lsdn_err_t \<Rightarrow> bool" where
  "commit_step_err e \<longleftrightarrow> e \<in> {LSDNE_OK, LSDNE_NOMEM, LSDNE_NETLINK, LSDNE_INCONSISTENT}"

lemma mark_commit_err_total:
  assumes "commit_step_err err" "problem_cb ctx \<noteq> CB_ABORT"
  shows "\<exists>r s' ctx'. mark_commit_err ctx s subj fatal err = Some (r, s', ctx')"
  using assms
  by (cases err) (auto simp: mark_commit_err_def commit_step_err_def lsdn_problem_report_eq
      LSDN_MAX_PROBLEM_REFS_def)

lemma mark_commit_err_result:
  assumes "mark_commit_err ctx s subj fatal err = Some (r, s', ctx')"
  shows "r \<longleftrightarrow> s = LSDN_STATE_FAIL \<or> err \<noteq> LSDNE_OK"
    and "\<not> r \<Longrightarrow> s' = s \<and> ctx' = ctx"
    and "r \<Longrightarrow> s' = LSDN_STATE_FAIL \<or> s' = LSDN_STATE_ERR"
    and "problem_cb ctx' = problem_cb ctx" and "problem_count ctx \<le> problem_count ctx'"
    and "inconsistent ctx' = inconsistent ctx"
  using assms
  by (auto simp: mark_commit_err_def bind_eq_Some_conv split: if_splits
      dest: lsdn_problem_report_SomeD)

lemma acc_inconsistent_OK [simp]: "acc_inconsistent dst LSDNE_OK = dst"
  by (simp add: acc_inconsistent_def)

lemma acc_inconsistent_eq_OK: "acc_inconsistent dst src = LSDNE_OK \<longleftrightarrow> dst = LSDNE_OK \<and> src = LSDNE_OK"
  by (simp add: acc_inconsistent_def)

section \<open>Properties\<close>



end
