(* ===== verification/Nettypes.thy ===== *)
theory Nettypes
  imports Errors
begin

text \<open>
  MAC and IP addresses, their textual forms and network masks:
  \<^verbatim>\<open>netmodel/nettypes.c\<close> and \<^verbatim>\<open>netmodel/include/nettypes.h\<close>. C strings are
  HOL strings without a zero character.
\<close>

section \<open>Address types\<close>

type_synonym lsdn_mac_t = "u8 list"

datatype lsdn_ipv = LSDN_IPv4 | LSDN_IPv6

text \<open>The tag \<^verbatim>\<open>v\<close> of the C structure selects the member of the union.\<close>

datatype lsdn_ip_t = IP4 (ip_bytes: "u8 list") | IP6 (ip_bytes: "u8 list")

definition LSDN_MAC_LEN :: nat where "LSDN_MAC_LEN = 6"
definition LSDN_IPv4_LEN :: nat where "LSDN_IPv4_LEN = 4"
definition LSDN_IPv6_LEN :: nat where "LSDN_IPv6_LEN = 16"

lemmas len_defs = LSDN_MAC_LEN_def LSDN_IPv4_LEN_def LSDN_IPv6_LEN_def

fun ip_v :: "lsdn_ip_t \<Rightarrow> lsdn_ipv" where
  "ip_v (IP4 _) = LSDN_IPv4"
| "ip_v (IP6 _) = LSDN_IPv6"

fun ip_len :: "lsdn_ipv \<Rightarrow> nat" where
  "ip_len LSDN_IPv4 = LSDN_IPv4_LEN"
| "ip_len LSDN_IPv6 = LSDN_IPv6_LEN"

definition mac_wf :: "lsdn_mac_t \<Rightarrow> bool" where
  "mac_wf mac \<longleftrightarrow> length mac = LSDN_MAC_LEN"

definition ip_wf :: "lsdn_ip_t \<Rightarrow> bool" where
  "ip_wf ip \<longleftrightarrow> length (ip_bytes ip) = ip_len (ip_v ip)"

definition lsdn_broadcast_mac :: lsdn_mac_t where
  "lsdn_broadcast_mac = [0xFF, 0xFF, 0xFF, 0xFF, 0xFF, 0xFF]"
definition lsdn_multicast_mac_mask :: lsdn_mac_t where
  "lsdn_multicast_mac_mask = [0x01, 0x00, 0x00, 0x00, 0x00, 0x00]"
definition lsdn_single_mac_mask :: lsdn_mac_t where
  "lsdn_single_mac_mask = [0xFF, 0xFF, 0xFF, 0xFF, 0xFF, 0xFF]"
definition lsdn_all_zeroes_mac :: lsdn_mac_t where
  "lsdn_all_zeroes_mac = [0x00, 0x00, 0x00, 0x00, 0x00, 0x00]"
definition lsdn_single_ipv4_mask :: lsdn_ip_t where
  "lsdn_single_ipv4_mask = IP4 (replicate 4 0xFF)"
definition lsdn_single_ipv6_mask :: lsdn_ip_t where
  "lsdn_single_ipv6_mask = IP6 (replicate 16 0xFF)"

definition lsdn_mac_eq :: "lsdn_mac_t \<Rightarrow> lsdn_mac_t \<Rightarrow> bool" where
  "lsdn_mac_eq a b \<longleftrightarrow> take LSDN_MAC_LEN a = take LSDN_MAC_LEN b"

definition lsdn_ip_eq :: "lsdn_ip_t \<Rightarrow> lsdn_ip_t \<Rightarrow> bool" where
  "lsdn_ip_eq a b \<longleftrightarrow>
     (if ip_v a \<noteq> ip_v b then False
      else if ip_v a = LSDN_IPv4
      then take LSDN_IPv4_LEN (ip_bytes a) = take LSDN_IPv4_LEN (ip_bytes b)
      else take LSDN_IPv6_LEN (ip_bytes a) = take LSDN_IPv6_LEN (ip_bytes b))"

definition lsdn_ipv_eq :: "lsdn_ip_t \<Rightarrow> lsdn_ip_t \<Rightarrow> bool" where
  "lsdn_ipv_eq a b \<longleftrightarrow> ip_v a = ip_v b"

definition lsdn_ip4_u32 :: "u8 list \<Rightarrow> u32" where
  "lsdn_ip4_u32 b =
     push_bit 24 (ucast (b ! 0)) OR push_bit 16 (ucast (b ! 1)) OR push_bit 8 (ucast (b ! 2)) OR ucast (b ! 3)"

section \<open>The C library's number formats\<close>

definition hexdig :: "nat \<Rightarrow> char" where
  "hexdig n = ''0123456789abcdef'' ! n"

definition hexval :: "char \<Rightarrow> nat option" where
  "hexval c =
     (let n = (of_char c :: nat) in
      if 48 \<le> n \<and> n \<le> 57 then Some (n - 48)
      else if 97 \<le> n \<and> n \<le> 102 then Some (n - 87)
      else if 65 \<le> n \<and> n \<le> 70 then Some (n - 55)
      else None)"

definition isspace :: "char \<Rightarrow> bool" where
  "isspace c \<longleftrightarrow> (let n = (of_char c :: nat) in n = 32 \<or> 9 \<le> n \<and> n \<le> 13)"

fun hex_digits :: "nat \<Rightarrow> string \<Rightarrow> nat \<times> string" where
  "hex_digits acc [] = (acc, [])"
| "hex_digits acc (c # cs) =
     (case hexval c of None \<Rightarrow> (acc, c # cs) | Some d \<Rightarrow> hex_digits (16 * acc + d) cs)"

text \<open>
  \<^verbatim>\<open>strtoul(s, &end, 16)\<close> on a string too short to overflow: the value and the rest
  \<^verbatim>\<open>end\<close>. Leading white space, a sign and the prefix \<^verbatim>\<open>0x\<close> (when a digit
  follows) are accepted; when there is no digit, \<open>end\<close> is the whole string.
\<close>

definition strtoul16 :: "string \<Rightarrow> int \<times> string" where
  "strtoul16 s =
     (let s1 = dropWhile isspace s;
          neg = (s1 \<noteq> [] \<and> hd s1 = CHR ''-'');
          s2 = (if s1 \<noteq> [] \<and> (hd s1 = CHR ''-'' \<or> hd s1 = CHR ''+'') then tl s1 else s1);
          s3 = (case s2 of
                  z # x # d # _ \<Rightarrow>
                    if z = CHR ''0'' \<and> (x = CHR ''x'' \<or> x = CHR ''X'') \<and> hexval d \<noteq> None
                    then tl (tl s2) else s2
                | _ \<Rightarrow> s2);
          (v, rest) = hex_digits 0 s3
      in if s3 = [] \<or> hexval (hd s3) = None then (0, s)
         else (if neg then - int v else int v, rest))"

text \<open>\<^verbatim>\<open>%02x\<close> of a byte, and \<^verbatim>\<open>%d\<close> of a natural number.\<close>

definition fmt_02x :: "u8 \<Rightarrow> string" where
  "fmt_02x b = [hexdig (unat b div 16), hexdig (unat b mod 16)]"

fun fmt_d :: "nat \<Rightarrow> string" where
  "fmt_d n = (if n < 10 then [hexdig n] else fmt_d (n div 10) @ [hexdig (n mod 10)])"

declare fmt_d.simps [simp del]

section \<open>Parsing\<close>

text \<open>
  The parsers return the error code and the structure they write to. \<open>parse_octet\<close> returns the code, the
  value to store (if it stores one) and the advanced string.
\<close>

definition parse_octet :: "string \<Rightarrow> lsdn_err_t \<times> u8 option \<times> string" where
  "parse_octet ascii =
     (case ascii of
        a # b # rest \<Rightarrow>
          (let (value, e) = strtoul16 [a, b] in
           if e \<noteq> [] then (LSDNE_PARSE, None, ascii) else (LSDNE_OK, Some (word_of_int value), rest))
      | _ \<Rightarrow> (LSDNE_OK, None, ascii))"

fun parse_mac_loop :: "nat \<Rightarrow> nat \<Rightarrow> lsdn_mac_t \<Rightarrow> string \<Rightarrow> lsdn_err_t \<times> lsdn_mac_t" where
  "parse_mac_loop 0 i mac ascii = (if ascii \<noteq> [] then LSDNE_PARSE else LSDNE_OK, mac)"
| "parse_mac_loop (Suc k) i mac ascii =
     (case parse_octet ascii of (err, v, ascii) \<Rightarrow>
      if err \<noteq> LSDNE_OK then (LSDNE_PARSE, mac)
      else let mac = (case v of None \<Rightarrow> mac | Some b \<Rightarrow> mac[i := b]) in
        parse_mac_loop k (i + 1) mac
          (if ascii \<noteq> [] \<and> hd ascii = CHR '':'' then tl ascii else ascii))"

definition lsdn_parse_mac :: "lsdn_mac_t \<Rightarrow> string \<Rightarrow> lsdn_err_t \<times> lsdn_mac_t" where
  "lsdn_parse_mac mac ascii = parse_mac_loop LSDN_MAC_LEN 0 mac ascii"

text \<open>
  \<^verbatim>\<open>inet_pton(AF_INET, ...)\<close>: the octets read so far in reverse, whether the current one
  has a digit, and the rest of the text. An octet has no superfluous leading zero and is at most 255.
\<close>

fun inet_pton4_loop :: "nat list \<Rightarrow> bool \<Rightarrow> string \<Rightarrow> u8 list option" where
  "inet_pton4_loop octs saw_digit [] =
     (if saw_digit \<and> length octs = 4 then Some (map of_nat (rev octs)) else None)"
| "inet_pton4_loop octs saw_digit (ch # src) =
     (case hexval ch of
        Some d \<Rightarrow>
          if d \<ge> 10 then None
          else if saw_digit then
            (if hd octs = 0 \<or> hd octs * 10 + d > 255 then None
             else inet_pton4_loop ((hd octs * 10 + d) # tl octs) True src)
          else if length octs \<ge> 4 then None
          else inet_pton4_loop (d # octs) True src
      | None \<Rightarrow>
          if ch = CHR ''.'' \<and> saw_digit \<and> length octs < 4
          then inet_pton4_loop octs False src else None)"

text \<open>
  \<^verbatim>\<open>inet_pton(AF_INET6, ...)\<close> on a text without a dot, the only texts it is called on
  here: the bytes read so far, the position of the double colon, the digits and the value of the
  current group.
\<close>

fun inet_pton6_loop :: "u8 list \<Rightarrow> nat option \<Rightarrow> nat \<Rightarrow> nat \<Rightarrow> string \<Rightarrow> (u8 list \<times> nat option) option" where
  "inet_pton6_loop tp colonp seen val [] =
     (if seen = 0 then Some (tp, colonp)
      else if length tp + 2 > 16 then None
      else Some (tp @ [of_nat (val div 256), of_nat (val mod 256)], colonp))"
| "inet_pton6_loop tp colonp seen val (ch # src) =
     (case hexval ch of
        Some d \<Rightarrow> if seen = 4 then None else inet_pton6_loop tp colonp (seen + 1) (16 * val + d) src
      | None \<Rightarrow>
          if ch \<noteq> CHR '':'' then None
          else if seen = 0 then
            (if colonp \<noteq> None then None else inet_pton6_loop tp (Some (length tp)) 0 val src)
          else if src = [] then None
          else if length tp + 2 > 16 then None
          else inet_pton6_loop (tp @ [of_nat (val div 256), of_nat (val mod 256)]) colonp 0 0 src)"

definition inet_pton4 :: "string \<Rightarrow> u8 list option" where
  "inet_pton4 src = inet_pton4_loop [] False src"

definition inet_pton6 :: "string \<Rightarrow> u8 list option" where
  "inet_pton6 src =
     (if src = [] then None
      else do {
        src \<leftarrow> (if hd src = CHR '':'' then
                  (if tl src = [] \<or> hd (tl src) \<noteq> CHR '':'' then None else Some (tl src))
                else Some src);
        (tp, colonp) \<leftarrow> inet_pton6_loop [] None 0 0 src;
        (case colonp of
           None \<Rightarrow> if length tp = 16 then Some tp else None
         | Some c \<Rightarrow> if length tp = 16 then None
                     else Some (take c tp @ replicate (16 - length tp) 0 @ drop c tp))
      })"

definition lsdn_parse_ip :: "string \<Rightarrow> lsdn_err_t + lsdn_ip_t" where
  "lsdn_parse_ip ascii =
     (let res = (if CHR ''.'' \<in> set ascii then map_option IP4 (inet_pton4 ascii)
                 else if CHR '':'' \<in> set ascii then map_option IP6 (inet_pton6 ascii)
                 else None)
      in case res of Some ip \<Rightarrow> Inr ip | None \<Rightarrow> Inl LSDNE_PARSE)"

section \<open>Printing\<close>

fun join_colon :: "string list \<Rightarrow> string" where
  "join_colon [] = []"
| "join_colon [s] = s"
| "join_colon (s # t # ss) = s @ '':'' @ join_colon (t # ss)"

definition lsdn_mac_to_string :: "lsdn_mac_t \<Rightarrow> string" where
  "lsdn_mac_to_string mac =
     fmt_02x (mac ! 0) @ '':'' @ fmt_02x (mac ! 1) @ '':'' @ fmt_02x (mac ! 2) @ '':'' @
     fmt_02x (mac ! 3) @ '':'' @ fmt_02x (mac ! 4) @ '':'' @ fmt_02x (mac ! 5)"

definition lsdn_ipv4_to_string :: "u8 list \<Rightarrow> string" where
  "lsdn_ipv4_to_string b =
     fmt_d (unat (b ! 0)) @ ''.'' @ fmt_d (unat (b ! 1)) @ ''.'' @
     fmt_d (unat (b ! 2)) @ ''.'' @ fmt_d (unat (b ! 3))"

definition lsdn_ipv6_to_string :: "u8 list \<Rightarrow> string" where
  "lsdn_ipv6_to_string b =
     join_colon (map (\<lambda>i. fmt_02x (b ! (2 * i)) @ fmt_02x (b ! (2 * i + 1))) [0..<8])"

definition lsdn_ip_to_string :: "lsdn_ip_t \<Rightarrow> string" where
  "lsdn_ip_to_string ip =
     (if ip_v ip = LSDN_IPv4 then lsdn_ipv4_to_string (ip_bytes ip) else lsdn_ipv6_to_string (ip_bytes ip))"

section \<open>Masks\<close>

definition lsdn_is_prefix_valid :: "lsdn_ipv \<Rightarrow> int \<Rightarrow> bool" where
  "lsdn_is_prefix_valid ipv prefix =
     (case ipv of
        LSDN_IPv4 \<Rightarrow> prefix \<ge> 0 \<and> prefix \<le> 32
      | LSDN_IPv6 \<Rightarrow> prefix \<ge> 0 \<and> prefix \<le> 128)"

text \<open>Writing behind the array is \<open>None\<close>.\<close>

fun gen_prefix :: "u8 list \<Rightarrow> int \<Rightarrow> u8 list option" where
  "gen_prefix [] prefix = (if prefix > 0 then None else Some [])"
| "gen_prefix (x # dst) prefix =
     (if prefix > 0 then
        (let byte_prefix = (if prefix > 8 then 8 else prefix);
             zero_suffix = 8 - byte_prefix
         in map_option (\<lambda>r. push_bit (nat zero_suffix) 0xFF # r) (gen_prefix dst (prefix - 8)))
      else Some (x # dst))"

definition lsdn_ip_mask_from_prefix :: "lsdn_ipv \<Rightarrow> int \<Rightarrow> lsdn_ip_t option" where
  "lsdn_ip_mask_from_prefix v prefix = do {
     c_assert (lsdn_is_prefix_valid v prefix);
     (case v of
        LSDN_IPv4 \<Rightarrow> map_option IP4 (gen_prefix (replicate LSDN_IPv4_LEN 0) prefix)
      | LSDN_IPv6 \<Rightarrow> map_option IP6 (gen_prefix (replicate LSDN_IPv6_LEN 0) prefix))
   }"

partial_function (option) octet_loop :: "u8 \<Rightarrow> u8 \<Rightarrow> u8 \<Rightarrow> bool \<Rightarrow> bool option" where
  "octet_loop b d n ok =
     (if d \<noteq> 0 then octet_loop b (d * 2) (n - d * 2) (if b = n then True else ok) else Some ok)"

fun mask_bytes_loop :: "u8 list \<Rightarrow> bool option" where
  "mask_bytes_loop [] = Some True"
| "mask_bytes_loop (b # bs) =
     (if b = 0xFF then mask_bytes_loop bs
      else do {
        ok \<leftarrow> octet_loop b 1 (0xFF - 1) False;
        Some (if \<not> ok then False else list_all (\<lambda>x. x = 0) bs)
      })"

definition lsdn_ip_mask_is_prefix :: "lsdn_ip_t \<Rightarrow> bool option" where
  "lsdn_ip_mask_is_prefix m = mask_bytes_loop (take (ip_len (ip_v m)) (ip_bytes m))"

definition octet_bits :: "u8 \<Rightarrow> int" where
  "octet_bits b = sum_list (map (\<lambda>j. if b AND push_bit j 1 \<noteq> 0 then 1 else 0) [0..<8])"

definition lsdn_ip_prefix_from_mask :: "lsdn_ip_t \<Rightarrow> int option" where
  "lsdn_ip_prefix_from_mask m = do {
     ok \<leftarrow> lsdn_ip_mask_is_prefix m;
     c_assert ok;
     Some (sum_list (map octet_bits (take (ip_len (ip_v m)) (ip_bytes m))))
   }"

section \<open>Facts about digits\<close>

lemma hexval_hexdig [simp]: "n < 16 \<Longrightarrow> hexval (hexdig n) = Some n"
proof -
  have "\<forall>n\<in>set [0..<16]. hexval (hexdig n) = Some n" by code_simp
  then show "n < 16 \<Longrightarrow> hexval (hexdig n) = Some n" by simp
qed

lemma hexdig_plain:
  assumes "n < 16"
  shows "\<not> isspace (hexdig n)" "hexdig n \<noteq> CHR ''-''" "hexdig n \<noteq> CHR ''+''" "hexdig n \<noteq> CHR '':''"
    "hexdig n \<noteq> CHR ''.''"
proof -
  have "\<forall>n\<in>set [0..<16]. \<not> isspace (hexdig n) \<and> hexdig n \<noteq> CHR ''-'' \<and> hexdig n \<noteq> CHR ''+'' \<and>
      hexdig n \<noteq> CHR '':'' \<and> hexdig n \<noteq> CHR ''.''" by code_simp
  then show "\<not> isspace (hexdig n)" "hexdig n \<noteq> CHR ''-''" "hexdig n \<noteq> CHR ''+''" "hexdig n \<noteq> CHR '':''"
    "hexdig n \<noteq> CHR ''.''" using assms by simp_all
qed

lemma hexval_punct [simp]: "hexval (CHR '':'') = None" "hexval (CHR ''.'') = None"
  by code_simp+

lemma unat_u8_split: "unat (b :: u8) div 16 < 16" "16 * (unat b div 16) + unat b mod 16 = unat b"
  using unat_u8_less [of b] by auto

lemma strtoul16_fmt_02x: "strtoul16 (fmt_02x b) = (int (unat b), [])"
  using unat_u8_split [of b] hexdig_plain [of "unat b div 16"]
  by (simp add: strtoul16_def fmt_02x_def Let_def)

lemma parse_octet_fmt_02x: "parse_octet (fmt_02x b @ rest) = (LSDNE_OK, Some b, rest)"
  using strtoul16_fmt_02x [of b] by (simp add: parse_octet_def fmt_02x_def)

lemma mac_wf_cases:
  assumes "mac_wf mac" obtains a b c d e f where "mac = [a, b, c, d, e, f]"
proof -
  have "length mac = Suc (Suc (Suc (Suc (Suc (Suc 0)))))" using assms by (simp add: mac_wf_def len_defs)
  then show thesis using that by (auto simp: length_Suc_conv)
qed

text \<open>
  C17. A MAC address printed by \<^verbatim>\<open>lsdn_mac_to_string\<close> is read back by
  \<^verbatim>\<open>lsdn_parse_mac\<close> without an error as the same address, whatever the structure held before.
\<close>

theorem lsdn_parse_mac_to_string:
  assumes "mac_wf mac" "mac_wf old"
  shows "lsdn_parse_mac old (lsdn_mac_to_string mac) = (LSDNE_OK, mac)"
proof -
  obtain a b c d e f where mac: "mac = [a, b, c, d, e, f]" using assms(1) by (rule mac_wf_cases)
  obtain a' b' c' d' e' f' where old: "old = [a', b', c', d', e', f']" using assms(2) by (rule mac_wf_cases)
  have last: "parse_octet (fmt_02x b) = (LSDNE_OK, Some b, [])" for b
    using parse_octet_fmt_02x [of b "[]"] by simp
  show ?thesis
    by (simp add: mac old lsdn_parse_mac_def lsdn_mac_to_string_def LSDN_MAC_LEN_def numeral_nat
        parse_octet_fmt_02x last)
qed

theorem lsdn_parse_mac_to_string_witness:
  "lsdn_parse_mac lsdn_all_zeroes_mac (lsdn_mac_to_string [0, 1, 0x2a, 0xff, 0x10, 9]) =
     (LSDNE_OK, [0, 1, 0x2a, 0xff, 0x10, 9])"
  using lsdn_parse_mac_to_string [of "[0, 1, 0x2a, 0xff, 0x10, 9]" lsdn_all_zeroes_mac]
  by (simp add: mac_wf_def len_defs lsdn_all_zeroes_mac_def)

text \<open>
  The early return of \<^verbatim>\<open>parse_octet\<close> at the end of the text is the code of success, so a
  text that is too short is accepted and leaves the structure as it was.
\<close>

lemma lsdn_parse_mac_empty: "lsdn_parse_mac old [] = (LSDNE_OK, old)"
  by (simp add: lsdn_parse_mac_def LSDN_MAC_LEN_def numeral_nat parse_octet_def)

section \<open>Round trips of IP addresses\<close>

lemma fmt_d_digit: "n < 10 \<Longrightarrow> fmt_d n = [hexdig n]"
  by (simp add: fmt_d.simps)

lemma fmt_d_snoc: "n \<noteq> 0 \<Longrightarrow> d < 10 \<Longrightarrow> fmt_d (n * 10 + d) = fmt_d n @ [hexdig d]"
  by (simp add: fmt_d.simps [of "n * 10 + d"])

lemma inet_pton4_fmt_d:
  assumes "b < 256" "length octs < 4"
  shows "inet_pton4_loop octs False (fmt_d b @ rest) = inet_pton4_loop (b # octs) True rest"
proof -
  consider "b < 10" | "10 \<le> b" "b < 100" | "100 \<le> b" by linarith
  then show ?thesis
  proof cases
    case 1
    then show ?thesis using assms by (simp add: fmt_d.simps)
  next
    case 2
    define u v where "u = b div 10" and "v = b mod 10"
    then have b: "b = u * 10 + v" and uv: "u < 10" "v < 10" "u \<noteq> 0" using 2 by auto
    have "fmt_d b = [hexdig u, hexdig v]"
      unfolding b using uv fmt_d_snoc [of u v] fmt_d_digit [of u] by simp
    then show ?thesis using b uv assms by simp
  next
    case 3
    define t u v where "t = b div 10 div 10" and "u = b div 10 mod 10" and "v = b mod 10"
    then have b: "b = (t * 10 + u) * 10 + v" by (simp only: div_mult_mod_eq)
    have tuv: "t < 10" "u < 10" "v < 10" "t \<noteq> 0"
      using 3 assms(1) by (auto simp: t_def u_def v_def)
    have "fmt_d b = [hexdig t, hexdig u, hexdig v]"
      unfolding b using tuv fmt_d_snoc [of "t * 10 + u" v] fmt_d_snoc [of t u] fmt_d_digit [of t]
      by simp
    then show ?thesis using b tuv assms by simp
  qed
qed

lemma inet_pton6_group:
  "inet_pton6_loop tp None 0 0 (fmt_02x x @ fmt_02x y @ rest) =
   inet_pton6_loop tp None 4 (256 * unat x + unat y) rest"
proof -
  have "16 * (16 * (16 * (unat x div 16) + unat x mod 16) + unat y div 16) + unat y mod 16 =
      256 * unat x + unat y"
    using unat_u8_split [of x] unat_u8_split [of y] by simp
  moreover have four: "4 = Suc (Suc (Suc (Suc 0)))" by simp
  ultimately show ?thesis
    unfolding four using unat_u8_split [of x] unat_u8_split [of y] by (simp add: fmt_02x_def add.commute)
qed

lemma unat_u8_divmod [simp]: "unat (y :: u8) div 256 = 0" "unat y mod 256 = unat y"
  using unat_u8_less [of y] by simp_all

lemma u16_bytes: "of_nat ((256 * unat (x :: u8) + unat (y :: u8)) div 256) = x"
  "of_nat ((256 * unat x + unat y) mod 256) = y"
  using unat_u8_less [of y] by simp_all

lemma inet_pton6_groups:
  assumes "gs \<noteq> []" "length tp + 2 * length gs = 16"
  shows "inet_pton6_loop tp None 0 0 (join_colon (map (\<lambda>(x, y). fmt_02x x @ fmt_02x y) gs)) =
    Some (tp @ concat (map (\<lambda>(x, y). [x, y]) gs), None)"
  using assms
proof (induction gs arbitrary: tp)
  case (Cons g gs)
  obtain x y where g: "g = (x, y)" by (cases g)
  show ?case
  proof (cases gs)
    case Nil
    then show ?thesis using Cons.prems inet_pton6_group [of tp x y "[]"] g
      by (simp add: u16_bytes)
  next
    case (Cons h hs)
    have ne: "join_colon (map (\<lambda>(x, y). fmt_02x x @ fmt_02x y) gs) \<noteq> []"
      using Cons by (cases hs) (auto simp: fmt_02x_def split: prod.splits)
    have "join_colon (map (\<lambda>(x, y). fmt_02x x @ fmt_02x y) (g # gs)) =
        fmt_02x x @ fmt_02x y @ '':'' @ join_colon (map (\<lambda>(x, y). fmt_02x x @ fmt_02x y) gs)"
      using Cons g by (cases h) simp
    then show ?thesis
      using Cons.IH [of "tp @ [x, y]"] Cons.prems g ne Cons inet_pton6_group
      by (simp add: u16_bytes)
  qed
qed simp

lemma list16_cases:
  assumes "length b = 16"
  obtains gs :: "('a \<times> 'a) list" where "length gs = 8" "b = concat (map (\<lambda>(x, y). [x, y]) gs)"
    "\<And>i. i < 8 \<Longrightarrow> gs ! i = (b ! (2 * i), b ! (2 * i + 1))"
proof
  let ?gs = "map (\<lambda>i. (b ! (2 * i), b ! (2 * i + 1))) [0..<8]"
  have "b = map (\<lambda>i. b ! i) [0..<16]" using assms map_nth [of b] by simp
  then show "b = concat (map (\<lambda>(x, y). [x, y]) ?gs)" by (simp add: upt_rec eval_nat_numeral)
qed simp_all

lemma ip_to_string_no_dot: "CHR ''.'' \<notin> set (lsdn_ipv6_to_string b)" "CHR '':'' \<in> set (lsdn_ipv6_to_string b)"
proof -
  have "CHR ''.'' \<notin> set (fmt_02x x)" for x
    using hexdig_plain(5) [of "unat x div 16"] hexdig_plain(5) [of "unat x mod 16"] unat_u8_split(1) [of x]
    by (auto simp: fmt_02x_def)
  then show "CHR ''.'' \<notin> set (lsdn_ipv6_to_string b)" "CHR '':'' \<in> set (lsdn_ipv6_to_string b)"
    by (simp_all add: lsdn_ipv6_to_string_def upt_rec)
qed

lemma inet_pton6_to_string:
  assumes "length b = 16" shows "inet_pton6 (lsdn_ipv6_to_string b) = Some b"
proof -
  obtain gs where gs: "length gs = 8" "b = concat (map (\<lambda>(x, y). [x, y]) gs)"
    "\<And>i. i < 8 \<Longrightarrow> gs ! i = (b ! (2 * i), b ! (2 * i + 1))"
    using list16_cases [OF assms] by blast
  have "gs = map (\<lambda>i. (b ! (2 * i), b ! (2 * i + 1))) [0..<8]"
    using gs(1,3) by (intro nth_equalityI) simp_all
  then have str: "lsdn_ipv6_to_string b = join_colon (map (\<lambda>(x, y). fmt_02x x @ fmt_02x y) gs)"
    by (simp add: lsdn_ipv6_to_string_def comp_def)
  have loop: "inet_pton6_loop [] None 0 0 (lsdn_ipv6_to_string b) = Some (b, None)"
    using inet_pton6_groups [of gs "[]"] gs(1) str gs(2) by (cases gs) auto
  have "lsdn_ipv6_to_string b \<noteq> [] \<and> hd (lsdn_ipv6_to_string b) \<noteq> CHR '':''"
    using hexdig_plain(4) unat_u8_split(1) by (simp add: lsdn_ipv6_to_string_def fmt_02x_def upt_rec)
  then show ?thesis using loop assms by (simp add: inet_pton6_def)
qed

text \<open>
  C16. An IP address of either version printed by \<^verbatim>\<open>lsdn_ip_to_string\<close> is read back by
  \<^verbatim>\<open>lsdn_parse_ip\<close> as the same address.
\<close>

theorem lsdn_parse_ip_to_string:
  assumes "ip_wf ip"
  shows "lsdn_parse_ip (lsdn_ip_to_string ip) = Inr ip"
proof (cases ip)
  case (IP4 bs)
  then have "length bs = Suc (Suc (Suc (Suc 0)))" using assms by (simp add: ip_wf_def len_defs)
  then obtain a b c d where bs: "bs = [a, b, c, d]" by (auto simp: length_Suc_conv)
  have "inet_pton4 (lsdn_ipv4_to_string bs) = Some bs"
    using inet_pton4_fmt_d [of "unat d" _ "[]"] unat_u8_less
    by (simp add: bs inet_pton4_def lsdn_ipv4_to_string_def inet_pton4_fmt_d)
  then show ?thesis using IP4
    by (simp add: lsdn_parse_ip_def lsdn_ip_to_string_def lsdn_ipv4_to_string_def bs)
next
  case (IP6 bs)
  then have "inet_pton6 (lsdn_ipv6_to_string bs) = Some bs"
    using assms inet_pton6_to_string by (simp add: ip_wf_def len_defs)
  then show ?thesis using IP6 ip_to_string_no_dot [of bs]
    by (simp add: lsdn_parse_ip_def lsdn_ip_to_string_def)
qed

theorem lsdn_parse_ip_to_string_witness:
  "lsdn_parse_ip (lsdn_ip_to_string (IP4 [10, 0, 200, 1])) = Inr (IP4 [10, 0, 200, 1])"
  using lsdn_parse_ip_to_string [of "IP4 [10, 0, 200, 1]"] by (simp add: ip_wf_def len_defs)

section \<open>Masks and prefixes\<close>

lemma octet_loop_eq:
  "octet_loop b 1 0xFE False = Some (b \<in> {0xFE, 0xFC, 0xF8, 0xF0, 0xE0, 0xC0, 0x80, 0})"
proof -
  have step: "d \<noteq> 0 \<Longrightarrow> octet_loop b d n ok = octet_loop b (d * 2) (n - d * 2) (b = n \<or> ok)" for d n ok
    by (simp add: octet_loop.simps [of b d])
  have stop: "octet_loop b 0 n ok = Some ok" for n ok by (simp add: octet_loop.simps)
  have stop': "octet_loop b 256 n ok = Some ok" for n ok by (simp add: octet_loop.simps)
  show ?thesis by (simp add: step stop stop') blast
qed

text \<open>Byte \<open>k\<close> ones from the top.\<close>

lemma push_bit_u8_FF:
  "push_bit 0 (0xFF :: u8) = 0xFF" "push_bit 1 (0xFF :: u8) = 0xFE" "push_bit 2 (0xFF :: u8) = 0xFC"
  "push_bit 3 (0xFF :: u8) = 0xF8" "push_bit 4 (0xFF :: u8) = 0xF0" "push_bit 5 (0xFF :: u8) = 0xE0"
  "push_bit 6 (0xFF :: u8) = 0xC0" "push_bit 7 (0xFF :: u8) = 0x80"
  by (simp_all add: push_bit_eq_mult)

lemma octet_bits_values:
  "octet_bits 0xFF = 8" "octet_bits 0xFE = 7" "octet_bits 0xFC = 6" "octet_bits 0xF8 = 5"
  "octet_bits 0xF0 = 4" "octet_bits 0xE0 = 3" "octet_bits 0xC0 = 2" "octet_bits 0x80 = 1" "octet_bits 0 = 0"
  by (code_simp)+

lemma int_cases_1_8:
  fixes p :: int assumes "0 < p" "p < 8"
  shows "p = 1 \<or> p = 2 \<or> p = 3 \<or> p = 4 \<or> p = 5 \<or> p = 6 \<or> p = 7"
  using assms by presburger

lemma gen_prefix_nonpos: "p \<le> 0 \<Longrightarrow> gen_prefix bs p = Some bs"
  by (cases bs) simp_all

lemma octet_bits_0s: "list_all (\<lambda>x. x = 0) bs \<Longrightarrow> sum_list (map octet_bits bs) = 0"
  by (induction bs) (simp_all add: octet_bits_values)

lemma gen_prefix_small:
  assumes "0 < p" "p < 8"
  shows "gen_prefix (x # bs) p = Some (push_bit (nat (8 - p)) 0xFF # bs)"
  using assms by (simp add: gen_prefix_nonpos)

lemma gen_prefix_big: "8 \<le> p \<Longrightarrow> gen_prefix (x # bs) p = map_option (\<lambda>r. 0xFF # r) (gen_prefix bs (p - 8))"
  by (cases "p = 8") simp_all

text \<open>The bytes \<open>gen_prefix\<close> writes are accepted as a prefix and have as many bits as asked for.\<close>

lemma gen_prefix_ok:
  assumes "0 \<le> p" "p \<le> 8 * int n"
  shows "\<exists>bs. gen_prefix (replicate n 0) p = Some bs \<and> length bs = n \<and> mask_bytes_loop bs = Some True \<and>
    sum_list (map octet_bits bs) = p"
  using assms
proof (induction n arbitrary: p)
  case (Suc n)
  consider "p = 0" | "0 < p" "p < 8" | "8 \<le> p" using Suc.prems by linarith
  then show ?case
  proof cases
    case 1
    then show ?thesis
      using octet_bits_0s [of "replicate n 0"]
      by (simp add: octet_loop_eq octet_bits_values list_all_iff)
  next
    case 2
    then show ?thesis
      using int_cases_1_8 [OF 2] octet_bits_0s [of "replicate n 0"] gen_prefix_small [OF 2, of 0]
      by (auto simp: octet_loop_eq octet_bits_values push_bit_u8_FF list_all_iff)
  next
    case 3
    then show ?thesis
      using Suc.IH [of "p - 8"] Suc.prems gen_prefix_big [OF 3, of 0] by (auto simp: octet_bits_values)
  qed
qed simp

lemma mask_bytes_gen_prefix:
  assumes "mask_bytes_loop bs = Some True"
  shows "\<exists>p. 0 \<le> p \<and> p \<le> 8 * int (length bs) \<and> gen_prefix (replicate (length bs) 0) p = Some bs"
  using assms
proof (induction bs)
  case (Cons b bs)
  show ?case
  proof (cases "b = 0xFF")
    case True
    then obtain p where "0 \<le> p" "p \<le> 8 * int (length bs)" "gen_prefix (replicate (length bs) 0) p = Some bs"
      using Cons by auto
    then show ?thesis using True gen_prefix_big [of "p + 8" 0] by (intro exI [of _ "p + 8"]) simp
  next
    case False
    then have b: "b \<in> {0xFE, 0xFC, 0xF8, 0xF0, 0xE0, 0xC0, 0x80, 0}" and "list_all (\<lambda>x. x = 0) bs"
      using Cons.prems by (auto simp: octet_loop_eq split: if_splits)
    then have bs: "bs = replicate (length bs) 0" by (simp add: list_all_iff replicate_length_same)
    have pos: "\<exists>p. 0 < p \<and> p < 8 \<and> b = push_bit (nat (8 - p)) 0xFF" if "b \<noteq> 0"
      using b that
      by (elim insertE emptyE; intro exI [of _ "octet_bits b"]; simp add: octet_bits_values push_bit_u8_FF)
    show ?thesis
    proof (cases "b = 0")
      case True
      then show ?thesis using bs by (intro exI [of _ 0]) (simp add: gen_prefix_nonpos)
    next
      case False
      then obtain p where p: "0 < p" "p < 8" "b = push_bit (nat (8 - p)) 0xFF" using pos by blast
      then show ?thesis using bs gen_prefix_small [OF p(1,2), of 0 "replicate (length bs) 0"]
        by (intro exI [of _ p]) simp
    qed
  qed
qed (auto intro: exI [of _ 0])

lemma mask_bytes_total: "mask_bytes_loop bs \<noteq> None"
  by (induction bs) (simp_all add: octet_loop_eq)

lemma prefix_valid_iff: "lsdn_is_prefix_valid v p \<longleftrightarrow> 0 \<le> p \<and> p \<le> 8 * int (ip_len v)"
  by (cases v) (auto simp: lsdn_is_prefix_valid_def len_defs)

lemma mask_from_prefix_Some_iff:
  "lsdn_ip_mask_from_prefix v p = Some m \<longleftrightarrow>
     lsdn_is_prefix_valid v p \<and> ip_v m = v \<and> gen_prefix (replicate (ip_len v) 0) p = Some (ip_bytes m)"
  by (cases m; cases v) (auto simp: lsdn_ip_mask_from_prefix_def c_assert_def)

text \<open>
  C15. For every valid prefix length \<^verbatim>\<open>lsdn_ip_mask_from_prefix\<close> gives a well-formed
  mask of that version, which \<^verbatim>\<open>lsdn_ip_mask_is_prefix\<close> accepts and from which
  \<^verbatim>\<open>lsdn_ip_prefix_from_mask\<close> gets the prefix length back; neither aborts.
\<close>

theorem lsdn_ip_prefix_roundtrip:
  assumes "lsdn_is_prefix_valid v p"
  shows "\<exists>m. lsdn_ip_mask_from_prefix v p = Some m \<and> ip_v m = v \<and> ip_wf m \<and>
    lsdn_ip_mask_is_prefix m = Some True \<and> lsdn_ip_prefix_from_mask m = Some p"
proof -
  obtain bs where bs: "gen_prefix (replicate (ip_len v) 0) p = Some bs" "length bs = ip_len v"
    "mask_bytes_loop bs = Some True" "sum_list (map octet_bits bs) = p"
    using gen_prefix_ok [of p "ip_len v"] assms by (auto simp: prefix_valid_iff)
  obtain m where m: "ip_v m = v" "ip_bytes m = bs"
    by (cases v) (auto intro: that [of "IP4 bs"] that [of "IP6 bs"])
  have "lsdn_ip_mask_from_prefix v p = Some m" using assms bs m by (simp add: mask_from_prefix_Some_iff)
  then show ?thesis
    using bs m by (auto simp: ip_wf_def lsdn_ip_mask_is_prefix_def lsdn_ip_prefix_from_mask_def c_assert_def)
qed

theorem lsdn_ip_prefix_roundtrip_witness:
  "\<exists>m. lsdn_ip_mask_from_prefix LSDN_IPv6 77 = Some m \<and> lsdn_ip_prefix_from_mask m = Some 77"
  using lsdn_ip_prefix_roundtrip [of LSDN_IPv6 77] by (auto simp: lsdn_is_prefix_valid_def)

text \<open>
  C14. \<^verbatim>\<open>lsdn_ip_mask_is_prefix\<close> always ends, and it accepts exactly the masks that
  \<^verbatim>\<open>lsdn_ip_mask_from_prefix\<close> gives for some prefix length: ones followed by zeros.
\<close>

theorem lsdn_ip_mask_is_prefix_iff:
  assumes "ip_wf m"
  shows "lsdn_ip_mask_is_prefix m = Some (\<exists>p. lsdn_ip_mask_from_prefix (ip_v m) p = Some m)"
proof -
  have eq: "lsdn_ip_mask_is_prefix m = mask_bytes_loop (ip_bytes m)"
    using assms by (simp add: lsdn_ip_mask_is_prefix_def ip_wf_def)
  obtain r where r: "mask_bytes_loop (ip_bytes m) = Some r"
    using mask_bytes_total [of "ip_bytes m"] by auto
  have "r = (\<exists>p. lsdn_ip_mask_from_prefix (ip_v m) p = Some m)"
  proof
    assume r
    then show "\<exists>p. lsdn_ip_mask_from_prefix (ip_v m) p = Some m"
      using mask_bytes_gen_prefix [of "ip_bytes m"] r assms
      by (auto simp: ip_wf_def mask_from_prefix_Some_iff prefix_valid_iff)
  next
    assume "\<exists>p. lsdn_ip_mask_from_prefix (ip_v m) p = Some m"
    then show r
      using gen_prefix_ok [of _ "ip_len (ip_v m)"] r
      by (fastforce simp: mask_from_prefix_Some_iff prefix_valid_iff)
  qed
  then show ?thesis using eq r by simp
qed

theorem lsdn_ip_mask_is_prefix_iff_witness:
  "lsdn_ip_mask_is_prefix (IP4 [255, 0, 255, 0]) = Some (\<exists>p. lsdn_ip_mask_from_prefix LSDN_IPv4 p = Some (IP4 [255, 0, 255, 0]))"
  using lsdn_ip_mask_is_prefix_iff [of "IP4 [255, 0, 255, 0]"] by (simp add: ip_wf_def len_defs)

end
