(* ===== verification/Netlink.thy ===== *)
theory Netlink
  imports Nettypes
begin

text \<open>
  The netlink layer, \<^verbatim>\<open>netmodel/nl.c\<close> and \<^verbatim>\<open>netmodel/private/nl.h\<close>:
  interface handles and the requests that create links, qdiscs, filters, actions and forwarding entries.
  A request is a value of the type \<open>nlmsg\<close>, with the header of its family and the tree of its
  attributes as the libmnl calls put them; the byte layout of the buffer is libmnl's and is not modelled.

  The kernel is a parameter: \<open>nl_kernel\<close> gives the reply to a request after a history of
  requests and replies, and \<open>nl_ifindex\<close> what \<^verbatim>\<open>if_nametoindex\<close> finds after
  it. Nothing is assumed of them here.
\<close>

section \<open>Messages\<close>

datatype nl_flag = NLM_F_REQUEST | NLM_F_ACK | NLM_F_CREATE | NLM_F_EXCL | NLM_F_APPEND | NLM_F_REPLACE

datatype nl_type =
    RTM_NEWLINK | RTM_DELLINK | RTM_GETLINK | RTM_NEWNEIGH | RTM_DELNEIGH | RTM_NEWADDR
  | RTM_NEWQDISC | RTM_DELQDISC | RTM_NEWTFILTER | RTM_DELTFILTER

datatype nl_family = AF_UNSPEC | AF_PACKET | AF_INET | AF_INET6 | PF_BRIDGE

record tcmsg =
  tcm_ifindex :: u32
  tcm_handle :: u32
  tcm_parent :: u32
  tcm_info :: u32

text \<open>The header behind the netlink header; fields the code does not set are zero.\<close>

datatype nl_header =
    Ifinfomsg nl_family u32 u32 u32 \<comment> \<open>family, change, flags, index\<close>
  | Ndmsg u32 \<comment> \<open>index; bridge family, no-ARP and permanent, self\<close>
  | Ifaddrmsg nl_family u8 u32 \<comment> \<open>family, prefix length, index\<close>
  | Tcmsg tcmsg

text \<open>
  The attribute types, by the family they belong to; a flower key and its mask are given by the
  field of the packet they are about, so \<open>FLOWER_KEY KEY_ETH_SRC\<close> and \<open>FLOWER_MASK KEY_ETH_SRC\<close>
  are \<^verbatim>\<open>TCA_FLOWER_KEY_ETH_SRC\<close> and \<^verbatim>\<open>TCA_FLOWER_KEY_ETH_SRC_MASK\<close>.
\<close>

datatype link_nla =
    IFLA_IFNAME | IFLA_LINK | IFLA_MASTER | IFLA_MTU | IFLA_LINKINFO | IFLA_INFO_KIND | IFLA_INFO_DATA
  | IFLA_VLAN_ID | IFLA_VXLAN_LINK | IFLA_VXLAN_ID | IFLA_VXLAN_PORT | IFLA_VXLAN_LEARNING
  | IFLA_VXLAN_COLLECT_METADATA | IFLA_VXLAN_GROUP | IFLA_VXLAN_GROUP6
  | IFLA_GENEVE_PORT | IFLA_GENEVE_COLLECT_METADATA | VETH_INFO_PEER | NDA_LLADDR | NDA_DST | IFA_LOCAL

datatype tc_nla =
    TCA_KIND | TCA_CHAIN | TCA_OPTIONS | TCA_FLOWER_ACT | TCA_FW_ACT
  | TCA_ACT_KIND | TCA_ACT_OPTIONS | TCA_ACT_ORDER u16
  | TCA_MIRRED_PARMS | TCA_TUNNEL_KEY_PARMS | TCA_TUNNEL_KEY_ENC_KEY_ID
  | TCA_TUNNEL_KEY_ENC_IPV4_SRC | TCA_TUNNEL_KEY_ENC_IPV4_DST
  | TCA_TUNNEL_KEY_ENC_IPV6_SRC | TCA_TUNNEL_KEY_ENC_IPV6_DST
  | TCA_POLICE_TBF | TCA_POLICE_RESULT | TCA_POLICE_RATE | TCA_POLICE_PEAKRATE
  | TCA_GACT_PARMS | TCA_SKBEDIT_PARMS | TCA_SKBEDIT_MARK

datatype flower_field =
    KEY_ETH_SRC | KEY_ETH_DST | KEY_IPV4_SRC | KEY_IPV4_DST | KEY_IPV6_SRC | KEY_IPV6_DST | KEY_ENC_KEY_ID
  | KEY_ENC_IPV4_SRC | KEY_ENC_IPV4_DST | KEY_ENC_IPV6_SRC | KEY_ENC_IPV6_DST | KEY_ETH_TYPE

datatype nla_type = LINK link_nla | TC tc_nla | FLOWER_KEY flower_field | FLOWER_MASK flower_field

datatype tc_act = TC_ACT_UNSPEC | TC_ACT_OK | TC_ACT_SHOT | TC_ACT_PIPE | TC_ACT_STOLEN | TC_ACT_GOTO_CHAIN u32

datatype tc_eaction = TCA_INGRESS_REDIR | TCA_EGRESS_REDIR

text \<open>The C structures sent as attribute payloads.\<close>

record tc_ratespec =
  rate :: u32
  cell_log :: nat

record tc_police =
  p_rate :: tc_ratespec
  p_peakrate :: tc_ratespec
  p_burst :: u32
  p_mtu :: u32
  p_action :: tc_act

datatype nl_struct =
    Tc_prio_qopt nat
  | Tc_mirred tc_act tc_eaction u32
  | Tc_tunnel_key tc_act
  | Tc_police tc_police
  | Tc_gact tc_act
  | Tc_skbedit u16 tc_act
  | Tc_rtab

datatype nlattr =
    A_u8 nla_type u8
  | A_u16 nla_type u16
  | A_u32 nla_type u32
  | A_bytes nla_type "u8 list"
  | A_str nla_type string
  | A_struct nla_type nl_struct
  | A_nest nla_type "nlattr list"

record nlmsg =
  nm_type :: nl_type
  nm_flags :: "nl_flag set"
  nm_hdr :: nl_header
  nm_attrs :: "nlattr list"

text \<open>
  What comes back: the send or the receive fails, an \<^verbatim>\<open>NLMSG_ERROR\<close> message with its code (zero is
  an acknowledgement), or a description of a link.
\<close>

datatype nl_reply = NL_send_failed | NL_recv_failed | NL_error int | NL_link u32 "nlattr list"

type_synonym nl_history = "(nlmsg \<times> nl_reply) list"

record nlenv =
  nl_kernel :: "nl_history \<Rightarrow> nlmsg \<Rightarrow> nl_reply"
  nl_ifindex :: "nl_history \<Rightarrow> string \<Rightarrow> u32"
  nl_xmittime :: "u32 \<Rightarrow> u32 \<Rightarrow> u32"
  nl_log :: nl_history
  nl_oom :: oom

definition htons :: "u16 \<Rightarrow> u16" where
  "htons x = push_bit 8 x OR drop_bit 8 x"

definition htonl :: "u32 \<Rightarrow> u32" where
  "htonl x = push_bit 24 x OR push_bit 8 (x AND 0xFF00) OR (drop_bit 8 x AND 0xFF00) OR drop_bit 24 x"

definition LSDN_INGRESS_HANDLE :: u32 where "LSDN_INGRESS_HANDLE = 0xffff0000"
definition LSDN_ROOT_HANDLE :: u32 where "LSDN_ROOT_HANDLE = 0x00010000"
definition LSDN_DEFAULT_PRIORITY :: u16 where "LSDN_DEFAULT_PRIORITY = 10"
definition LSDN_DEFAULT_CHAIN :: u32 where "LSDN_DEFAULT_CHAIN = 0"
definition TC_H_INGRESS :: u32 where "TC_H_INGRESS = 0xFFFFFFF1"
definition TC_H_ROOT :: u32 where "TC_H_ROOT = 0xFFFFFFFF"
definition IFF_UP :: u32 where "IFF_UP = 1"

text \<open>\<^verbatim>\<open>TC_H_MAKE(prio << 16, ETH_P_ALL << 8)\<close>\<close>

definition tc_info :: "u16 \<Rightarrow> u32" where
  "tc_info prio = push_bit 16 (ucast prio) OR 0x0300"

section \<open>Memory and requests\<close>

definition nl_malloc :: "nlenv \<Rightarrow> bool \<times> nlenv" where
  "nl_malloc nl = (case malloc (nl_oom nl) of (ok, m) \<Rightarrow> (ok, nl\<lparr>nl_oom := m\<rparr>))"

definition process_response :: "nl_reply \<Rightarrow> lsdn_err_t" where
  "process_response r =
     (case r of
        NL_error e \<Rightarrow> if e \<noteq> 0 then LSDNE_NETLINK else LSDNE_OK
      | _ \<Rightarrow> LSDNE_NETLINK)"

definition nl_transact :: "nlmsg \<Rightarrow> nlenv \<Rightarrow> nl_reply \<times> nlenv" where
  "nl_transact m nl =
     (let r = nl_kernel nl (nl_log nl) m in (r, nl\<lparr>nl_log := (m, r) # nl_log nl\<rparr>))"

text \<open>The flag \<^verbatim>\<open>ignore_err\<close> of the C function only decides whether a refusal is logged.\<close>

definition send_await_response :: "nlmsg \<Rightarrow> nlenv \<Rightarrow> lsdn_err_t \<times> nlenv" where
  "send_await_response m nl =
     (case nl_transact m nl of (r, nl) \<Rightarrow>
        (if r = NL_send_failed then LSDNE_NETLINK
         else if r = NL_recv_failed then LSDNE_NETLINK
         else process_response r, nl))"

definition if_nametoindex :: "string \<Rightarrow> nlenv \<Rightarrow> u32" where
  "if_nametoindex name nl = nl_ifindex nl (nl_log nl) name"

section \<open>Interface handles\<close>

record lsdn_if =
  ifindex :: u32
  ifname :: "string option"

definition lsdn_if_init :: lsdn_if where
  "lsdn_if_init = \<lparr>ifindex = 0, ifname = None\<rparr>"

definition lsdn_if_is_set :: "lsdn_if \<Rightarrow> bool" where
  "lsdn_if_is_set i \<longleftrightarrow> ifname i \<noteq> None"

definition lsdn_if_copy :: "lsdn_if \<Rightarrow> lsdn_if \<Rightarrow> nlenv \<Rightarrow> lsdn_err_t \<times> lsdn_if \<times> nlenv" where
  "lsdn_if_copy dst src nl =
     (case ifname src of
        None \<Rightarrow> (LSDNE_OK, \<lparr>ifindex = ifindex src, ifname = None\<rparr>, nl)
      | Some n \<Rightarrow>
          (case nl_malloc nl of
             (False, nl) \<Rightarrow> (LSDNE_NOMEM, dst, nl)
           | (True, nl) \<Rightarrow> (LSDNE_OK, \<lparr>ifindex = ifindex src, ifname = Some n\<rparr>, nl)))"

definition lsdn_if_swap :: "lsdn_if \<Rightarrow> lsdn_if \<Rightarrow> lsdn_if \<times> lsdn_if" where
  "lsdn_if_swap a b = (b, a)"

definition lsdn_if_reset :: "lsdn_if \<Rightarrow> lsdn_if" where
  "lsdn_if_reset i = lsdn_if_init"

definition lsdn_if_set_name :: "lsdn_if \<Rightarrow> string \<Rightarrow> nlenv \<Rightarrow> lsdn_err_t \<times> lsdn_if \<times> nlenv" where
  "lsdn_if_set_name i name nl =
     (case nl_malloc nl of
        (False, nl) \<Rightarrow> (LSDNE_NOMEM, i, nl)
      | (True, nl) \<Rightarrow> (LSDNE_OK, \<lparr>ifindex = 0, ifname = Some name\<rparr>, nl))"

text \<open>Resolving a handle without a name passes a null pointer to the C library.\<close>

definition lsdn_if_resolve :: "lsdn_if \<Rightarrow> nlenv \<Rightarrow> (lsdn_err_t \<times> lsdn_if) option" where
  "lsdn_if_resolve i nl =
     (if ifindex i \<noteq> 0 then Some (LSDNE_OK, i)
      else do {
        name \<leftarrow> ifname i;
        let idx = if_nametoindex name nl;
        Some (if idx = 0 then (LSDNE_NOIF, i) else (LSDNE_OK, i\<lparr>ifindex := idx\<rparr>))
      })"

section \<open>Links\<close>

definition lsdn_link_delete :: "lsdn_if \<Rightarrow> nlenv \<Rightarrow> lsdn_err_t \<times> nlenv" where
  "lsdn_link_delete iface nl = send_await_response
     \<lparr>nm_type = RTM_DELLINK, nm_flags = {NLM_F_REQUEST, NLM_F_ACK},
      nm_hdr = Ifinfomsg AF_UNSPEC 0 0 (ifindex iface), nm_attrs = []\<rparr> nl"

definition cleanup_link :: "string \<Rightarrow> bool \<Rightarrow> nlenv \<Rightarrow> (lsdn_err_t \<times> nlenv) option" where
  "cleanup_link linkname overwrite nl =
     (if overwrite then do {
        (err, oldif) \<leftarrow> lsdn_if_resolve \<lparr>ifindex = 0, ifname = Some linkname\<rparr> nl;
        Some (if err = LSDNE_NOIF then (LSDNE_OK, nl)
              else if err \<noteq> LSDNE_OK then (err, nl)
              else lsdn_link_delete oldif nl)
      }
      else Some (LSDNE_OK, nl))"

definition create_link_msg :: "nlattr list \<Rightarrow> nlmsg" where
  "create_link_msg attrs =
     \<lparr>nm_type = RTM_NEWLINK, nm_flags = {NLM_F_CREATE, NLM_F_REQUEST, NLM_F_ACK, NLM_F_EXCL},
      nm_hdr = Ifinfomsg AF_UNSPEC 0 0 0, nm_attrs = attrs\<rparr>"

text \<open>
  \<open>link_create_header\<close> with the rest of the link information in \<open>info\<close>.
\<close>

definition link_create_header :: "string \<Rightarrow> string \<Rightarrow> nlattr list \<Rightarrow> nlmsg" where
  "link_create_header if_name if_type info = create_link_msg
     [A_str (LINK IFLA_IFNAME) if_name, A_nest (LINK IFLA_LINKINFO) (A_str (LINK IFLA_INFO_KIND) if_type # info)]"

definition link_create_send ::
    "nlmsg \<Rightarrow> string \<Rightarrow> lsdn_if \<Rightarrow> nlenv \<Rightarrow> (lsdn_err_t \<times> lsdn_if \<times> nlenv) option" where
  "link_create_send nlh if_name dst_if nl =
     (case send_await_response nlh nl of (err, nl) \<Rightarrow>
      if err \<noteq> LSDNE_OK then Some (err, dst_if, nl)
      else (case lsdn_if_set_name lsdn_if_init if_name nl of (err, dst_if, nl) \<Rightarrow>
        if err \<noteq> LSDNE_OK then Some (err, dst_if, nl)
        else do {
          (err, dst_if) \<leftarrow> lsdn_if_resolve dst_if nl;
          Some (err, dst_if, nl)
        }))"

text \<open>The common part of the link constructors: remove an old link of the name, then send.\<close>

definition link_create ::
    "nlmsg \<Rightarrow> string \<Rightarrow> bool \<Rightarrow> lsdn_if \<Rightarrow> nlenv \<Rightarrow> (lsdn_err_t \<times> lsdn_if \<times> nlenv) option" where
  "link_create nlh if_name overwrite dst_if nl = do {
     (err, nl) \<leftarrow> cleanup_link if_name overwrite nl;
     if err \<noteq> LSDNE_OK then Some (err, dst_if, nl) else link_create_send nlh if_name dst_if nl
   }"

definition lsdn_link_dummy_create where
  "lsdn_link_dummy_create dst_if if_name overwrite nl =
     link_create (link_create_header if_name ''dummy'' []) if_name overwrite dst_if nl"

definition lsdn_link_bridge_create where
  "lsdn_link_bridge_create dst_if if_name overwrite nl =
     link_create (link_create_header if_name ''bridge'' []) if_name overwrite dst_if nl"

definition lsdn_link_vlan_create ::
    "lsdn_if \<Rightarrow> string \<Rightarrow> string \<Rightarrow> u16 \<Rightarrow> bool \<Rightarrow> nlenv \<Rightarrow> (lsdn_err_t \<times> lsdn_if \<times> nlenv) option" where
  "lsdn_link_vlan_create dst_if if_name vlan_name vlanid overwrite nl =
     link_create (create_link_msg
       [A_u32 (LINK IFLA_LINK) (if_nametoindex if_name nl), A_str (LINK IFLA_IFNAME) vlan_name,
        A_nest (LINK IFLA_LINKINFO) [A_str (LINK IFLA_INFO_KIND) ''vlan'', A_nest (LINK IFLA_INFO_DATA) [A_u16 (LINK IFLA_VLAN_ID) vlanid]]])
       vlan_name overwrite dst_if nl"

definition dummy_ipv6_mcast :: "u8 list" where
  "dummy_ipv6_mcast = replicate 16 0"

definition lsdn_link_vxlan_create ::
    "lsdn_if \<Rightarrow> string option \<Rightarrow> string \<Rightarrow> lsdn_ip_t option \<Rightarrow> u32 \<Rightarrow> u16 \<Rightarrow> bool \<Rightarrow> bool \<Rightarrow> lsdn_ipv \<Rightarrow> bool \<Rightarrow> nlenv
      \<Rightarrow> (lsdn_err_t \<times> lsdn_if \<times> nlenv) option" where
  "lsdn_link_vxlan_create dst_if if_name vxlan_name mcast_group vxlanid port learning collect_metadata ipv overwrite nl =
     (let idx = (case if_name of None \<Rightarrow> 0 | Some n \<Rightarrow> if_nametoindex n nl) in
      link_create (create_link_msg
        ((if if_name \<noteq> None then [A_u32 (LINK IFLA_LINK) idx] else []) @
         [A_str (LINK IFLA_IFNAME) vxlan_name,
          A_nest (LINK IFLA_LINKINFO)
            [A_str (LINK IFLA_INFO_KIND) ''vxlan'',
             A_nest (LINK IFLA_INFO_DATA)
               ([A_u32 (LINK IFLA_VXLAN_LINK) idx, A_u32 (LINK IFLA_VXLAN_ID) vxlanid, A_u16 (LINK IFLA_VXLAN_PORT) (htons port),
                 A_u8 (LINK IFLA_VXLAN_LEARNING) (of_bool learning),
                 A_u8 (LINK IFLA_VXLAN_COLLECT_METADATA) (of_bool collect_metadata)] @
                (case mcast_group of
                   Some (IP4 b) \<Rightarrow> [A_u32 (LINK IFLA_VXLAN_GROUP) (htonl (lsdn_ip4_u32 b))]
                 | Some (IP6 b) \<Rightarrow> [A_bytes (LINK IFLA_VXLAN_GROUP6) b]
                 | None \<Rightarrow> if ipv = LSDN_IPv6 then [A_bytes (LINK IFLA_VXLAN_GROUP6) dummy_ipv6_mcast] else []))]]))
        vxlan_name overwrite dst_if nl)"

definition lsdn_link_geneve_create ::
    "lsdn_if \<Rightarrow> string \<Rightarrow> u16 \<Rightarrow> bool \<Rightarrow> bool \<Rightarrow> nlenv \<Rightarrow> (lsdn_err_t \<times> lsdn_if \<times> nlenv) option" where
  "lsdn_link_geneve_create dst_if new_if port collect_metadata overwrite nl =
     link_create (create_link_msg
       [A_str (LINK IFLA_IFNAME) new_if,
        A_nest (LINK IFLA_LINKINFO)
          [A_str (LINK IFLA_INFO_KIND) ''geneve'',
           A_nest (LINK IFLA_INFO_DATA)
             ((if port \<noteq> 0 then [A_u16 (LINK IFLA_GENEVE_PORT) (htons port)] else []) @
              (if collect_metadata then [A_bytes (LINK IFLA_GENEVE_COLLECT_METADATA) []] else []))]])
       new_if overwrite dst_if nl"

definition lsdn_link_veth_create ::
    "lsdn_if \<Rightarrow> string \<Rightarrow> lsdn_if \<Rightarrow> string \<Rightarrow> nlenv \<Rightarrow> (lsdn_err_t \<times> lsdn_if \<times> lsdn_if \<times> nlenv) option" where
  "lsdn_link_veth_create if1 if_name1 if2 if_name2 nl = do {
     (err, if1, nl) \<leftarrow> link_create_send
       (link_create_header if_name1 ''veth''
         [A_nest (LINK IFLA_INFO_DATA) [A_nest (LINK VETH_INFO_PEER)
           [A_str (LINK IFLA_IFNAME) if_name2, A_nest (LINK IFLA_LINKINFO) [A_str (LINK IFLA_INFO_KIND) ''veth'']]]])
       if_name1 if1 nl;
     if err \<noteq> LSDNE_OK then Some (err, if1, if2, nl)
     else (case lsdn_if_set_name if2 if_name2 nl of (err, if2, nl) \<Rightarrow>
       if err \<noteq> LSDNE_OK then Some (err, if1, if2, nl)
       else do {
         (err, if2) \<leftarrow> lsdn_if_resolve if2 nl;
         Some (err, if1, if2, nl)
       })
   }"

definition lsdn_link_set_master :: "u32 \<Rightarrow> u32 \<Rightarrow> nlenv \<Rightarrow> lsdn_err_t \<times> nlenv" where
  "lsdn_link_set_master master slave nl = send_await_response
     \<lparr>nm_type = RTM_NEWLINK, nm_flags = {NLM_F_REQUEST, NLM_F_ACK},
      nm_hdr = Ifinfomsg AF_UNSPEC 0 0 slave, nm_attrs = [A_u32 (LINK IFLA_MASTER) master]\<rparr> nl"

definition lsdn_link_set :: "u32 \<Rightarrow> bool \<Rightarrow> nlenv \<Rightarrow> lsdn_err_t \<times> nlenv" where
  "lsdn_link_set idx up nl = send_await_response
     \<lparr>nm_type = RTM_NEWLINK, nm_flags = {NLM_F_REQUEST, NLM_F_ACK},
      nm_hdr = Ifinfomsg AF_UNSPEC IFF_UP (if up then IFF_UP else 0) idx, nm_attrs = []\<rparr> nl"

definition lsdn_link_set_ip :: "string \<Rightarrow> lsdn_ip_t \<Rightarrow> nlenv \<Rightarrow> lsdn_err_t \<times> nlenv" where
  "lsdn_link_set_ip iface ip nl = send_await_response
     \<lparr>nm_type = RTM_NEWADDR, nm_flags = {NLM_F_REPLACE, NLM_F_REQUEST, NLM_F_ACK},
      nm_hdr = Ifaddrmsg (if ip_v ip = LSDN_IPv4 then AF_INET else AF_INET6) 24 (if_nametoindex iface nl),
      nm_attrs = [A_bytes (LINK IFA_LOCAL) (ip_bytes ip)]\<rparr> nl"

text \<open>
  The reply is read as the description of a link: it must be one for the interface asked for, or
  the assertion fails.
\<close>

fun find_mtu :: "nlattr list \<Rightarrow> lsdn_err_t \<times> u32 option" where
  "find_mtu [] = (LSDNE_NOIF, None)"
| "find_mtu (A_u32 (LINK IFLA_MTU) v # as) = (LSDNE_OK, Some v)"
| "find_mtu (a # as) = find_mtu as"

definition lsdn_link_get_mtu :: "u32 \<Rightarrow> nlenv \<Rightarrow> (lsdn_err_t \<times> u32 option \<times> nlenv) option" where
  "lsdn_link_get_mtu idx nl =
     (case nl_transact
        \<lparr>nm_type = RTM_GETLINK, nm_flags = {NLM_F_REQUEST},
         nm_hdr = Ifinfomsg AF_PACKET 0 0 idx, nm_attrs = []\<rparr> nl of (r, nl) \<Rightarrow>
      (case r of
         NL_send_failed \<Rightarrow> Some (LSDNE_NETLINK, None, nl)
       | NL_recv_failed \<Rightarrow> Some (LSDNE_NETLINK, None, nl)
       | NL_error e \<Rightarrow> None
       | NL_link i attrs \<Rightarrow> do {
           c_assert (i = idx);
           (case find_mtu attrs of (err, mtu) \<Rightarrow> Some (err, mtu, nl))
         }))"

section \<open>Forwarding entries\<close>

definition fdb_set_keys :: "lsdn_mac_t \<Rightarrow> lsdn_ip_t \<Rightarrow> nlattr list" where
  "fdb_set_keys mac ip = [A_bytes (LINK NDA_LLADDR) mac, A_bytes (LINK NDA_DST) (ip_bytes ip)]"

definition lsdn_fdb_add_entry :: "u32 \<Rightarrow> lsdn_mac_t \<Rightarrow> lsdn_ip_t \<Rightarrow> nlenv \<Rightarrow> lsdn_err_t \<times> nlenv" where
  "lsdn_fdb_add_entry idx mac ip nl = send_await_response
     \<lparr>nm_type = RTM_NEWNEIGH, nm_flags = {NLM_F_REQUEST, NLM_F_CREATE, NLM_F_APPEND, NLM_F_ACK},
      nm_hdr = Ndmsg idx, nm_attrs = fdb_set_keys mac ip\<rparr> nl"

definition lsdn_fdb_remove_entry :: "u32 \<Rightarrow> lsdn_mac_t \<Rightarrow> lsdn_ip_t \<Rightarrow> nlenv \<Rightarrow> lsdn_err_t \<times> nlenv" where
  "lsdn_fdb_remove_entry idx mac ip nl = send_await_response
     \<lparr>nm_type = RTM_DELNEIGH, nm_flags = {NLM_F_REQUEST, NLM_F_ACK},
      nm_hdr = Ndmsg idx, nm_attrs = fdb_set_keys mac ip\<rparr> nl"

section \<open>Qdiscs\<close>

definition lsdn_qdisc_egress_delete :: "u32 \<Rightarrow> nlenv \<Rightarrow> lsdn_err_t \<times> nlenv" where
  "lsdn_qdisc_egress_delete idx nl = (LSDNE_OK, snd (send_await_response
     \<lparr>nm_type = RTM_DELQDISC, nm_flags = {NLM_F_REQUEST, NLM_F_ACK},
      nm_hdr = Tcmsg \<lparr>tcm_ifindex = idx, tcm_handle = LSDN_ROOT_HANDLE, tcm_parent = TC_H_ROOT, tcm_info = 0\<rparr>,
      nm_attrs = []\<rparr> nl))"

definition lsdn_qdisc_ingress_delete :: "u32 \<Rightarrow> nlenv \<Rightarrow> lsdn_err_t \<times> nlenv" where
  "lsdn_qdisc_ingress_delete idx nl = (LSDNE_OK, snd (send_await_response
     \<lparr>nm_type = RTM_DELQDISC, nm_flags = {NLM_F_REQUEST, NLM_F_ACK},
      nm_hdr = Tcmsg \<lparr>tcm_ifindex = idx, tcm_handle = LSDN_INGRESS_HANDLE, tcm_parent = TC_H_INGRESS, tcm_info = 0\<rparr>,
      nm_attrs = []\<rparr> nl))"

definition lsdn_qdisc_ingress_create :: "u32 \<Rightarrow> bool \<Rightarrow> nlenv \<Rightarrow> lsdn_err_t \<times> nlenv" where
  "lsdn_qdisc_ingress_create idx overwrite nl =
     (case (if overwrite then lsdn_qdisc_ingress_delete idx nl else (LSDNE_OK, nl)) of (err, nl) \<Rightarrow>
      if err \<noteq> LSDNE_OK then (err, nl)
      else send_await_response
        \<lparr>nm_type = RTM_NEWQDISC, nm_flags = {NLM_F_CREATE, NLM_F_REQUEST, NLM_F_ACK},
         nm_hdr = Tcmsg \<lparr>tcm_ifindex = idx, tcm_handle = LSDN_INGRESS_HANDLE, tcm_parent = TC_H_INGRESS, tcm_info = 0\<rparr>,
         nm_attrs = [A_str (TC TCA_KIND) ''ingress'']\<rparr> nl)"

definition lsdn_qdisc_egress_create :: "u32 \<Rightarrow> bool \<Rightarrow> nlenv \<Rightarrow> lsdn_err_t \<times> nlenv" where
  "lsdn_qdisc_egress_create idx overwrite nl =
     (case (if overwrite then lsdn_qdisc_egress_delete idx nl else (LSDNE_OK, nl)) of (err, nl) \<Rightarrow>
      if err \<noteq> LSDNE_OK then (err, nl)
      else send_await_response
        \<lparr>nm_type = RTM_NEWQDISC, nm_flags = {NLM_F_CREATE, NLM_F_REQUEST, NLM_F_ACK},
         nm_hdr = Tcmsg \<lparr>tcm_ifindex = idx, tcm_handle = LSDN_ROOT_HANDLE, tcm_parent = TC_H_ROOT, tcm_info = 0\<rparr>,
         nm_attrs = [A_str (TC TCA_KIND) ''prio'', A_struct (TC TCA_OPTIONS) (Tc_prio_qopt 2)]\<rparr> nl)"

end
