(* ===== verification/Filters.thy ===== *)
theory Filters
  imports Netlink
begin

text \<open>
  Traffic-control filters and their actions, the second half of \<^verbatim>\<open>netmodel/nl.c\<close>, and what a
  sequence of filter requests leaves in the kernel's table of filters.
\<close>

section \<open>A filter under construction\<close>

text \<open>
  The buffer of a \<^verbatim>\<open>struct lsdn_filter\<close>: the header, the attributes in front of the options, the
  options so far, and the nested list of actions while it is open. An attribute goes
  into the innermost open nest.
\<close>

record lsdn_filter =
  f_update :: bool
  f_tcm :: tcmsg
  f_head :: "nlattr list"
  f_opts :: "nlattr list"
  f_acts :: "(tc_nla \<times> nlattr list) option"

definition attr_put :: "nlattr \<Rightarrow> lsdn_filter \<Rightarrow> lsdn_filter" where
  "attr_put a f =
     (case f_acts f of
        None \<Rightarrow> f\<lparr>f_opts := f_opts f @ [a]\<rparr>
      | Some (t, as) \<Rightarrow> f\<lparr>f_acts := Some (t, as @ [a])\<rparr>)"

definition filter_init ::
    "string \<Rightarrow> u32 \<Rightarrow> u32 \<Rightarrow> u32 \<Rightarrow> u32 \<Rightarrow> u16 \<Rightarrow> nlenv \<Rightarrow> lsdn_filter option \<times> nlenv" where
  "filter_init kind if_index handle parent chain priority nl =
     (case nl_malloc nl of
        (False, nl) \<Rightarrow> (None, nl)
      | (True, nl) \<Rightarrow>
          (case nl_malloc nl of
             (False, nl) \<Rightarrow> (None, nl)
           | (True, nl) \<Rightarrow>
               (Some \<lparr>f_update = False,
                      f_tcm = \<lparr>tcm_ifindex = if_index, tcm_handle = handle, tcm_parent = parent,
                               tcm_info = tc_info priority\<rparr>,
                      f_head = [A_str (TC TCA_KIND) kind, A_u32 (TC TCA_CHAIN) chain],
                      f_opts = [], f_acts = None\<rparr>, nl)))"

definition lsdn_filter_flower_init where
  "lsdn_filter_flower_init if_index handle parent chain prio nl =
     filter_init ''flower'' if_index handle parent chain prio nl"

definition lsdn_filter_fw_init where
  "lsdn_filter_fw_init if_index handle parent chain prio nl =
     filter_init ''fw'' if_index handle parent chain prio nl"

definition lsdn_filter_set_update :: "lsdn_filter \<Rightarrow> lsdn_filter" where
  "lsdn_filter_set_update f = f\<lparr>f_update := True\<rparr>"

definition filter_actions_start :: "tc_nla \<Rightarrow> lsdn_filter \<Rightarrow> lsdn_filter" where
  "filter_actions_start t f = f\<lparr>f_acts := Some (t, [])\<rparr>"

definition filter_actions_end :: "lsdn_filter \<Rightarrow> lsdn_filter" where
  "filter_actions_end f =
     (case f_acts f of
        None \<Rightarrow> f
      | Some (t, as) \<Rightarrow> f\<lparr>f_opts := f_opts f @ [A_nest (TC t) as], f_acts := None\<rparr>)"

definition lsdn_flower_actions_start :: "lsdn_filter \<Rightarrow> lsdn_filter" where
  "lsdn_flower_actions_start f = filter_actions_start TCA_FLOWER_ACT f"

definition lsdn_fw_actions_start :: "lsdn_filter \<Rightarrow> lsdn_filter" where
  "lsdn_fw_actions_start f = filter_actions_start TCA_FW_ACT f"

definition lsdn_flower_actions_end :: "lsdn_filter \<Rightarrow> lsdn_filter" where
  "lsdn_flower_actions_end f = filter_actions_end f"

definition lsdn_fw_actions_end :: "lsdn_filter \<Rightarrow> lsdn_filter" where
  "lsdn_fw_actions_end f = filter_actions_end f"

section \<open>Actions\<close>

definition action_put :: "u16 \<Rightarrow> string \<Rightarrow> nlattr list \<Rightarrow> lsdn_filter \<Rightarrow> lsdn_filter" where
  "action_put order kind opts f =
     attr_put (A_nest (TC (TCA_ACT_ORDER order)) [A_str (TC TCA_ACT_KIND) kind, A_nest (TC TCA_ACT_OPTIONS) opts]) f"

definition action_mirred_add :: "u16 \<Rightarrow> tc_act \<Rightarrow> tc_eaction \<Rightarrow> u32 \<Rightarrow> lsdn_filter \<Rightarrow> lsdn_filter" where
  "action_mirred_add order action eaction idx f =
     action_put order ''mirred'' [A_struct (TC TCA_MIRRED_PARMS) (Tc_mirred action eaction idx)] f"

definition lsdn_action_redir_ingress_add :: "u16 \<Rightarrow> u32 \<Rightarrow> lsdn_filter \<Rightarrow> lsdn_filter" where
  "lsdn_action_redir_ingress_add order idx f = action_mirred_add order TC_ACT_STOLEN TCA_INGRESS_REDIR idx f"

definition lsdn_action_mirror_ingress_add :: "u16 \<Rightarrow> u32 \<Rightarrow> lsdn_filter \<Rightarrow> lsdn_filter" where
  "lsdn_action_mirror_ingress_add order idx f = action_mirred_add order TC_ACT_PIPE TCA_INGRESS_REDIR idx f"

definition lsdn_action_redir_egress_add :: "u16 \<Rightarrow> u32 \<Rightarrow> lsdn_filter \<Rightarrow> lsdn_filter" where
  "lsdn_action_redir_egress_add order idx f = action_mirred_add order TC_ACT_STOLEN TCA_EGRESS_REDIR idx f"

definition lsdn_action_mirror_egress_add :: "u16 \<Rightarrow> u32 \<Rightarrow> lsdn_filter \<Rightarrow> lsdn_filter" where
  "lsdn_action_mirror_egress_add order idx f = action_mirred_add order TC_ACT_PIPE TCA_EGRESS_REDIR idx f"

definition lsdn_action_set_tunnel_key :: "u16 \<Rightarrow> u32 \<Rightarrow> lsdn_ip_t \<Rightarrow> lsdn_ip_t \<Rightarrow> lsdn_filter \<Rightarrow> lsdn_filter" where
  "lsdn_action_set_tunnel_key order vni src_ip dst_ip f =
     action_put order ''tunnel_key''
       ([A_u32 (TC TCA_TUNNEL_KEY_ENC_KEY_ID) (htonl vni)] @
        (if ip_v src_ip = LSDN_IPv4 \<and> ip_v dst_ip = LSDN_IPv4
         then [A_u32 (TC TCA_TUNNEL_KEY_ENC_IPV4_SRC) (htonl (lsdn_ip4_u32 (ip_bytes src_ip))),
               A_u32 (TC TCA_TUNNEL_KEY_ENC_IPV4_DST) (htonl (lsdn_ip4_u32 (ip_bytes dst_ip)))]
         else [A_bytes (TC TCA_TUNNEL_KEY_ENC_IPV6_SRC) (ip_bytes src_ip),
               A_bytes (TC TCA_TUNNEL_KEY_ENC_IPV6_DST) (ip_bytes dst_ip)]) @
        [A_struct (TC TCA_TUNNEL_KEY_PARMS) (Tc_tunnel_key TC_ACT_PIPE)]) f"

text \<open>The numbers of the verdicts.\<close>

fun tc_act_val :: "tc_act \<Rightarrow> u32" where
  "tc_act_val TC_ACT_UNSPEC = 0xFFFFFFFF"
| "tc_act_val TC_ACT_OK = 0"
| "tc_act_val TC_ACT_SHOT = 2"
| "tc_act_val TC_ACT_PIPE = 3"
| "tc_act_val TC_ACT_STOLEN = 4"
| "tc_act_val (TC_ACT_GOTO_CHAIN c) = 0x20000000 OR c"

text \<open>
  \<^verbatim>\<open>finish_rate\<close> looks for the smallest shift that brings the MTU below 256.
\<close>

function cell_log_loop :: "u32 \<Rightarrow> nat \<Rightarrow> nat" where
  "cell_log_loop mtu n = (if drop_bit n mtu > 255 then cell_log_loop mtu (n + 1) else n)"
  by pat_completeness auto

lemma drop_bit_u32_0: "32 \<le> n \<Longrightarrow> drop_bit n (x :: u32) = 0"
  by (rule bit_word_eqI) (auto simp: bit_simps dest: bit_imp_le_length)

termination cell_log_loop
  by (relation "measure (\<lambda>(mtu, n). 32 - n)") (auto simp: not_le intro: ccontr dest: drop_bit_u32_0)

declare cell_log_loop.simps [simp del]

definition finish_rate :: "u32 \<Rightarrow> u32 \<Rightarrow> tc_ratespec" where
  "finish_rate r mtu = \<lparr>rate = r, cell_log = cell_log_loop mtu 0\<rparr>"

text \<open>
  The burst is converted to scheduler ticks by \<^verbatim>\<open>xmittime\<close>, in floating point with the
  clock rate read from \<^verbatim>\<open>/proc/net/psched\<close>: the parameter \<open>nl_xmittime\<close>.
\<close>

definition lsdn_action_police ::
    "nlenv \<Rightarrow> u16 \<Rightarrow> u32 \<Rightarrow> u32 \<Rightarrow> u32 \<Rightarrow> u32 \<Rightarrow> tc_act \<Rightarrow> tc_act \<Rightarrow> lsdn_filter \<Rightarrow> lsdn_filter" where
  "lsdn_action_police nl order avg_rate burst peakrate mtu gact_conforming gact_overlimit f =
     action_put order ''police''
       ([A_struct (TC TCA_POLICE_TBF) (Tc_police
           \<lparr>p_rate = finish_rate avg_rate mtu, p_peakrate = finish_rate peakrate mtu,
            p_burst = nl_xmittime nl avg_rate burst, p_mtu = mtu, p_action = gact_overlimit\<rparr>),
         A_u32 (TC TCA_POLICE_RESULT) (tc_act_val gact_conforming),
         A_struct (TC TCA_POLICE_RATE) Tc_rtab] @
        (if peakrate \<noteq> 0 then [A_struct (TC TCA_POLICE_PEAKRATE) Tc_rtab] else [])) f"

definition action_gact :: "u16 \<Rightarrow> tc_act \<Rightarrow> lsdn_filter \<Rightarrow> lsdn_filter" where
  "action_gact order act f = action_put order ''gact'' [A_struct (TC TCA_GACT_PARMS) (Tc_gact act)] f"

definition lsdn_action_drop :: "u16 \<Rightarrow> lsdn_filter \<Rightarrow> lsdn_filter" where
  "lsdn_action_drop order f = action_gact order TC_ACT_SHOT f"

definition lsdn_action_continue :: "u16 \<Rightarrow> lsdn_filter \<Rightarrow> lsdn_filter" where
  "lsdn_action_continue order f = action_gact order TC_ACT_UNSPEC f"

definition TC_ACT_EXT_VAL_MASK :: u32 where "TC_ACT_EXT_VAL_MASK = 0x0FFFFFFF"

definition lsdn_action_goto_chain :: "u16 \<Rightarrow> u32 \<Rightarrow> lsdn_filter \<Rightarrow> lsdn_filter" where
  "lsdn_action_goto_chain order chain f =
     action_gact order (TC_ACT_GOTO_CHAIN (chain AND TC_ACT_EXT_VAL_MASK)) f"

definition lsdn_action_skbmark :: "u16 \<Rightarrow> u32 \<Rightarrow> lsdn_filter \<Rightarrow> lsdn_filter" where
  "lsdn_action_skbmark order mark f =
     action_put order ''skbedit''
       [A_struct (TC TCA_SKBEDIT_PARMS) (Tc_skbedit order TC_ACT_PIPE), A_u32 (TC TCA_SKBEDIT_MARK) mark] f"

section \<open>Keys\<close>

text \<open>The setters copy the first \<open>n\<close> bytes of the address and of its mask.\<close>

definition flower_set :: "flower_field \<Rightarrow> nat \<Rightarrow> u8 list \<Rightarrow> u8 list \<Rightarrow> lsdn_filter \<Rightarrow> lsdn_filter" where
  "flower_set k n addr addr_mask f =
     attr_put (A_bytes (FLOWER_MASK k) (take n addr_mask)) (attr_put (A_bytes (FLOWER_KEY k) (take n addr)) f)"

definition lsdn_flower_set_src_mac where "lsdn_flower_set_src_mac addr msk f = flower_set KEY_ETH_SRC 6 addr msk f"
definition lsdn_flower_set_dst_mac where "lsdn_flower_set_dst_mac addr msk f = flower_set KEY_ETH_DST 6 addr msk f"
definition lsdn_flower_set_src_ipv4 where "lsdn_flower_set_src_ipv4 addr msk f = flower_set KEY_IPV4_SRC 4 addr msk f"
definition lsdn_flower_set_dst_ipv4 where "lsdn_flower_set_dst_ipv4 addr msk f = flower_set KEY_IPV4_DST 4 addr msk f"
definition lsdn_flower_set_src_ipv6 where "lsdn_flower_set_src_ipv6 addr msk f = flower_set KEY_IPV6_SRC 16 addr msk f"
definition lsdn_flower_set_dst_ipv6 where "lsdn_flower_set_dst_ipv6 addr msk f = flower_set KEY_IPV6_DST 16 addr msk f"
definition lsdn_flower_set_enc_src_ipv4 where
  "lsdn_flower_set_enc_src_ipv4 addr msk f = flower_set KEY_ENC_IPV4_SRC 4 addr msk f"
definition lsdn_flower_set_enc_dst_ipv4 where
  "lsdn_flower_set_enc_dst_ipv4 addr msk f = flower_set KEY_ENC_IPV4_DST 4 addr msk f"
definition lsdn_flower_set_enc_src_ipv6 where
  "lsdn_flower_set_enc_src_ipv6 addr msk f = flower_set KEY_ENC_IPV6_SRC 16 addr msk f"
definition lsdn_flower_set_enc_dst_ipv6 where
  "lsdn_flower_set_enc_dst_ipv6 addr msk f = flower_set KEY_ENC_IPV6_DST 16 addr msk f"

definition lsdn_flower_set_enc_key_id :: "u32 \<Rightarrow> lsdn_filter \<Rightarrow> lsdn_filter" where
  "lsdn_flower_set_enc_key_id vni f = attr_put (A_u32 (FLOWER_KEY KEY_ENC_KEY_ID) (htonl vni)) f"

definition lsdn_flower_set_eth_type :: "u16 \<Rightarrow> lsdn_filter \<Rightarrow> lsdn_filter" where
  "lsdn_flower_set_eth_type eth_type f = attr_put (A_u16 (FLOWER_KEY KEY_ETH_TYPE) eth_type) f"

section \<open>Requests\<close>

definition filter_create_msg :: "lsdn_filter \<Rightarrow> nlmsg" where
  "filter_create_msg f =
     \<lparr>nm_type = RTM_NEWTFILTER,
      nm_flags = {NLM_F_REQUEST, NLM_F_CREATE, NLM_F_ACK} \<union> (if \<not> f_update f then {NLM_F_EXCL} else {}),
      nm_hdr = Tcmsg (f_tcm f),
      nm_attrs = f_head f @ [A_nest (TC TCA_OPTIONS) (f_opts f)]\<rparr>"

definition lsdn_filter_create :: "lsdn_filter \<Rightarrow> nlenv \<Rightarrow> lsdn_err_t \<times> nlenv" where
  "lsdn_filter_create f nl = send_await_response (filter_create_msg f) nl"

definition filter_delete_msg :: "u32 \<Rightarrow> u32 \<Rightarrow> u32 \<Rightarrow> u32 \<Rightarrow> u16 \<Rightarrow> nlmsg" where
  "filter_delete_msg idx handle parent chain prio =
     \<lparr>nm_type = RTM_DELTFILTER, nm_flags = {NLM_F_REQUEST, NLM_F_ACK},
      nm_hdr = Tcmsg \<lparr>tcm_ifindex = idx, tcm_handle = handle, tcm_parent = parent, tcm_info = tc_info prio\<rparr>,
      nm_attrs = [A_u32 (TC TCA_CHAIN) chain]\<rparr>"

definition lsdn_filter_delete :: "u32 \<Rightarrow> u32 \<Rightarrow> u32 \<Rightarrow> u32 \<Rightarrow> u16 \<Rightarrow> nlenv \<Rightarrow> lsdn_err_t \<times> nlenv" where
  "lsdn_filter_delete idx handle parent chain prio nl =
     send_await_response (filter_delete_msg idx handle parent chain prio) nl"

section \<open>The table of filters the accepted requests leave\<close>

text \<open>
  A filter is identified by interface, parent qdisc, chain, priority word and handle. \<open>filter_table\<close>
  is what the acknowledged requests of a history have installed; the other requests leave it alone.
\<close>

type_synonym filter_id = "tcmsg \<times> u32"

fun msg_chain :: "nlattr list \<Rightarrow> u32" where
  "msg_chain [] = 0"
| "msg_chain (A_u32 (TC TCA_CHAIN) c # as) = c"
| "msg_chain (a # as) = msg_chain as"

definition filter_effect :: "nlmsg \<Rightarrow> (filter_id \<rightharpoonup> nlattr list) \<Rightarrow> (filter_id \<rightharpoonup> nlattr list)" where
  "filter_effect m tab =
     (case (nm_hdr m, nm_type m) of
        (Tcmsg t, RTM_NEWTFILTER) \<Rightarrow> tab((t, msg_chain (nm_attrs m)) \<mapsto> nm_attrs m)
      | (Tcmsg t, RTM_DELTFILTER) \<Rightarrow> tab((t, msg_chain (nm_attrs m)) := None)
      | _ \<Rightarrow> tab)"

fun filter_table :: "nl_history \<Rightarrow> (filter_id \<rightharpoonup> nlattr list)" where
  "filter_table [] = Map.empty"
| "filter_table ((m, r) # h) =
     (if r = NL_error 0 then filter_effect m (filter_table h) else filter_table h)"

section \<open>Facts\<close>

lemma nl_malloc_frame [simp]:
  "nl_malloc nl = (ok, nl') \<Longrightarrow> nl_log nl' = nl_log nl \<and> nl_kernel nl' = nl_kernel nl \<and>
     nl_ifindex nl' = nl_ifindex nl \<and> nl_xmittime nl' = nl_xmittime nl"
  by (auto simp: nl_malloc_def split: prod.splits)

lemma send_await_response_cases:
  assumes "send_await_response m nl = (err, nl')"
  shows "err = LSDNE_OK \<or> err = LSDNE_NETLINK"
    and "\<exists>r. nl' = nl\<lparr>nl_log := (m, r) # nl_log nl\<rparr> \<and> (err = LSDNE_OK \<longleftrightarrow> r = NL_error 0)"
  using assms
  by (auto simp: send_await_response_def nl_transact_def process_response_def Let_def split: if_splits nl_reply.splits)

lemma tc_info_inj [simp]: "tc_info p = tc_info q \<longleftrightarrow> p = q"
proof
  assume eq: "tc_info p = tc_info q"
  have "drop_bit 16 (push_bit 16 (ucast x :: u32)) = ucast x" for x :: u16
    by (rule bit_word_eqI) (auto simp: bit_simps dest: bit_imp_le_length)
  then have "drop_bit 16 (tc_info x) = ucast x" for x
    by (simp add: tc_info_def)
  then have "(ucast p :: u32) = ucast q" using eq by metis
  then have "unat (ucast p :: u32) = unat (ucast q :: u32)" by simp
  then have "unat p = unat q"
    using unat_u16_less [of p] unat_u16_less [of q]
    by (simp add: unsigned_ucast_eq take_bit_nat_eq_self)
  then show "p = q" by (simp add: unsigned_word_eqI)
qed simp

end
