(* ===== verification/Idalloc.thy ===== *)
theory Idalloc
  imports Prelude
begin

text \<open>
  The allocator of numeric identifiers, \<^verbatim>\<open>netmodel/idalloc.c\<close>: a counter that
  wraps at 32 bits. It gives the handles of the flower rules, the broadcast filters and the generated names.
\<close>

record lsdn_idalloc =
  id_min :: u32
  id_max :: u32
  id_next :: u32

definition lsdn_idalloc_init :: "u32 \<Rightarrow> u32 \<Rightarrow> lsdn_idalloc" where
  "lsdn_idalloc_init mn mx = \<lparr>id_min = mn, id_max = mx, id_next = mn\<rparr>"

text \<open>\<open>None\<close> is the return value \<^verbatim>\<open>false\<close>.\<close>

definition lsdn_idalloc_get :: "lsdn_idalloc \<Rightarrow> (u32 \<times> lsdn_idalloc) option" where
  "lsdn_idalloc_get idalloc =
     (if id_max idalloc = id_next idalloc then None
      else Some (id_next idalloc, idalloc\<lparr>id_next := id_next idalloc + 1\<rparr>))"

definition lsdn_idalloc_return :: "u32 \<Rightarrow> lsdn_idalloc \<Rightarrow> lsdn_idalloc" where
  "lsdn_idalloc_return i idalloc = idalloc"

text \<open>A run of \<open>n\<close> allocations.\<close>

primrec get_many :: "nat \<Rightarrow> lsdn_idalloc \<Rightarrow> (u32 list \<times> lsdn_idalloc) option" where
  "get_many 0 a = Some ([], a)"
| "get_many (Suc n) a = do {
     (i, a) \<leftarrow> lsdn_idalloc_get a;
     (is, a) \<leftarrow> get_many n a;
     Some (i # is, a)
   }"

definition ids_left :: "lsdn_idalloc \<Rightarrow> nat" where
  "ids_left a = unat (id_max a - id_next a)"

lemma lsdn_idalloc_get_None: "lsdn_idalloc_get a = None \<longleftrightarrow> ids_left a = 0"
  by (simp add: lsdn_idalloc_get_def ids_left_def unat_eq_zero)

lemma unat_minus_one_u32: "x \<noteq> 0 \<Longrightarrow> unat (x - 1 :: u32) = unat x - 1"
  by (rule unat_minus_one)

lemma lsdn_idalloc_get_Some:
  assumes "lsdn_idalloc_get a = Some (i, a')"
  shows "i = id_next a" "id_next a' = id_next a + 1" "id_min a' = id_min a" "id_max a' = id_max a"
    "Suc (ids_left a') = ids_left a"
proof -
  show *: "i = id_next a" "id_next a' = id_next a + 1" "id_min a' = id_min a" "id_max a' = id_max a"
    using assms by (auto simp: lsdn_idalloc_get_def split: if_splits)
  have "id_max a - id_next a \<noteq> 0" using assms by (auto simp: lsdn_idalloc_get_def split: if_splits)
  then show "Suc (ids_left a') = ids_left a"
    using unat_minus_one_u32 [of "id_max a - id_next a"] unat_eq_zero [of "id_max a - id_next a"]
    by (simp add: ids_left_def * diff_diff_eq)
qed

lemma get_many_ids:
  assumes "get_many n a = Some (is, a')"
  shows "is = map (\<lambda>k. id_next a + of_nat k) [0..<n]" "ids_left a' + n = ids_left a"
  using assms
proof (induction n arbitrary: a "is")
  case (Suc n)
  {
    case 1
    then show ?case using Suc.IH(1) lsdn_idalloc_get_Some
      by (fastforce simp: bind_eq_Some_conv upt_conv_Cons map_Suc_upt [symmetric] simp del: upt_Suc)
  next
    case 2
    then show ?case using Suc.IH(2) lsdn_idalloc_get_Some(5)
      by (fastforce simp: bind_eq_Some_conv)
  }
qed simp_all

lemma get_many_Some_iff: "(\<exists>r. get_many n a = Some r) \<longleftrightarrow> n \<le> ids_left a"
proof (induction n arbitrary: a)
  case (Suc n)
  show ?case
  proof (cases "lsdn_idalloc_get a")
    case None
    moreover from this have "ids_left a = 0" by (simp add: lsdn_idalloc_get_None)
    ultimately show ?thesis by simp
  next
    case (Some ia)
    then show ?thesis using Suc.IH [of "snd ia"] lsdn_idalloc_get_Some(5) [of a "fst ia" "snd ia"]
      by (cases ia) (auto simp: bind_eq_Some_conv)
  qed
qed simp


end
