(* ===== verification/Rules.thy ===== *)
theory Rules
  imports Filters Idalloc
begin

text \<open>
  The rule engine of \<^verbatim>\<open>netmodel/rules.c\<close> and \<^verbatim>\<open>netmodel/private/rules.h\<close>: rule sets,
  their priorities, and the flower filters that rules with the same masked match share.

  Structures embedded in the network model are addressed by the object that holds them. A
  priority of a rule set is addressed by the rule set and its number, a flower rule by its handle. The
  uthash tables are the lists of their items in insertion order, looked up by key, which is what
  \<^verbatim>\<open>HASH_FIND\<close>, \<^verbatim>\<open>HASH_ADD\<close>, \<^verbatim>\<open>HASH_DEL\<close> and \<^verbatim>\<open>HASH_ITER\<close> give.
\<close>

section \<open>Addresses\<close>

datatype if_ptr =
    IF_committed ptr \<comment> \<open>\<^verbatim>\<open>virt->committed_if\<close>\<close>
  | IF_tunnel ptr \<comment> \<open>\<^verbatim>\<open>pa->tunnel_if\<close>\<close>
  | IF_sbridge ptr \<comment> \<open>\<^verbatim>\<open>pa->sbridge.bridge_if\<close>\<close>
  | IF_stunnel ptr \<comment> \<open>the shared tunnel of a settings object\<close>
  | IF_route ptr \<comment> \<open>\<^verbatim>\<open>remote_pa->lbridge_route.dummy_if\<close>\<close>

datatype ruleset_ptr = RS_virt_in ptr | RS_virt_out ptr | RS_sbridge ptr | RS_stunnel ptr | RS_route ptr

datatype sbridge_if_ptr = SIF_virt ptr | SIF_pa ptr

datatype rule_ptr =
    R_policing_in ptr | R_policing_out ptr | R_vr ptr | R_forward ptr
  | R_match_br sbridge_if_ptr | R_fallback sbridge_if_ptr | R_route_out ptr | R_route_in ptr

text \<open>The action callbacks of the sources with their user pointer; \<open>Fn_null\<close> is a null callback.\<close>

datatype mkaction =
    Fn_null | Fn_drop | Fn_rates_in ptr | Fn_rates_out ptr | Fn_if_br ptr | Fn_br_forward ptr
  | Fn_goto_br_chain sbridge_if_ptr | Fn_goto_switch sbridge_if_ptr
  | Fn_encap_redir ptr | Fn_ingress_redir ptr | Fn_tunnel_key ptr

section \<open>Data\<close>

datatype lsdn_rule_target =
    LSDN_MATCH_NONE | LSDN_MATCH_SRC_MAC | LSDN_MATCH_DST_MAC | LSDN_MATCH_SRC_IPV4 | LSDN_MATCH_DST_IPV4
  | LSDN_MATCH_SRC_IPV6 | LSDN_MATCH_DST_IPV6 | LSDN_MATCH_ENC_KEY_ID
  | LSDN_MATCH_ENC_KEY_SRC_IPV4 | LSDN_MATCH_ENC_KEY_SRC_IPV6
  | LSDN_MATCH_ENC_KEY_DST_IPV4 | LSDN_MATCH_ENC_KEY_DST_IPV6

definition LSDN_MAX_MATCH_LEN :: nat where "LSDN_MAX_MATCH_LEN = 16"
definition LSDN_MAX_MATCHES :: nat where "LSDN_MAX_MATCHES = 2"
definition LSDN_MAX_ACT_PRIO :: nat where "LSDN_MAX_ACT_PRIO = 32"

definition LSDN_IF_PRIO_POLICING :: u16 where "LSDN_IF_PRIO_POLICING = 0xFF00"
definition LSDN_IF_PRIO_MATCH :: u16 where "LSDN_IF_PRIO_MATCH = 0xFF01"
definition LSDN_IF_PRIO_FALLBACK :: u16 where "LSDN_IF_PRIO_FALLBACK = 0xFF02"
definition LSDN_IF_PRIO_SOURCE :: u16 where "LSDN_IF_PRIO_SOURCE = 0xFF03"
definition LSDN_SBRIDGE_IF_SUBPRIO :: u32 where "LSDN_SBRIDGE_IF_SUBPRIO = 0xFFFFFF00"
definition LSDN_VR_SUBPRIO :: u32 where "LSDN_VR_SUBPRIO = 0"

text \<open>The union \<^verbatim>\<open>lsdn_matchdata\<close> is its 16 bytes; writing a member sets the first ones.\<close>

type_synonym lsdn_matchdata = "u8 list"

definition match_write :: "u8 list \<Rightarrow> lsdn_matchdata \<Rightarrow> lsdn_matchdata" where
  "match_write v m = v @ drop (length v) m"

definition u32_bytes :: "u32 \<Rightarrow> u8 list" where
  "u32_bytes x = [ucast x, ucast (drop_bit 8 x), ucast (drop_bit 16 x), ucast (drop_bit 24 x)]"

definition bytes_u32 :: "u8 list \<Rightarrow> u32" where
  "bytes_u32 b = ucast (b ! 0) OR push_bit 8 (ucast (b ! 1)) OR push_bit 16 (ucast (b ! 2)) OR push_bit 24 (ucast (b ! 3))"

record lsdn_action_desc =
  actions_count :: nat
  act_fn :: mkaction

definition lsdn_action_init :: "nat \<Rightarrow> mkaction \<Rightarrow> lsdn_action_desc" where
  "lsdn_action_init n fn = \<lparr>actions_count = n, act_fn = fn\<rparr>"

record lsdn_rule =
  rule_matches :: "lsdn_matchdata list"
  rule_action :: lsdn_action_desc
  rule_subprio :: u32
  rule_ruleset :: "ruleset_ptr option"
  rule_prio :: "u16 option"
  rule_fl :: "u32 option"

record lsdn_flower_rule =
  fl_matches :: "lsdn_matchdata list"
  fl_handle :: u32
  fl_sources :: "rule_ptr list"

record lsdn_ruleset_prio =
  prio_num :: u16
  prio_targets :: "lsdn_rule_target list"
  prio_masks :: "lsdn_matchdata list"
  handle_alloc :: lsdn_idalloc
  hash_fl_rules :: "lsdn_flower_rule list"

record lsdn_ruleset =
  rs_iface :: if_ptr
  rs_parent_handle :: u32
  rs_chain :: u32
  rs_prio_start :: int
  rs_prio_count :: int
  hash_prios :: "lsdn_ruleset_prio list"

text \<open>
  The state of the engine: the netlink environment, the flag \<^verbatim>\<open>disable_decommit\<close> of the
  context, and the rule sets and rules that are alive.
\<close>

record rules =
  r_nl :: nlenv
  r_no_decommit :: bool
  r_sets :: "ruleset_ptr \<Rightarrow> lsdn_ruleset option"
  r_rules :: "rule_ptr \<Rightarrow> lsdn_rule option"

text \<open>
  What the engine reads from the rest of the program while it builds a filter: the index of an
  interface, and what an action callback adds to the filter.
\<close>

record callbacks =
  cb_ifindex :: "if_ptr \<Rightarrow> u32"
  cb_mkaction :: "mkaction \<Rightarrow> u16 \<Rightarrow> lsdn_filter \<Rightarrow> lsdn_filter option"

definition find_prio :: "lsdn_ruleset \<Rightarrow> u16 \<Rightarrow> lsdn_ruleset_prio option" where
  "find_prio rs p = List.find (\<lambda>x. prio_num x = p) (hash_prios rs)"

definition find_fl :: "lsdn_ruleset_prio \<Rightarrow> lsdn_matchdata list \<Rightarrow> lsdn_flower_rule option" where
  "find_fl p ms = List.find (\<lambda>x. fl_matches x = ms) (hash_fl_rules p)"

definition fl_by_handle :: "lsdn_ruleset_prio \<Rightarrow> u32 \<Rightarrow> lsdn_flower_rule option" where
  "fl_by_handle p h = List.find (\<lambda>x. fl_handle x = h) (hash_fl_rules p)"

definition set_prio :: "lsdn_ruleset_prio \<Rightarrow> lsdn_ruleset \<Rightarrow> lsdn_ruleset" where
  "set_prio p rs = rs\<lparr>hash_prios := map (\<lambda>x. if prio_num x = prio_num p then p else x) (hash_prios rs)\<rparr>"

definition set_fl :: "lsdn_flower_rule \<Rightarrow> lsdn_ruleset_prio \<Rightarrow> lsdn_ruleset_prio" where
  "set_fl fl p = p\<lparr>hash_fl_rules := map (\<lambda>x. if fl_handle x = fl_handle fl then fl else x) (hash_fl_rules p)\<rparr>"

definition del_fl :: "u32 \<Rightarrow> lsdn_ruleset_prio \<Rightarrow> lsdn_ruleset_prio" where
  "del_fl h p = p\<lparr>hash_fl_rules := filter (\<lambda>x. fl_handle x \<noteq> h) (hash_fl_rules p)\<rparr>"

definition get_prio :: "rules \<Rightarrow> ruleset_ptr \<Rightarrow> u16 \<Rightarrow> (lsdn_ruleset \<times> lsdn_ruleset_prio) option" where
  "get_prio st rs p = do { s \<leftarrow> r_sets st rs; pr \<leftarrow> find_prio s p; Some (s, pr) }"

definition put_prio :: "ruleset_ptr \<Rightarrow> lsdn_ruleset \<Rightarrow> lsdn_ruleset_prio \<Rightarrow> rules \<Rightarrow> rules" where
  "put_prio rs s p st = st\<lparr>r_sets := (r_sets st)(rs \<mapsto> set_prio p s)\<rparr>"

definition r_malloc :: "rules \<Rightarrow> bool \<times> rules" where
  "r_malloc st = (case nl_malloc (r_nl st) of (ok, nl) \<Rightarrow> (ok, st\<lparr>r_nl := nl\<rparr>))"

section \<open>Masking\<close>

fun lsdn_target_supports_masking :: "lsdn_rule_target \<Rightarrow> bool" where
  "lsdn_target_supports_masking LSDN_MATCH_NONE = False"
| "lsdn_target_supports_masking LSDN_MATCH_ENC_KEY_ID = False"
| "lsdn_target_supports_masking _ = True"

definition hard_mask :: "lsdn_matchdata \<Rightarrow> nat \<Rightarrow> lsdn_matchdata option" where
  "hard_mask value valsize = do {
     c_assert (valsize < LSDN_MAX_MATCH_LEN);
     Some (take valsize value @ replicate (LSDN_MAX_MATCH_LEN - valsize) 0)
   }"

definition mask_match :: "lsdn_rule_target \<Rightarrow> lsdn_matchdata \<Rightarrow> lsdn_matchdata \<Rightarrow> lsdn_matchdata option" where
  "mask_match target m value =
     (if \<not> lsdn_target_supports_masking target then
        (case target of
           LSDN_MATCH_NONE \<Rightarrow> hard_mask value 0
         | LSDN_MATCH_ENC_KEY_ID \<Rightarrow> hard_mask value 4
         | _ \<Rightarrow> None)
      else Some (map2 (AND) value m))"

definition lsdn_rule_apply_mask ::
    "lsdn_rule_target list \<Rightarrow> lsdn_matchdata list \<Rightarrow> lsdn_rule \<Rightarrow> lsdn_rule option" where
  "lsdn_rule_apply_mask targets masks r = do {
     m0 \<leftarrow> mask_match (targets ! 0) (masks ! 0) (rule_matches r ! 0);
     m1 \<leftarrow> mask_match (targets ! 1) (masks ! 1) (rule_matches r ! 1);
     Some (r\<lparr>rule_matches := [m0, m1]\<rparr>)
   }"

section \<open>Rule sets and priorities\<close>

definition lsdn_ruleset_init ::
    "ruleset_ptr \<Rightarrow> if_ptr \<Rightarrow> u32 \<Rightarrow> u32 \<Rightarrow> u32 \<Rightarrow> u32 \<Rightarrow> rules \<Rightarrow> rules" where
  "lsdn_ruleset_init rs iface parent_handle chain prio_start prio_count st =
     st\<lparr>r_sets := (r_sets st)(rs \<mapsto>
       \<lparr>rs_iface = iface, rs_parent_handle = parent_handle, rs_chain = chain,
        rs_prio_start = sint prio_start, rs_prio_count = sint prio_count, hash_prios = []\<rparr>)\<rparr>"

text \<open>The result is whether a priority was created; the C function returns it or a null pointer.\<close>

definition lsdn_ruleset_define_prio :: "ruleset_ptr \<Rightarrow> u16 \<Rightarrow> rules \<Rightarrow> (bool \<times> rules) option" where
  "lsdn_ruleset_define_prio rs p st = do {
     s \<leftarrow> r_sets st rs;
     if find_prio s p \<noteq> None then Some (False, st)
     else (case r_malloc st of
       (False, st) \<Rightarrow> Some (False, st)
     | (True, st) \<Rightarrow>
         Some (True, st\<lparr>r_sets := (r_sets st)(rs \<mapsto> s\<lparr>hash_prios := hash_prios s @
           [\<lparr>prio_num = p, prio_targets = replicate LSDN_MAX_MATCHES LSDN_MATCH_NONE,
             prio_masks = replicate LSDN_MAX_MATCHES (replicate LSDN_MAX_MATCH_LEN 0),
             handle_alloc = lsdn_idalloc_init 1 0xFFFF, hash_fl_rules = []\<rparr>]\<rparr>)\<rparr>))
   }"

definition lsdn_ruleset_get_prio :: "ruleset_ptr \<Rightarrow> u16 \<Rightarrow> rules \<Rightarrow> bool option" where
  "lsdn_ruleset_get_prio rs p st = do { s \<leftarrow> r_sets st rs; Some (find_prio s p \<noteq> None) }"

text \<open>Setting what a priority matches, as the users of the engine do after defining it.\<close>

definition prio_set_match :: "ruleset_ptr \<Rightarrow> u16 \<Rightarrow> nat \<Rightarrow> lsdn_rule_target \<Rightarrow> u8 list \<Rightarrow> rules \<Rightarrow> rules option" where
  "prio_set_match rs p i target m st = do {
     (s, pr) \<leftarrow> get_prio st rs p;
     Some (put_prio rs s (pr\<lparr>prio_targets := (prio_targets pr)[i := target],
       prio_masks := (prio_masks pr)[i := match_write m (prio_masks pr ! i)]\<rparr>) st)
   }"

definition lsdn_ruleset_remove_prio :: "ruleset_ptr \<Rightarrow> u16 \<Rightarrow> rules \<Rightarrow> (lsdn_err_t \<times> rules) option" where
  "lsdn_ruleset_remove_prio rs p st = do {
     (s, pr) \<leftarrow> get_prio st rs p;
     c_assert (hash_fl_rules pr = []);
     Some (LSDNE_OK, st\<lparr>r_sets := (r_sets st)(rs \<mapsto>
       s\<lparr>hash_prios := filter (\<lambda>x. prio_num x \<noteq> p) (hash_prios s)\<rparr>)\<rparr>)
   }"

definition lsdn_ruleset_free :: "ruleset_ptr \<Rightarrow> rules \<Rightarrow> rules option" where
  "lsdn_ruleset_free rs st = do {
     s \<leftarrow> r_sets st rs;
     c_assert (list_all (\<lambda>pr. hash_fl_rules pr = []) (hash_prios s));
     Some (st\<lparr>r_sets := (r_sets st)(rs \<mapsto> s\<lparr>hash_prios := []\<rparr>)\<rparr>)
   }"

section \<open>Flower rules\<close>

definition ETH_P_ALL :: u16 where "ETH_P_ALL = 0x0003"
definition ETH_P_IP :: u16 where "ETH_P_IP = 0x0800"
definition ETH_P_IPV6 :: u16 where "ETH_P_IPV6 = 0x86DD"

fun key_ethtype :: "lsdn_rule_target \<Rightarrow> u16" where
  "key_ethtype LSDN_MATCH_SRC_IPV4 = ETH_P_IP"
| "key_ethtype LSDN_MATCH_DST_IPV4 = ETH_P_IP"
| "key_ethtype LSDN_MATCH_SRC_IPV6 = ETH_P_IPV6"
| "key_ethtype LSDN_MATCH_DST_IPV6 = ETH_P_IPV6"
| "key_ethtype _ = ETH_P_ALL"

fun common_ethtype_loop :: "lsdn_rule_target list \<Rightarrow> u16 \<Rightarrow> u16 option" where
  "common_ethtype_loop [] eth_out = Some eth_out"
| "common_ethtype_loop (t # ts) eth_out =
     (let eth = key_ethtype t in
      if eth \<noteq> ETH_P_ALL then
        (if eth_out \<noteq> ETH_P_ALL \<and> eth_out \<noteq> eth then None else common_ethtype_loop ts eth)
      else common_ethtype_loop ts eth_out)"

definition find_common_ethtype :: "lsdn_ruleset_prio \<Rightarrow> u16 option" where
  "find_common_ethtype prio = common_ethtype_loop (prio_targets prio) ETH_P_ALL"

text \<open>One step of the loop of \<^verbatim>\<open>flush_fl_rule\<close> that adds the keys.\<close>

fun flower_add_key :: "lsdn_rule_target \<Rightarrow> lsdn_matchdata \<Rightarrow> lsdn_matchdata \<Rightarrow> lsdn_filter \<Rightarrow> lsdn_filter" where
  "flower_add_key LSDN_MATCH_DST_MAC v m f = lsdn_flower_set_dst_mac v m f"
| "flower_add_key LSDN_MATCH_SRC_MAC v m f = lsdn_flower_set_src_mac v m f"
| "flower_add_key LSDN_MATCH_SRC_IPV4 v m f = lsdn_flower_set_src_ipv4 v m f"
| "flower_add_key LSDN_MATCH_DST_IPV4 v m f = lsdn_flower_set_dst_ipv4 v m f"
| "flower_add_key LSDN_MATCH_SRC_IPV6 v m f = lsdn_flower_set_src_ipv6 v m f"
| "flower_add_key LSDN_MATCH_DST_IPV6 v m f = lsdn_flower_set_dst_ipv6 v m f"
| "flower_add_key LSDN_MATCH_ENC_KEY_ID v m f = lsdn_flower_set_enc_key_id (bytes_u32 v) f"
| "flower_add_key LSDN_MATCH_ENC_KEY_SRC_IPV4 v m f = lsdn_flower_set_enc_src_ipv4 v m f"
| "flower_add_key LSDN_MATCH_ENC_KEY_SRC_IPV6 v m f = lsdn_flower_set_enc_src_ipv6 v m f"
| "flower_add_key LSDN_MATCH_ENC_KEY_DST_IPV4 v m f = lsdn_flower_set_enc_dst_ipv4 v m f"
| "flower_add_key LSDN_MATCH_ENC_KEY_DST_IPV6 v m f = lsdn_flower_set_enc_dst_ipv6 v m f"
| "flower_add_key LSDN_MATCH_NONE v m f = f"

definition flower_add_keys :: "lsdn_ruleset_prio \<Rightarrow> lsdn_flower_rule \<Rightarrow> lsdn_filter \<Rightarrow> lsdn_filter" where
  "flower_add_keys prio fl f =
     fold (\<lambda>i. flower_add_key (prio_targets prio ! i) (fl_matches fl ! i) (prio_masks prio ! i))
       [0..<LSDN_MAX_MATCHES] f"

fun add_source_actions ::
    "callbacks \<Rightarrow> (rule_ptr \<Rightarrow> lsdn_rule option) \<Rightarrow> rule_ptr list \<Rightarrow> nat \<Rightarrow> lsdn_filter \<Rightarrow> lsdn_filter option" where
  "add_source_actions cb rules [] order f = Some f"
| "add_source_actions cb rules (r # rs) order f = do {
     rule \<leftarrow> rules r;
     c_assert (order + actions_count (rule_action rule) \<le> LSDN_MAX_ACT_PRIO);
     f \<leftarrow> cb_mkaction cb (act_fn (rule_action rule)) (of_nat order) f;
     add_source_actions cb rules rs (order + actions_count (rule_action rule)) f
   }"

text \<open>The filter the loops of \<^verbatim>\<open>flush_fl_rule\<close> build from the empty filter.\<close>

definition fl_build ::
    "callbacks \<Rightarrow> (rule_ptr \<Rightarrow> lsdn_rule option) \<Rightarrow> lsdn_ruleset_prio \<Rightarrow> lsdn_flower_rule \<Rightarrow> lsdn_filter \<Rightarrow> lsdn_filter option" where
  "fl_build cb rules prio fl f = do {
     ethtype \<leftarrow> find_common_ethtype prio;
     let f = (if ethtype \<noteq> ETH_P_ALL then lsdn_flower_set_eth_type (htons ethtype) f else f);
     let f = flower_add_keys prio fl f;
     f \<leftarrow> add_source_actions cb rules (fl_sources fl) 1 (lsdn_flower_actions_start f);
     Some (lsdn_flower_actions_end f)
   }"

definition tc_prio :: "lsdn_ruleset \<Rightarrow> lsdn_ruleset_prio \<Rightarrow> u16" where
  "tc_prio s prio = of_int (uint (prio_num prio) + rs_prio_start s)"

definition flush_fl_rule ::
    "callbacks \<Rightarrow> lsdn_flower_rule \<Rightarrow> ruleset_ptr \<Rightarrow> u16 \<Rightarrow> bool \<Rightarrow> rules \<Rightarrow> (lsdn_err_t \<times> rules) option" where
  "flush_fl_rule cb fl rs p update st = do {
     (s, prio) \<leftarrow> get_prio st rs p;
     (case lsdn_filter_flower_init (cb_ifindex cb (rs_iface s)) (fl_handle fl) (rs_parent_handle s)
             (rs_chain s) (tc_prio s prio) (r_nl st) of
        (None, nl) \<Rightarrow> Some (LSDNE_NOMEM, st\<lparr>r_nl := nl\<rparr>)
      | (Some f, nl) \<Rightarrow> do {
          f \<leftarrow> fl_build cb (r_rules st) prio fl (if update then lsdn_filter_set_update f else f);
          (case lsdn_filter_create f nl of (err, nl) \<Rightarrow> Some (err, st\<lparr>r_nl := nl\<rparr>))
        })
   }"

definition free_fl_rule ::
    "callbacks \<Rightarrow> lsdn_flower_rule \<Rightarrow> ruleset_ptr \<Rightarrow> u16 \<Rightarrow> rules \<Rightarrow> (lsdn_err_t \<times> rules) option" where
  "free_fl_rule cb fl rs p st = do {
     (s, prio) \<leftarrow> get_prio st rs p;
     let (err, nl) = (if \<not> r_no_decommit st then
         lsdn_filter_delete (cb_ifindex cb (rs_iface s)) (fl_handle fl) (rs_parent_handle s)
           (rs_chain s) (tc_prio s prio) (r_nl st)
       else (LSDNE_OK, r_nl st));
     Some (err, put_prio rs s (del_fl (fl_handle fl) prio) (st\<lparr>r_nl := nl\<rparr>))
   }"

section \<open>Adding and removing rules\<close>

text \<open>
  Insertion into the list of sources, sorted by sub-priority: the inner \<open>None\<close> is the
  return of \<^verbatim>\<open>LSDNE_DUPLICATE\<close>, the outer one the access to a rule that is gone.
\<close>

fun insert_source ::
    "(rule_ptr \<Rightarrow> lsdn_rule option) \<Rightarrow> u32 \<Rightarrow> rule_ptr \<Rightarrow> rule_ptr list \<Rightarrow> rule_ptr list option option" where
  "insert_source rules sp r [] = Some (Some [r])"
| "insert_source rules sp r (x # xs) = do {
     rule \<leftarrow> rules x;
     if rule_subprio rule = sp then Some None
     else if rule_subprio rule > sp then Some (Some (r # x # xs))
     else do {
       res \<leftarrow> insert_source rules sp r xs;
       Some (map_option (\<lambda>ys. x # ys) res)
     }
   }"

definition put_rule :: "rule_ptr \<Rightarrow> lsdn_rule \<Rightarrow> rules \<Rightarrow> rules" where
  "put_rule r rule st = st\<lparr>r_rules := (r_rules st)(r \<mapsto> rule)\<rparr>"

text \<open>
  The part of \<^verbatim>\<open>lsdn_ruleset_add\<close> that finds the flower rule of a masked match, or makes one:
  the flower rule and whether it existed, or \<open>None\<close> for the return of \<^verbatim>\<open>LSDNE_NOMEM\<close>.
\<close>

definition find_or_make_fl ::
    "ruleset_ptr \<Rightarrow> u16 \<Rightarrow> lsdn_matchdata list \<Rightarrow> rules \<Rightarrow> ((lsdn_flower_rule \<times> bool) option \<times> rules) option" where
  "find_or_make_fl rs p ms st = do {
     (s, prio) \<leftarrow> get_prio st rs p;
     (case find_fl prio ms of
        Some fl \<Rightarrow> Some (Some (fl, True), st)
      | None \<Rightarrow>
          (case lsdn_idalloc_get (handle_alloc prio) of
             None \<Rightarrow> Some (None, st)
           | Some (handle, ida) \<Rightarrow>
               (case r_malloc st of
                  (False, st) \<Rightarrow>
                    Some (None, put_prio rs s (prio\<lparr>handle_alloc := lsdn_idalloc_return handle ida\<rparr>) st)
                | (True, st) \<Rightarrow>
                    let fl = \<lparr>fl_matches = ms, fl_handle = handle, fl_sources = []\<rparr> in
                    Some (Some (fl, False), put_prio rs s
                      (prio\<lparr>handle_alloc := ida, hash_fl_rules := hash_fl_rules prio @ [fl]\<rparr>) st))))
   }"

definition put_fl :: "ruleset_ptr \<Rightarrow> u16 \<Rightarrow> lsdn_flower_rule \<Rightarrow> rules \<Rightarrow> rules option" where
  "put_fl rs p fl st = do { (s, prio) \<leftarrow> get_prio st rs p; Some (put_prio rs s (set_fl fl prio) st) }"

definition lsdn_ruleset_add ::
    "callbacks \<Rightarrow> ruleset_ptr \<Rightarrow> u16 \<Rightarrow> rule_ptr \<Rightarrow> rules \<Rightarrow> (lsdn_err_t \<times> rules) option" where
  "lsdn_ruleset_add cb rs p r st = do {
     rule \<leftarrow> r_rules st r;
     (s, prio) \<leftarrow> get_prio st rs p;
     rule \<leftarrow> lsdn_rule_apply_mask (prio_targets prio) (prio_masks prio)
       (rule\<lparr>rule_prio := Some p, rule_ruleset := Some rs\<rparr>);
     (res, st) \<leftarrow> find_or_make_fl rs p (rule_matches rule) (put_rule r rule st);
     (case res of
        None \<Rightarrow> Some (LSDNE_NOMEM, st)
      | Some (fl, update) \<Rightarrow> do {
          let st = put_rule r (rule\<lparr>rule_fl := Some (fl_handle fl)\<rparr>) st;
          res \<leftarrow> insert_source (r_rules st) (rule_subprio rule) r (fl_sources fl);
          (case res of
             None \<Rightarrow> Some (LSDNE_DUPLICATE, st)
           | Some srcs \<Rightarrow> do {
               let fl = fl\<lparr>fl_sources := srcs\<rparr>;
               st \<leftarrow> put_fl rs p fl st;
               (err, st) \<leftarrow> flush_fl_rule cb fl rs p update st;
               if err = LSDNE_OK then Some (err, st)
               else do {
                 (ferr, st) \<leftarrow> free_fl_rule cb fl rs p st;
                 Some (acc_inconsistent err ferr, st)
               }
             })
        })
   }"

definition lsdn_ruleset_remove :: "callbacks \<Rightarrow> rule_ptr \<Rightarrow> rules \<Rightarrow> (lsdn_err_t \<times> rules) option" where
  "lsdn_ruleset_remove cb r st = do {
     rule \<leftarrow> r_rules st r;
     rs \<leftarrow> rule_ruleset rule;
     p \<leftarrow> rule_prio rule;
     h \<leftarrow> rule_fl rule;
     (s, prio) \<leftarrow> get_prio st rs p;
     fl \<leftarrow> fl_by_handle prio h;
     c_assert (r \<in> set (fl_sources fl));
     let fl = fl\<lparr>fl_sources := remove1 r (fl_sources fl)\<rparr>;
     st \<leftarrow> put_fl rs p fl st;
     (err, st) \<leftarrow> (if fl_sources fl = [] then free_fl_rule cb fl rs p st
                    else flush_fl_rule cb fl rs p True st);
     Some (err, put_rule r (rule\<lparr>rule_fl := None\<rparr>) st)
   }"

end
