(* ===== verification/RuleInv.thy ===== *)
theory RuleInv
  imports Rules
begin

text \<open>
  The invariant of the rule engine and its preservation: within a priority the masked matches and the
  handles of the flower rules are distinct, the handles come from the allocator, and the sources of a
  flower rule are live rules with its match, sorted by sub-priority, that point back to it.
\<close>

section \<open>The invariant\<close>

definition subprio_of :: "(rule_ptr \<Rightarrow> lsdn_rule option) \<Rightarrow> rule_ptr \<Rightarrow> u32" where
  "subprio_of rules r = (case rules r of None \<Rightarrow> 0 | Some rule \<Rightarrow> rule_subprio rule)"

definition source_ok ::
    "(rule_ptr \<Rightarrow> lsdn_rule option) \<Rightarrow> ruleset_ptr \<Rightarrow> u16 \<Rightarrow> lsdn_flower_rule \<Rightarrow> rule_ptr \<Rightarrow> bool" where
  "source_ok rules rs p fl r \<longleftrightarrow>
     (case rules r of
        None \<Rightarrow> False
      | Some rule \<Rightarrow> rule_ruleset rule = Some rs \<and> rule_prio rule = Some p \<and>
          rule_fl rule = Some (fl_handle fl) \<and> rule_matches rule = fl_matches fl)"

definition sources_sorted :: "(rule_ptr \<Rightarrow> lsdn_rule option) \<Rightarrow> rule_ptr list \<Rightarrow> bool" where
  "sources_sorted rules rs \<longleftrightarrow> sorted_wrt (\<lambda>a b. subprio_of rules a < subprio_of rules b) rs"

text \<open>\<open>ex\<close> holds the flower rules that may have no source, while one is being set up.\<close>

definition fl_inv ::
    "(ruleset_ptr \<times> u16 \<times> u32) set \<Rightarrow> (rule_ptr \<Rightarrow> lsdn_rule option) \<Rightarrow> ruleset_ptr \<Rightarrow> u16 \<Rightarrow> lsdn_flower_rule \<Rightarrow> bool" where
  "fl_inv ex rules rs p fl \<longleftrightarrow>
     (fl_sources fl = [] \<longrightarrow> (rs, p, fl_handle fl) \<in> ex) \<and>
     list_all (source_ok rules rs p fl) (fl_sources fl) \<and> sources_sorted rules (fl_sources fl)"

definition alloc_inv :: "lsdn_ruleset_prio \<Rightarrow> bool" where
  "alloc_inv prio \<longleftrightarrow>
     id_max (handle_alloc prio) = 0xFFFF \<and> 1 \<le> id_next (handle_alloc prio) \<and>
     id_next (handle_alloc prio) \<le> 0xFFFF \<and>
     list_all (\<lambda>fl. 1 \<le> fl_handle fl \<and> fl_handle fl < id_next (handle_alloc prio)) (hash_fl_rules prio)"

definition prio_inv ::
    "(ruleset_ptr \<times> u16 \<times> u32) set \<Rightarrow> (rule_ptr \<Rightarrow> lsdn_rule option) \<Rightarrow> ruleset_ptr \<Rightarrow> lsdn_ruleset_prio \<Rightarrow> bool" where
  "prio_inv ex rules rs prio \<longleftrightarrow>
     distinct (map fl_handle (hash_fl_rules prio)) \<and> distinct (map fl_matches (hash_fl_rules prio)) \<and>
     alloc_inv prio \<and> list_all (fl_inv ex rules rs (prio_num prio)) (hash_fl_rules prio)"

definition ruleset_inv ::
    "(ruleset_ptr \<times> u16 \<times> u32) set \<Rightarrow> (rule_ptr \<Rightarrow> lsdn_rule option) \<Rightarrow> ruleset_ptr \<Rightarrow> lsdn_ruleset \<Rightarrow> bool" where
  "ruleset_inv ex rules rs s \<longleftrightarrow>
     distinct (map prio_num (hash_prios s)) \<and> list_all (prio_inv ex rules rs) (hash_prios s)"

definition rules_inv_ex :: "(ruleset_ptr \<times> u16 \<times> u32) set \<Rightarrow> rules \<Rightarrow> bool" where
  "rules_inv_ex ex st \<longleftrightarrow> (\<forall>rs s. r_sets st rs = Some s \<longrightarrow> ruleset_inv ex (r_rules st) rs s)"

abbreviation rules_inv :: "rules \<Rightarrow> bool" where
  "rules_inv st \<equiv> rules_inv_ex {} st"

text \<open>A rule is linked when it is a source of some flower rule.\<close>

definition linked :: "rules \<Rightarrow> rule_ptr \<Rightarrow> bool" where
  "linked st r \<longleftrightarrow> (\<exists>rs s prio fl. r_sets st rs = Some s \<and> prio \<in> set (hash_prios s) \<and>
     fl \<in> set (hash_fl_rules prio) \<and> r \<in> set (fl_sources fl))"

section \<open>Tables\<close>

lemma get_prio_SomeD:
  assumes "get_prio st rs p = Some (s, prio)"
  shows "r_sets st rs = Some s" "find_prio s p = Some prio" "prio \<in> set (hash_prios s)" "prio_num prio = p"
  using assms by (auto simp: get_prio_def find_prio_def bind_eq_Some_conv dest: find_Some_D)

lemma fl_by_handle_SomeD:
  assumes "fl_by_handle prio h = Some fl"
  shows "fl \<in> set (hash_fl_rules prio)" "fl_handle fl = h"
  using assms by (auto simp: fl_by_handle_def dest: find_Some_D)

lemma find_fl_SomeD:
  assumes "find_fl prio ms = Some fl"
  shows "fl \<in> set (hash_fl_rules prio)" "fl_matches fl = ms"
  using assms by (auto simp: find_fl_def dest: find_Some_D)

lemma find_fl_None_iff: "find_fl prio ms = None \<longleftrightarrow> ms \<notin> fl_matches ` set (hash_fl_rules prio)"
  by (auto simp: find_fl_def find_None_iff)

lemma find_prio_None_iff: "find_prio s p = None \<longleftrightarrow> p \<notin> prio_num ` set (hash_prios s)"
  by (auto simp: find_prio_def find_None_iff)

lemma get_put_prio [simp]:
  assumes "get_prio st rs p = Some (s, prio)" "prio_num prio' = p"
  shows "get_prio (put_prio rs s prio' st) rs p = Some (set_prio prio' s, prio')"
proof -
  have "List.find (\<lambda>x. prio_num x = p) xs = Some prio \<Longrightarrow>
      List.find (\<lambda>x. prio_num x = p) (map (\<lambda>x. if prio_num x = p then prio' else x) xs) = Some prio'" for xs
    using assms(2) by (induction xs) auto
  then show ?thesis using assms
    by (auto simp: get_prio_def put_prio_def find_prio_def set_prio_def bind_eq_Some_conv)
qed

lemma get_prio_nl [simp]: "get_prio (st\<lparr>r_nl := nl\<rparr>) rs p = get_prio st rs p"
  by (simp add: get_prio_def)

lemma get_prio_put_rule [simp]: "get_prio (put_rule r rule st) rs p = get_prio st rs p"
  by (simp add: get_prio_def put_rule_def)

lemma put_prio_simps [simp]:
  "r_rules (put_prio rs s p st) = r_rules st" "r_nl (put_prio rs s p st) = r_nl st"
  "r_no_decommit (put_prio rs s p st) = r_no_decommit st"
  by (simp_all add: put_prio_def)

lemma put_rule_simps [simp]:
  "r_sets (put_rule r rule st) = r_sets st" "r_nl (put_rule r rule st) = r_nl st"
  "r_rules (put_rule r rule st) = (r_rules st)(r \<mapsto> rule)"
  "r_no_decommit (put_rule r rule st) = r_no_decommit st"
  by (simp_all add: put_rule_def)

lemma rules_inv_get:
  assumes "rules_inv_ex ex st" "get_prio st rs p = Some (s, prio)"
  shows "ruleset_inv ex (r_rules st) rs s" "prio_inv ex (r_rules st) rs prio"
  using assms get_prio_SomeD [OF assms(2)]
  by (auto simp: rules_inv_ex_def ruleset_inv_def list_all_iff)

lemma rules_inv_nl [simp]: "rules_inv_ex ex (st\<lparr>r_nl := nl\<rparr>) = rules_inv_ex ex st"
  by (simp add: rules_inv_ex_def)

lemma prio_num_set_prio: "map prio_num (hash_prios (set_prio p s)) = map prio_num (hash_prios s)"
  by (simp add: set_prio_def)

lemma rules_inv_put_prio:
  assumes inv: "rules_inv_ex ex st" and get: "get_prio st rs p = Some (s, prio)"
    and prio': "prio_num prio' = p" "prio_inv ex' (r_rules st) rs prio'"
    and ex: "\<And>rs' p' h. (rs', p', h) \<in> ex \<Longrightarrow> (rs', p') \<noteq> (rs, p) \<Longrightarrow> (rs', p', h) \<in> ex'"
  shows "rules_inv_ex ex' (put_prio rs s prio' st)"
proof -
  have keep: "prio_inv ex' (r_rules st) rs' x" if "prio_inv ex (r_rules st) rs' x" "(rs', prio_num x) \<noteq> (rs, p)" for rs' x
    using that ex by (auto simp: prio_inv_def fl_inv_def list_all_iff)
  have "ruleset_inv ex' (r_rules st) rs (set_prio prio' s)"
    using rules_inv_get [OF inv get] prio' keep
    by (auto simp: ruleset_inv_def prio_num_set_prio list_all_iff) (auto simp: set_prio_def)
  moreover have "ruleset_inv ex' (r_rules st) rs' s'" if "r_sets st rs' = Some s'" "rs' \<noteq> rs" for rs' s'
    using inv that keep by (auto simp: rules_inv_ex_def ruleset_inv_def list_all_iff)
  ultimately show ?thesis by (auto simp: rules_inv_ex_def put_prio_def)
qed

lemma sorted_wrt_eqI:
  "(\<And>a b. a \<in> set xs \<Longrightarrow> b \<in> set xs \<Longrightarrow> P a b = Q a b) \<Longrightarrow> sorted_wrt P xs = sorted_wrt Q xs"
  by (induction xs) auto

text \<open>Changing a rule that is no source keeps the invariant.\<close>

lemma fl_inv_put_rule:
  assumes "r \<notin> set (fl_sources fl)"
  shows "fl_inv ex (rules(r \<mapsto> rule)) rs p fl = fl_inv ex rules rs p fl"
proof -
  have "sorted_wrt (\<lambda>a b. subprio_of (rules(r \<mapsto> rule)) a < subprio_of (rules(r \<mapsto> rule)) b) (fl_sources fl) =
      sorted_wrt (\<lambda>a b. subprio_of rules a < subprio_of rules b) (fl_sources fl)"
    using assms by (intro sorted_wrt_eqI) (auto simp: subprio_of_def)
  moreover have "list_all (source_ok (rules(r \<mapsto> rule)) rs p fl) (fl_sources fl) =
      list_all (source_ok rules rs p fl) (fl_sources fl)"
    using assms by (intro list_all_cong) (auto simp: source_ok_def)
  ultimately show ?thesis by (simp add: fl_inv_def sources_sorted_def)
qed

lemma rules_inv_put_rule:
  assumes "rules_inv_ex ex st" "\<not> linked st r"
  shows "rules_inv_ex ex (put_rule r rule st)"
  using assms
  by (auto simp: rules_inv_ex_def ruleset_inv_def prio_inv_def list_all_iff linked_def fl_inv_put_rule)

lemma linked_put_rule [simp]: "linked (put_rule r' rule st) r = linked st r"
  by (simp add: linked_def)

lemma linked_nl [simp]: "linked (st\<lparr>r_nl := nl\<rparr>) r = linked st r"
  by (simp add: linked_def)

section \<open>The list of sources\<close>

lemma insert_source_spec:
  assumes "\<And>x. x \<in> set xs \<Longrightarrow> rules x \<noteq> None" "sources_sorted rules xs" "subprio_of rules r = sp"
    and "r \<notin> set xs"
  shows "\<exists>res. insert_source rules sp r xs = Some res \<and>
    (case res of
       None \<Rightarrow> \<exists>x\<in>set xs. subprio_of rules x = sp
     | Some ys \<Rightarrow> (\<forall>x\<in>set xs. subprio_of rules x \<noteq> sp) \<and> set ys = insert r (set xs) \<and> sources_sorted rules ys)"
  using assms
proof (induction xs)
  case Nil
  then show ?case by (simp add: sources_sorted_def)
next
  case (Cons x xs)
  obtain rule where rule: "rules x = Some rule" "rule_subprio rule = subprio_of rules x"
    using Cons.prems(1) [of x] by (auto simp: subprio_of_def)
  have sorted: "\<forall>y\<in>set xs. subprio_of rules x < subprio_of rules y" "sources_sorted rules xs"
    using Cons.prems(2) by (auto simp: sources_sorted_def)
  consider "subprio_of rules x = sp" | "sp < subprio_of rules x" | "subprio_of rules x < sp"
    by (meson linorder_less_linear)
  then show ?case
  proof cases
    case 1
    then show ?thesis using rule by simp
  next
    case 2
    then show ?thesis using rule sorted Cons.prems(3)
      by (auto simp: sources_sorted_def)
  next
    case 3
    obtain res where "insert_source rules sp r xs = Some res"
      "case res of None \<Rightarrow> \<exists>x\<in>set xs. subprio_of rules x = sp
       | Some ys \<Rightarrow> (\<forall>x\<in>set xs. subprio_of rules x \<noteq> sp) \<and> set ys = insert r (set xs) \<and> sources_sorted rules ys"
      using Cons.IH Cons.prems sorted(2) by auto
    then show ?thesis using rule 3 sorted(1) Cons.prems(3)
      by (auto simp: sources_sorted_def split: option.splits)
  qed
qed

lemma fl_inv_sources_alive: "fl_inv ex rules rs p fl \<Longrightarrow> x \<in> set (fl_sources fl) \<Longrightarrow> rules x \<noteq> None"
  by (auto simp: fl_inv_def list_all_iff source_ok_def split: option.splits)

section \<open>Every operation keeps the invariant\<close>

lemma r_malloc_simps:
  assumes "r_malloc st = (ok, st')"
  shows "r_sets st' = r_sets st" "r_rules st' = r_rules st" "nl_log (r_nl st') = nl_log (r_nl st)"
    "r_no_decommit st' = r_no_decommit st" "get_prio st' rs p = get_prio st rs p"
    "rules_inv_ex ex st' = rules_inv_ex ex st" "linked st' r = linked st r"
  using assms by (auto simp: r_malloc_def split: prod.splits)

lemma rules_inv_upd_set:
  assumes "rules_inv st" "ruleset_inv {} (r_rules st) rs s"
  shows "rules_inv (st\<lparr>r_sets := (r_sets st)(rs \<mapsto> s)\<rparr>)"
  using assms by (simp add: rules_inv_ex_def)

lemma rules_inv_init [inv_intros]:
  assumes "rules_inv st"
  shows "rules_inv (lsdn_ruleset_init rs iface ph ch ps pc st)"
  using assms by (simp add: rules_inv_ex_def lsdn_ruleset_init_def ruleset_inv_def)

lemma rules_inv_define_prio [inv_intros]:
  assumes "rules_inv st" "lsdn_ruleset_define_prio rs p st = Some (ok, st')"
  shows "rules_inv st'"
proof -
  have new: "prio_inv {} rules rs \<lparr>prio_num = p, prio_targets = ts, prio_masks = ms,
      handle_alloc = lsdn_idalloc_init 1 0xFFFF, hash_fl_rules = []\<rparr>" for rules ts ms
    by (simp add: prio_inv_def alloc_inv_def lsdn_idalloc_init_def)
  obtain s where s: "r_sets st rs = Some s" using assms(2)
    by (auto simp: lsdn_ruleset_define_prio_def bind_eq_Some_conv)
  show ?thesis
  proof (cases "find_prio s p")
    case None
    obtain ok1 st1 where m: "r_malloc st = (ok1, st1)" by fastforce
    have "rules_inv st1" using assms(1) r_malloc_simps(6) [OF m] by simp
    moreover have "ruleset_inv {} (r_rules st1) rs (s\<lparr>hash_prios := hash_prios s @ [x]\<rparr>)"
      if "prio_num x = p" "prio_inv {} (r_rules st1) rs x" for x
      using that assms(1) s None r_malloc_simps(2) [OF m]
      by (auto simp: rules_inv_ex_def ruleset_inv_def find_prio_None_iff)
    ultimately show ?thesis using assms(2) s None m new
      by (cases ok1) (auto simp: lsdn_ruleset_define_prio_def intro!: rules_inv_upd_set)
  next
    case (Some x)
    then show ?thesis using assms s by (simp add: lsdn_ruleset_define_prio_def)
  qed
qed

lemma rules_inv_remove_prio [inv_intros]:
  assumes "rules_inv st" "lsdn_ruleset_remove_prio rs p st = Some (e, st')"
  shows "rules_inv st'"
proof -
  obtain s prio where get: "get_prio st rs p = Some (s, prio)"
    and st': "st' = st\<lparr>r_sets := (r_sets st)(rs \<mapsto> s\<lparr>hash_prios := filter (\<lambda>x. prio_num x \<noteq> p) (hash_prios s)\<rparr>)\<rparr>"
    using assms(2) by (auto simp: lsdn_ruleset_remove_prio_def bind_eq_Some_conv)
  have "ruleset_inv {} (r_rules st) rs (s\<lparr>hash_prios := filter (\<lambda>x. prio_num x \<noteq> p) (hash_prios s)\<rparr>)"
    using rules_inv_get(1) [OF assms(1) get]
    by (auto simp: ruleset_inv_def list_all_iff distinct_map_filter)
  then show ?thesis unfolding st' by (rule rules_inv_upd_set [OF assms(1)])
qed

lemma rules_inv_free [inv_intros]:
  assumes "rules_inv st" "lsdn_ruleset_free rs st = Some st'"
  shows "rules_inv st'"
  using assms
  by (auto simp: lsdn_ruleset_free_def bind_eq_Some_conv ruleset_inv_def intro!: rules_inv_upd_set)

lemma prio_inv_targets [simp]:
  "prio_inv ex rules rs (prio\<lparr>prio_targets := ts, prio_masks := ms\<rparr>) = prio_inv ex rules rs prio"
  by (simp add: prio_inv_def alloc_inv_def)

lemma rules_inv_set_match [inv_intros]:
  assumes "rules_inv st" "prio_set_match rs p i t m st = Some st'"
  shows "rules_inv st'"
proof -
  obtain s prio where get: "get_prio st rs p = Some (s, prio)"
    and st': "st' = put_prio rs s (prio\<lparr>prio_targets := (prio_targets prio)[i := t],
       prio_masks := (prio_masks prio)[i := match_write m (prio_masks prio ! i)]\<rparr>) st"
    using assms(2) by (auto simp: prio_set_match_def bind_eq_Some_conv)
  show ?thesis unfolding st'
    by (rule rules_inv_put_prio [OF assms(1) get])
      (use rules_inv_get(2) [OF assms(1) get] get_prio_SomeD(4) [OF get] in auto)
qed

lemma flush_fl_rule_frame:
  assumes "flush_fl_rule cb fl rs p update st = Some (err, st')"
  shows "\<exists>nl. st' = st\<lparr>r_nl := nl\<rparr>"
  using assms by (auto simp: flush_fl_rule_def bind_eq_Some_conv case_prod_unfold split: option.splits)

lemma prio_inv_del_fl:
  "prio_inv ex rules rs prio \<Longrightarrow> prio_inv (ex - {(rs, prio_num prio, h)}) rules rs (del_fl h prio)"
  by (auto simp: prio_inv_def alloc_inv_def del_fl_def list_all_iff fl_inv_def distinct_map_filter)

lemma free_fl_rule_inv:
  assumes "rules_inv_ex ex st" "free_fl_rule cb fl rs p st = Some (err, st')"
    and "ex \<subseteq> {(rs, p, fl_handle fl)}"
  shows "rules_inv st'"
proof -
  obtain s prio nl where get: "get_prio st rs p = Some (s, prio)"
    and st': "st' = put_prio rs s (del_fl (fl_handle fl) prio) (st\<lparr>r_nl := nl\<rparr>)"
    using assms(2) by (auto simp: free_fl_rule_def bind_eq_Some_conv Let_def case_prod_unfold)
  have "prio_inv {} (r_rules st) rs (del_fl (fl_handle fl) prio)"
    using prio_inv_del_fl [OF rules_inv_get(2) [OF assms(1) get], of "fl_handle fl"] assms(3) get_prio_SomeD(4) [OF get]
    by (simp add: subset_singleton_iff Diff_eq_empty_iff [THEN iffD2])
  then show ?thesis unfolding st'
    by (intro rules_inv_put_prio [where ex = ex])
      (use assms(1,3) get get_prio_SomeD(4) [OF get] in \<open>auto simp: del_fl_def\<close>)
qed

text \<open>Finding or making the flower rule.\<close>

lemma alloc_inv_get:
  assumes "alloc_inv prio" "lsdn_idalloc_get (handle_alloc prio) = Some (h, ida)"
  shows "1 \<le> h" "h < id_next ida" "id_next ida \<le> 0xFFFF" "id_max ida = 0xFFFF" "h = id_next (handle_alloc prio)"
    "h \<notin> fl_handle ` set (hash_fl_rules prio)"
proof -
  have h: "h = id_next (handle_alloc prio)" "id_next ida = h + 1" "id_max ida = 0xFFFF" "h \<noteq> 0xFFFF"
    using assms by (auto simp: lsdn_idalloc_get_def alloc_inv_def split: if_splits)
  then have "1 \<le> h" "h \<le> 0xFFFF" using assms(1) by (simp_all add: alloc_inv_def)
  with h have "h < 0xFFFF" by simp
  then show "1 \<le> h" "h < id_next ida" "id_next ida \<le> 0xFFFF" "id_max ida = 0xFFFF" "h = id_next (handle_alloc prio)"
    using h \<open>1 \<le> h\<close> by (simp_all add: word_less_nat_alt word_le_nat_alt unat_word_ariths(1))
  show "h \<notin> fl_handle ` set (hash_fl_rules prio)"
    using assms(1) h(1) by (auto simp: alloc_inv_def list_all_iff)
qed

lemma find_or_make_fl_inv:
  assumes inv: "rules_inv st" and f: "find_or_make_fl rs p ms st = Some (res, st')"
  shows "case res of
      None \<Rightarrow> rules_inv st'
    | Some (fl, update) \<Rightarrow> rules_inv_ex (if update then {} else {(rs, p, fl_handle fl)}) st' \<and>
        fl_matches fl = ms \<and> (\<not> update \<longrightarrow> fl_sources fl = []) \<and>
        (\<exists>s prio. get_prio st' rs p = Some (s, prio) \<and> fl \<in> set (hash_fl_rules prio))"
proof -
  obtain s prio where get: "get_prio st rs p = Some (s, prio)"
    using f by (auto simp: find_or_make_fl_def bind_eq_Some_conv)
  note pinv = rules_inv_get(2) [OF inv get] and num = get_prio_SomeD(4) [OF get]
  show ?thesis
  proof (cases "find_fl prio ms")
    case (Some fl)
    then show ?thesis using f get inv find_fl_SomeD [OF Some] by (auto simp: find_or_make_fl_def)
  next
    case None
    show ?thesis
    proof (cases "lsdn_idalloc_get (handle_alloc prio)")
      case None': None
      then show ?thesis using f get None inv by (simp add: find_or_make_fl_def)
    next
      case (Some hi)
      obtain h ida where hi: "hi = (h, ida)" by (cases hi)
      obtain ok st1 where m: "r_malloc st = (ok, st1)" by fastforce
      note m_simps = r_malloc_simps [OF m]
      have al: "1 \<le> h" "h < id_next ida" "id_next ida \<le> 0xFFFF" "id_max ida = 0xFFFF"
        "h = id_next (handle_alloc prio)" "h \<notin> fl_handle ` set (hash_fl_rules prio)"
        using alloc_inv_get [of prio h ida] pinv Some hi by (auto simp: prio_inv_def)
      have below: "fl_handle x < id_next ida" if "x \<in> set (hash_fl_rules prio)" for x
        using pinv that al(2,5) by (auto simp: prio_inv_def alloc_inv_def list_all_iff intro: less_trans)
      have pos: "1 \<le> fl_handle x" if "x \<in> set (hash_fl_rules prio)" for x
        using pinv that by (auto simp: prio_inv_def alloc_inv_def list_all_iff)
      have nx: "1 \<le> id_next ida" using al(1,2) by (meson le_less_trans less_imp_le)
      show ?thesis
      proof (cases ok)
        case False
        have "prio_inv {} (r_rules st) rs (prio\<lparr>handle_alloc := ida\<rparr>)"
          using pinv al below pos nx by (auto simp: prio_inv_def alloc_inv_def list_all_iff)
        then have "rules_inv (put_prio rs s (prio\<lparr>handle_alloc := ida\<rparr>) st1)"
          by (intro rules_inv_put_prio [where ex = "{}" and p = p and prio = prio])
            (use inv m_simps get num in auto)
        then show ?thesis using f get None Some hi m False
          by (simp add: find_or_make_fl_def lsdn_idalloc_return_def)
      next
        case True
        let ?fl = "\<lparr>fl_matches = ms, fl_handle = h, fl_sources = []\<rparr>"
        let ?prio = "prio\<lparr>handle_alloc := ida, hash_fl_rules := hash_fl_rules prio @ [?fl]\<rparr>"
        have "ms \<notin> fl_matches ` set (hash_fl_rules prio)" using None by (simp add: find_fl_None_iff)
        then have "prio_inv {(rs, p, h)} (r_rules st) rs ?prio"
          using pinv al below pos nx num
          by (auto simp: prio_inv_def alloc_inv_def list_all_iff fl_inv_def sources_sorted_def)
        then have "rules_inv_ex {(rs, p, h)} (put_prio rs s ?prio st1)"
          by (intro rules_inv_put_prio [where ex = "{}" and p = p and prio = prio])
            (use inv m_simps get num in auto)
        then show ?thesis using f get None Some hi m True num m_simps(5) [of rs p]
          by (auto simp: find_or_make_fl_def Let_def)
      qed
    qed
  qed
qed

definition prio_sources :: "lsdn_ruleset_prio \<Rightarrow> rule_ptr set" where
  "prio_sources prio = (\<Union>fl\<in>set (hash_fl_rules prio). set (fl_sources fl))"

lemma linked_prio:
  "linked st r \<longleftrightarrow> (\<exists>rs s prio. r_sets st rs = Some s \<and> prio \<in> set (hash_prios s) \<and> r \<in> prio_sources prio)"
  by (auto simp: linked_def prio_sources_def)

lemma linked_put_prioD:
  assumes "linked (put_prio rs s prio' st) x" "r_sets st rs = Some s" "prio_sources prio' \<subseteq> prio_sources prio"
    "prio \<in> set (hash_prios s)"
  shows "linked st x"
  using assms
  by (auto simp: linked_prio put_prio_def set_prio_def split: if_splits)

lemma find_or_make_fl_linked:
  assumes "find_or_make_fl rs p ms st = Some (res, st')" "linked st' x"
  shows "linked st x"
proof -
  obtain s prio where get: "get_prio st rs p = Some (s, prio)"
    using assms(1) by (auto simp: find_or_make_fl_def bind_eq_Some_conv)
  obtain ok st1 where m: "r_malloc st = (ok, st1)" by fastforce
  have sets: "r_sets st1 rs = Some s" "prio \<in> set (hash_prios s)"
    using get_prio_SomeD [OF get] r_malloc_simps [OF m] by auto
  have step: "linked st x" if "st' = put_prio rs s prio' st1" "prio_sources prio' = prio_sources prio" for prio'
    using linked_put_prioD [of rs s prio' st1 x prio] that assms(2) sets r_malloc_simps [OF m] by simp
  show ?thesis using assms get m step
    by (auto simp: find_or_make_fl_def prio_sources_def Let_def split: option.splits prod.splits bool.splits)
qed

lemma source_ok_fl [simp]:
  "source_ok rules rs p (fl\<lparr>fl_sources := srcs\<rparr>) = source_ok rules rs p fl"
  by (rule ext) (simp add: source_ok_def split: option.split)

lemma put_fl_inv:
  assumes inv: "rules_inv_ex ex st" "ex \<subseteq> {(rs, p, fl_handle fl)}"
    and get: "get_prio st rs p = Some (s, prio)" "fl \<in> set (hash_fl_rules prio)"
    and srcs: "list_all (source_ok (r_rules st) rs p fl) srcs" "sources_sorted (r_rules st) srcs"
    and put: "put_fl rs p (fl\<lparr>fl_sources := srcs\<rparr>) st = Some st'"
    and ex': "ex' = (if srcs = [] then {(rs, p, fl_handle fl)} else {})"
  shows "rules_inv_ex ex' st'"
proof -
  let ?fl = "fl\<lparr>fl_sources := srcs\<rparr>"
  note pinv = rules_inv_get(2) [OF inv(1) get(1)] and num = get_prio_SomeD(4) [OF get(1)]
  have dist: "x = fl" if "x \<in> set (hash_fl_rules prio)" "fl_handle x = fl_handle fl" for x
    using pinv that get(2) by (auto simp: prio_inv_def distinct_map inj_on_def)
  have same: "map fl_handle (hash_fl_rules (set_fl ?fl prio)) = map fl_handle (hash_fl_rules prio)"
    "map fl_matches (hash_fl_rules (set_fl ?fl prio)) = map fl_matches (hash_fl_rules prio)"
    using dist by (auto simp: set_fl_def)
  have "fl_inv ex' (r_rules st) rs p ?fl" using srcs by (simp add: fl_inv_def source_ok_fl ex')
  moreover have "fl_inv ex' (r_rules st) rs p x" if "x \<in> set (hash_fl_rules prio)" "fl_handle x \<noteq> fl_handle fl" for x
    using pinv that inv(2) num by (auto simp: prio_inv_def list_all_iff fl_inv_def)
  ultimately have "list_all (fl_inv ex' (r_rules st) rs p) (hash_fl_rules (set_fl ?fl prio))"
    by (auto simp: list_all_iff set_fl_def)
  moreover have "alloc_inv (set_fl ?fl prio)"
    using pinv by (auto simp: prio_inv_def alloc_inv_def set_fl_def list_all_iff)
  ultimately have "prio_inv ex' (r_rules st) rs (set_fl ?fl prio)"
    using pinv same num by (simp add: prio_inv_def) (simp add: set_fl_def)
  then have "rules_inv_ex ex' (put_prio rs s (set_fl ?fl prio) st)"
    by (rule rules_inv_put_prio [OF inv(1) get(1), rotated]) (use inv(2) num in \<open>auto simp: set_fl_def\<close>)
  then show ?thesis using put get(1) by (simp add: put_fl_def)
qed

lemma put_fl_simps:
  assumes "put_fl rs p fl st = Some st'"
  shows "r_rules st' = r_rules st" "r_nl st' = r_nl st" "r_no_decommit st' = r_no_decommit st"
  using assms by (auto simp: put_fl_def bind_eq_Some_conv)

text \<open>The rule with its match masked as the priority says, as \<^verbatim>\<open>lsdn_ruleset_add\<close> stores it.\<close>

definition masked_rule :: "ruleset_ptr \<Rightarrow> u16 \<Rightarrow> rule_ptr \<Rightarrow> rules \<Rightarrow> lsdn_rule option" where
  "masked_rule rs p r st = do {
     rule \<leftarrow> r_rules st r;
     (s, prio) \<leftarrow> get_prio st rs p;
     lsdn_rule_apply_mask (prio_targets prio) (prio_masks prio) (rule\<lparr>rule_prio := Some p, rule_ruleset := Some rs\<rparr>)
   }"

text \<open>The three ways through \<^verbatim>\<open>lsdn_ruleset_add\<close>, with the states in between.\<close>

lemma lsdn_ruleset_add_cases:
  assumes inv: "rules_inv st" and fresh: "\<not> linked st r"
    and add: "lsdn_ruleset_add cb rs p r st = Some (err, st')"
  obtains
    (NoMem) rule where "masked_rule rs p r st = Some rule"
      "find_or_make_fl rs p (rule_matches rule) (put_rule r rule st) = Some (None, st')"
      "err = LSDNE_NOMEM" "rules_inv st'"
  | (Dup) rule fl st2 where "masked_rule rs p r st = Some rule"
      "find_or_make_fl rs p (rule_matches rule) (put_rule r rule st) = Some (Some (fl, True), st2)"
      "err = LSDNE_DUPLICATE" "st' = put_rule r (rule\<lparr>rule_fl := Some (fl_handle fl)\<rparr>) st2" "rules_inv st'"
      "\<exists>x\<in>set (fl_sources fl). subprio_of (r_rules st') x = rule_subprio rule"
  | (Ins) rule fl update st2 srcs st4 err1 st5 where "masked_rule rs p r st = Some rule"
      "find_or_make_fl rs p (rule_matches rule) (put_rule r rule st) = Some (Some (fl, update), st2)"
      "rules_inv_ex (if update then {} else {(rs, p, fl_handle fl)})
         (put_rule r (rule\<lparr>rule_fl := Some (fl_handle fl)\<rparr>) st2)"
      "r \<notin> set (fl_sources fl)" "set srcs = insert r (set (fl_sources fl))"
      "put_fl rs p (fl\<lparr>fl_sources := srcs\<rparr>) (put_rule r (rule\<lparr>rule_fl := Some (fl_handle fl)\<rparr>) st2) = Some st4"
      "rules_inv st4"
      "flush_fl_rule cb (fl\<lparr>fl_sources := srcs\<rparr>) rs p update st4 = Some (err1, st5)"
      "err1 = LSDNE_OK \<and> err = LSDNE_OK \<and> st' = st5 \<or>
       (\<exists>ferr. err1 \<noteq> LSDNE_OK \<and> free_fl_rule cb (fl\<lparr>fl_sources := srcs\<rparr>) rs p st5 = Some (ferr, st') \<and>
         err = acc_inconsistent err1 ferr)"
      "\<forall>x\<in>set (fl_sources fl). subprio_of (r_rules st4) x \<noteq> rule_subprio rule"
proof -
  obtain rule0 rule s prio res st2 where
    rule0: "r_rules st r = Some rule0" and get: "get_prio st rs p = Some (s, prio)"
    and rule: "lsdn_rule_apply_mask (prio_targets prio) (prio_masks prio)
        (rule0\<lparr>rule_prio := Some p, rule_ruleset := Some rs\<rparr>) = Some rule"
    and fm: "find_or_make_fl rs p (rule_matches rule) (put_rule r rule st) = Some (res, st2)"
    using add by (auto simp: lsdn_ruleset_add_def bind_eq_Some_conv)
  have masked: "masked_rule rs p r st = Some rule" using rule0 get rule by (simp add: masked_rule_def)
  have inv1: "rules_inv (put_rule r rule st)" using inv fresh by (rule rules_inv_put_rule)
  have fresh2: "\<not> linked st2 r" using find_or_make_fl_linked [OF fm] fresh by auto
  note fmi = find_or_make_fl_inv [OF inv1 fm]
  show ?thesis
  proof (cases res)
    case None
    then show ?thesis using NoMem [of rule] masked fmi add rule0 get rule fm by (simp add: lsdn_ruleset_add_def)
  next
    case (Some fu)
    obtain fl update where fu: "fu = (fl, update)" by (cases fu)
    let ?ex = "if update then {} else {(rs, p, fl_handle fl)}"
    let ?rule = "rule\<lparr>rule_fl := Some (fl_handle fl)\<rparr>"
    let ?st3 = "put_rule r ?rule st2"
    obtain s2 prio2 where fl: "rules_inv_ex ?ex st2" "fl_matches fl = rule_matches rule"
      "\<not> update \<longrightarrow> fl_sources fl = []" "get_prio st2 rs p = Some (s2, prio2)" "fl \<in> set (hash_fl_rules prio2)"
      using fmi Some fu by auto
    have inv3: "rules_inv_ex ?ex ?st3" using fl(1) fresh2 by (rule rules_inv_put_rule)
    have notin: "r \<notin> set (fl_sources fl)"
      using fresh2 fl(4,5) get_prio_SomeD [OF fl(4)] by (auto simp: linked_def)
    have flinv: "fl_inv ?ex (r_rules ?st3) rs p fl"
      using rules_inv_get(2) [OF inv3, of rs p s2 prio2] fl(4,5) get_prio_SomeD(4) [OF fl(4)]
      by (simp add: prio_inv_def list_all_iff)
    have src_r: "source_ok (r_rules ?st3) rs p fl r"
      using rule fl(2) by (auto simp: lsdn_rule_apply_mask_def bind_eq_Some_conv source_ok_def)
    obtain ins where ins: "insert_source (r_rules ?st3) (rule_subprio rule) r (fl_sources fl) = Some ins"
      "case ins of None \<Rightarrow> \<exists>x\<in>set (fl_sources fl). subprio_of (r_rules ?st3) x = rule_subprio rule
       | Some ys \<Rightarrow> (\<forall>x\<in>set (fl_sources fl). subprio_of (r_rules ?st3) x \<noteq> rule_subprio rule) \<and>
           set ys = insert r (set (fl_sources fl)) \<and> sources_sorted (r_rules ?st3) ys"
      using insert_source_spec [of "fl_sources fl" "r_rules ?st3" r "rule_subprio rule"]
        fl_inv_sources_alive [OF flinv] flinv notin by (auto simp: fl_inv_def subprio_of_def)
    have add': "(case ins of
             None \<Rightarrow> Some (LSDNE_DUPLICATE, ?st3)
           | Some srcs \<Rightarrow> do {
               st \<leftarrow> put_fl rs p (fl\<lparr>fl_sources := srcs\<rparr>) ?st3;
               (err, st) \<leftarrow> flush_fl_rule cb (fl\<lparr>fl_sources := srcs\<rparr>) rs p update st;
               if err = LSDNE_OK then Some (err, st)
               else do {
                 (ferr, st) \<leftarrow> free_fl_rule cb (fl\<lparr>fl_sources := srcs\<rparr>) rs p st;
                 Some (acc_inconsistent err ferr, st)
               }
             }) = Some (err, st')"
      using add rule0 get rule fm Some fu ins(1) by (simp add: lsdn_ruleset_add_def Let_def)
    show ?thesis
    proof (cases ins)
      case None
      then have "update" using ins(2) fl(3) by auto
      then show ?thesis using Dup [of rule fl st2] masked None ins fm Some fu inv3 add' by simp
    next
      case (Some srcs)
      then have srcs: "set srcs = insert r (set (fl_sources fl))" "sources_sorted (r_rules ?st3) srcs"
        "\<forall>x\<in>set (fl_sources fl). subprio_of (r_rules ?st3) x \<noteq> rule_subprio rule"
        using ins(2) by auto
      obtain st4 err1 st5 where st4: "put_fl rs p (fl\<lparr>fl_sources := srcs\<rparr>) ?st3 = Some st4"
        and st5: "flush_fl_rule cb (fl\<lparr>fl_sources := srcs\<rparr>) rs p update st4 = Some (err1, st5)"
        and rest: "err1 = LSDNE_OK \<and> err = LSDNE_OK \<and> st' = st5 \<or>
          (\<exists>ferr. err1 \<noteq> LSDNE_OK \<and> free_fl_rule cb (fl\<lparr>fl_sources := srcs\<rparr>) rs p st5 = Some (ferr, st') \<and>
            err = acc_inconsistent err1 ferr)"
        using add' Some by (auto simp: bind_eq_Some_conv split: if_splits)
      have "list_all (source_ok (r_rules ?st3) rs p fl) srcs"
        using flinv src_r srcs(1) by (auto simp: fl_inv_def list_all_iff)
      moreover have "srcs \<noteq> []" using srcs(1) by auto
      ultimately have "rules_inv st4"
        using put_fl_inv [OF inv3 _ _ fl(5) _ _ st4 refl] fl(4) srcs(2) by simp
      then show ?thesis
        using Ins [of rule fl update st2 srcs st4 err1 st5] masked fm \<open>res = Some fu\<close> fu inv3 notin srcs(1,3) st4 st5 rest
        by (simp add: put_fl_simps [OF st4])
    qed
  qed
qed

lemma rules_inv_add [inv_intros]:
  assumes "rules_inv st" "\<not> linked st r" "lsdn_ruleset_add cb rs p r st = Some (err, st')"
  shows "rules_inv st'"
  using assms
proof (cases rule: lsdn_ruleset_add_cases)
  case (Ins rule fl update st2 srcs st4 err1 st5)
  obtain nl where "st5 = st4\<lparr>r_nl := nl\<rparr>" using flush_fl_rule_frame [OF Ins(8)] by blast
  then have "rules_inv st5" using Ins(7) by simp
  then show ?thesis using Ins(9) free_fl_rule_inv [where ex = "{}"] by auto
qed

text \<open>A rule that points to a flower rule which does not have it as a source is not linked.\<close>

lemma source_of_linked:
  assumes "rules_inv_ex ex st" "r_sets st rs' = Some s'" "prio' \<in> set (hash_prios s')"
    "fl' \<in> set (hash_fl_rules prio')" "r \<in> set (fl_sources fl')"
  shows "source_ok (r_rules st) rs' (prio_num prio') fl' r"
  using assms by (auto simp: rules_inv_ex_def ruleset_inv_def prio_inv_def fl_inv_def list_all_iff)

lemma fl_unique:
  assumes "rules_inv_ex ex st" "get_prio st rs p = Some (s, prio)" "fl_by_handle prio h = Some fl"
    "prio' \<in> set (hash_prios s)" "prio_num prio' = p" "fl' \<in> set (hash_fl_rules prio')" "fl_handle fl' = h"
  shows "fl' = fl"
proof -
  note g = get_prio_SomeD [OF assms(2)] and i = rules_inv_get [OF assms(1,2)]
  have "prio' = prio" using i(1) g(3,4) assms(4,5) by (auto simp: ruleset_inv_def distinct_map inj_on_def)
  then show ?thesis
    using i(2) assms(6,7) fl_by_handle_SomeD [OF assms(3)] by (auto simp: prio_inv_def distinct_map inj_on_def)
qed

lemma not_linkedI:
  assumes "rules_inv_ex ex st" "r_rules st r = Some rule" "rule_ruleset rule = Some rs" "rule_prio rule = Some p"
    "rule_fl rule = Some h" "get_prio st rs p = Some (s, prio)" "fl_by_handle prio h = Some fl" "r \<notin> set (fl_sources fl)"
  shows "\<not> linked st r"
proof
  assume "linked st r"
  then obtain rs' s' prio' fl' where l: "r_sets st rs' = Some s'" "prio' \<in> set (hash_prios s')"
    "fl' \<in> set (hash_fl_rules prio')" "r \<in> set (fl_sources fl')" by (auto simp: linked_def)
  have "rs' = rs" "prio_num prio' = p" "fl_handle fl' = h"
    using source_of_linked [OF assms(1) l] assms(2-5) by (auto simp: source_ok_def)
  then have "fl' = fl" using fl_unique [OF assms(1,6,7), of prio' fl'] l get_prio_SomeD(1) [OF assms(6)] by simp
  then show False using l(4) assms(8) by simp
qed

lemma sources_distinct: "sources_sorted rules xs \<Longrightarrow> distinct xs"
  unfolding sources_sorted_def by (induction xs) auto

lemma sources_sorted_remove1: "sources_sorted rules xs \<Longrightarrow> sources_sorted rules (remove1 r xs)"
  unfolding sources_sorted_def by (induction xs) (auto dest: notin_set_remove1 [rotated])

lemma fl_by_handle_set_fl:
  "fl_by_handle prio (fl_handle fl) \<noteq> None \<Longrightarrow> fl_by_handle (set_fl fl prio) (fl_handle fl) = Some fl"
proof -
  have "List.find (\<lambda>x. fl_handle x = fl_handle fl) xs \<noteq> None \<Longrightarrow>
      List.find (\<lambda>x. fl_handle x = fl_handle fl) (map (\<lambda>x. if fl_handle x = fl_handle fl then fl else x) xs) = Some fl" for xs
    by (induction xs) auto
  then show "fl_by_handle prio (fl_handle fl) \<noteq> None \<Longrightarrow> fl_by_handle (set_fl fl prio) (fl_handle fl) = Some fl"
    by (simp add: fl_by_handle_def set_fl_def)
qed

lemma free_fl_rule_linked:
  assumes "free_fl_rule cb fl rs p st = Some (err, st')" "linked st' x"
  shows "linked st x"
proof -
  obtain s prio nl where get: "get_prio st rs p = Some (s, prio)"
    and st': "st' = put_prio rs s (del_fl (fl_handle fl) prio) (st\<lparr>r_nl := nl\<rparr>)"
    using assms(1) by (auto simp: free_fl_rule_def bind_eq_Some_conv Let_def case_prod_unfold)
  have "prio_sources (del_fl (fl_handle fl) prio) \<subseteq> prio_sources prio"
    by (auto simp: prio_sources_def del_fl_def)
  then show ?thesis
    using linked_put_prioD [of rs s _ "st\<lparr>r_nl := nl\<rparr>" x prio] assms(2) get_prio_SomeD [OF get] by (simp add: st')
qed

text \<open>The way through \<^verbatim>\<open>lsdn_ruleset_remove\<close>.\<close>

lemma lsdn_ruleset_remove_cases:
  assumes inv: "rules_inv st" and rem: "lsdn_ruleset_remove cb r st = Some (err, st')"
  obtains rule rs p s prio fl st4 st5 where
    "r_rules st r = Some rule" "rule_ruleset rule = Some rs" "rule_prio rule = Some p"
    "rule_fl rule = Some (fl_handle fl)" "get_prio st rs p = Some (s, prio)" "fl \<in> set (hash_fl_rules prio)"
    "r \<in> set (fl_sources fl)" "put_fl rs p (fl\<lparr>fl_sources := remove1 r (fl_sources fl)\<rparr>) st = Some st4"
    "rules_inv_ex (if remove1 r (fl_sources fl) = [] then {(rs, p, fl_handle fl)} else {}) st4"
    "\<not> linked st4 r"
    "(if remove1 r (fl_sources fl) = [] then free_fl_rule cb (fl\<lparr>fl_sources := remove1 r (fl_sources fl)\<rparr>) rs p st4
      else flush_fl_rule cb (fl\<lparr>fl_sources := remove1 r (fl_sources fl)\<rparr>) rs p True st4) = Some (err, st5)"
    "st' = put_rule r (rule\<lparr>rule_fl := None\<rparr>) st5"
proof -
  obtain rule rs p h s prio fl st4 st5 where
    rule: "r_rules st r = Some rule" "rule_ruleset rule = Some rs" "rule_prio rule = Some p" "rule_fl rule = Some h"
    and get: "get_prio st rs p = Some (s, prio)" and fl: "fl_by_handle prio h = Some fl" "r \<in> set (fl_sources fl)"
    and st4: "put_fl rs p (fl\<lparr>fl_sources := remove1 r (fl_sources fl)\<rparr>) st = Some st4"
    and st5: "(if remove1 r (fl_sources fl) = [] then free_fl_rule cb (fl\<lparr>fl_sources := remove1 r (fl_sources fl)\<rparr>) rs p st4
      else flush_fl_rule cb (fl\<lparr>fl_sources := remove1 r (fl_sources fl)\<rparr>) rs p True st4) = Some (err, st5)"
    and st': "st' = put_rule r (rule\<lparr>rule_fl := None\<rparr>) st5"
    using rem by (auto simp: lsdn_ruleset_remove_def bind_eq_Some_conv Let_def)
  let ?fl = "fl\<lparr>fl_sources := remove1 r (fl_sources fl)\<rparr>"
  note mem = fl_by_handle_SomeD [OF fl(1)]
  have flinv: "fl_inv {} (r_rules st) rs p fl"
    using rules_inv_get(2) [OF inv get] mem(1) get_prio_SomeD(4) [OF get] by (auto simp: prio_inv_def list_all_iff)
  then have srcs: "list_all (source_ok (r_rules st) rs p fl) (remove1 r (fl_sources fl))"
    "sources_sorted (r_rules st) (remove1 r (fl_sources fl))" "r \<notin> set (remove1 r (fl_sources fl))"
    using sources_distinct sources_sorted_remove1
    by (auto simp: fl_inv_def list_all_iff dest: notin_set_remove1 [rotated])
  have inv4: "rules_inv_ex (if remove1 r (fl_sources fl) = [] then {(rs, p, fl_handle fl)} else {}) st4"
    using put_fl_inv [OF inv _ get mem(1) srcs(1,2) st4 refl] by simp
  have st4_eq: "st4 = put_prio rs s (set_fl ?fl prio) st" using st4 get by (simp add: put_fl_def)
  have "prio_num (set_fl ?fl prio) = p" using get_prio_SomeD(4) [OF get] by (simp add: set_fl_def)
  then have get4: "get_prio st4 rs p = Some (set_prio (set_fl ?fl prio) s, set_fl ?fl prio)"
    using get by (simp add: st4_eq)
  have "fl_by_handle (set_fl ?fl prio) h = Some ?fl"
    using fl_by_handle_set_fl [of prio ?fl] fl(1) mem(2) by simp
  then have "\<not> linked st4 r"
    using not_linkedI [OF inv4 _ _ _ _ get4] rule srcs(3) by (simp add: st4_eq)
  with that rule get fl mem st4 inv4 st5 st' show thesis by blast
qed

lemma rules_inv_remove [inv_intros]:
  assumes "rules_inv st" "lsdn_ruleset_remove cb r st = Some (err, st')"
  shows "rules_inv st'"
  using assms
proof (cases rule: lsdn_ruleset_remove_cases)
  case (1 rule rs p s prio fl st4 st5)
  have "rules_inv st5 \<and> \<not> linked st5 r"
  proof (cases "remove1 r (fl_sources fl) = []")
    case True
    then show ?thesis
      using 1(9-11) free_fl_rule_inv [of "{(rs, p, fl_handle fl)}" st4] free_fl_rule_linked by fastforce
  next
    case False
    then show ?thesis using 1(9-11) flush_fl_rule_frame by fastforce
  qed
  then show ?thesis using 1(12) rules_inv_put_rule by simp
qed

end
