(* ===== verification/RuleProps.thy ===== *)
theory RuleProps
  imports RuleInv
begin

text \<open>
  What the rule engine guarantees: the properties of \<^verbatim>\<open>netmodel/rules.c\<close>, among them that the
  kernel's filters mirror the rule sets.
\<close>

section \<open>Masks\<close>

lemma length_mask_match:
  "mask_match t m v = Some w \<Longrightarrow> length v = 16 \<Longrightarrow> length m = 16 \<Longrightarrow> length w = 16"
  by (cases t) (auto simp: mask_match_def hard_mask_def c_assert_def LSDN_MAX_MATCH_LEN_def split: if_splits)

lemma map2_and_idem: "length xs = length ys \<Longrightarrow> map2 (AND) (map2 (AND) xs (ys :: u8 list)) ys = map2 (AND) xs ys"
  by (induction xs ys rule: list_induct2) (auto simp: and.assoc)

lemma mask_match_total: "\<exists>w. mask_match t m v = Some w"
  by (cases t) (auto simp: mask_match_def hard_mask_def LSDN_MAX_MATCH_LEN_def)

lemma mask_match_idem:
  assumes "mask_match t m v = Some w" "length v = 16" "length m = 16"
  shows "mask_match t m w = Some w"
  using assms map2_and_idem [of v m]
  by (cases t) (auto simp: mask_match_def hard_mask_def c_assert_def LSDN_MAX_MATCH_LEN_def split: if_splits)

section \<open>Duplicates\<close>

text \<open>The filter before keys and actions are added.\<close>

definition fl_base :: "callbacks \<Rightarrow> lsdn_ruleset \<Rightarrow> lsdn_ruleset_prio \<Rightarrow> lsdn_flower_rule \<Rightarrow> bool \<Rightarrow> lsdn_filter" where
  "fl_base cb s prio fl update =
     \<lparr>f_update = update,
      f_tcm = \<lparr>tcm_ifindex = cb_ifindex cb (rs_iface s), tcm_handle = fl_handle fl,
               tcm_parent = rs_parent_handle s, tcm_info = tc_info (tc_prio s prio)\<rparr>,
      f_head = [A_str (TC TCA_KIND) ''flower'', A_u32 (TC TCA_CHAIN) (rs_chain s)], f_opts = [], f_acts = None\<rparr>"

lemma lsdn_filter_flower_init_cases:
  assumes "lsdn_filter_flower_init idx h par ch pr nl = (fo, nl')"
  shows "nl_log nl' = nl_log nl"
    and "fo = None \<or> fo = Some \<lparr>f_update = False,
      f_tcm = \<lparr>tcm_ifindex = idx, tcm_handle = h, tcm_parent = par, tcm_info = tc_info pr\<rparr>,
      f_head = [A_str (TC TCA_KIND) ''flower'', A_u32 (TC TCA_CHAIN) ch], f_opts = [], f_acts = None\<rparr>"
  using assms
  by (auto simp: lsdn_filter_flower_init_def filter_init_def split: prod.splits bool.splits)

lemma flush_fl_rule_cases:
  assumes "flush_fl_rule cb fl rs p update st = Some (err, st')" "get_prio st rs p = Some (s, prio)"
  obtains
    (NoMem) nl where "err = LSDNE_NOMEM" "st' = st\<lparr>r_nl := nl\<rparr>" "nl_log nl = nl_log (r_nl st)"
  | (Sent) f nl r where "fl_build cb (r_rules st) prio fl (fl_base cb s prio fl update) = Some f"
      "st' = st\<lparr>r_nl := nl\<rparr>" "nl_log nl = (filter_create_msg f, r) # nl_log (r_nl st)"
      "err = LSDNE_OK \<longleftrightarrow> r = NL_error 0" "err = LSDNE_OK \<or> err = LSDNE_NETLINK"
proof -
  obtain fo nl1 where i: "lsdn_filter_flower_init (cb_ifindex cb (rs_iface s)) (fl_handle fl) (rs_parent_handle s)
      (rs_chain s) (tc_prio s prio) (r_nl st) = (fo, nl1)" by fastforce
  note ic = lsdn_filter_flower_init_cases [OF i]
  show thesis
  proof (cases fo)
    case None
    then show thesis using NoMem [of nl1] assms i ic by (simp add: flush_fl_rule_def)
  next
    case (Some f0)
    then have f0: "(if update then lsdn_filter_set_update f0 else f0) = fl_base cb s prio fl update"
      using ic(2) by (auto simp: fl_base_def lsdn_filter_set_update_def)
    obtain f where f: "fl_build cb (r_rules st) prio fl (fl_base cb s prio fl update) = Some f"
      using assms i Some f0 by (auto simp: flush_fl_rule_def bind_eq_Some_conv)
    obtain nl2 where c: "lsdn_filter_create f nl1 = (err, nl2)" and st': "st' = st\<lparr>r_nl := nl2\<rparr>"
      using assms i Some f0 f by (auto simp: flush_fl_rule_def split: prod.splits)
    from send_await_response_cases [OF c [unfolded lsdn_filter_create_def]] ic(1) Sent [OF f st']
    show thesis by auto
  qed
qed

lemma flush_fl_rule_err:
  assumes "flush_fl_rule cb fl rs p update st = Some (err, st')"
  shows "err \<in> {LSDNE_OK, LSDNE_NETLINK, LSDNE_NOMEM}"
proof -
  obtain s prio where "get_prio st rs p = Some (s, prio)"
    using assms by (auto simp: flush_fl_rule_def bind_eq_Some_conv)
  from assms this show ?thesis by (cases rule: flush_fl_rule_cases) auto
qed

text \<open>Some source in the priority has this masked match and this sub-priority.\<close>

definition has_twin :: "rules \<Rightarrow> lsdn_ruleset_prio \<Rightarrow> lsdn_rule \<Rightarrow> bool" where
  "has_twin st prio rule \<longleftrightarrow> (\<exists>x\<in>prio_sources prio. \<exists>rx. r_rules st x = Some rx \<and>
     rule_matches rx = rule_matches rule \<and> rule_subprio rx = rule_subprio rule)"

lemma find_or_make_fl_found:
  assumes "find_or_make_fl rs p ms st = Some (Some (fl, True), st')" "get_prio st rs p = Some (s, prio)"
  shows "st' = st" "find_fl prio ms = Some fl"
  using assms by (auto simp: find_or_make_fl_def Let_def split: option.splits prod.splits bool.splits)

lemma find_or_make_fl_absent:
  assumes "find_or_make_fl rs p ms st = Some (res, st')" "get_prio st rs p = Some (s, prio)"
    "res = None \<or> res = Some (fl, False)"
  shows "find_fl prio ms = None" "r_rules st' = r_rules st"
  using assms
  by (auto simp: find_or_make_fl_def Let_def r_malloc_simps split: option.splits prod.splits bool.splits)

lemma twin_fl:
  assumes inv: "rules_inv st" and get: "get_prio st rs p = Some (s, prio)"
  shows "has_twin st prio rule \<longleftrightarrow>
    (\<exists>fl x. find_fl prio (rule_matches rule) = Some fl \<and> x \<in> set (fl_sources fl) \<and>
      subprio_of (r_rules st) x = rule_subprio rule)"
proof -
  note pinv = rules_inv_get(2) [OF inv get] and num = get_prio_SomeD(4) [OF get]
  have src: "source_ok (r_rules st) rs p fl x" if "fl \<in> set (hash_fl_rules prio)" "x \<in> set (fl_sources fl)" for fl x
    using pinv that num by (auto simp: prio_inv_def list_all_iff fl_inv_def)
  have uniq: "find_fl prio (fl_matches fl) = Some fl" if "fl \<in> set (hash_fl_rules prio)" for fl
  proof (cases "find_fl prio (fl_matches fl)")
    case (Some fl')
    then show ?thesis
      using that find_fl_SomeD [OF Some] pinv by (auto simp: prio_inv_def distinct_map inj_on_def)
  qed (use that in \<open>simp add: find_fl_None_iff\<close>)
  show ?thesis
  proof
    assume "has_twin st prio rule"
    then obtain x rx fl where "fl \<in> set (hash_fl_rules prio)" "x \<in> set (fl_sources fl)" "r_rules st x = Some rx"
      "rule_matches rx = rule_matches rule" "rule_subprio rx = rule_subprio rule"
      by (auto simp: has_twin_def prio_sources_def)
    then show "\<exists>fl x. find_fl prio (rule_matches rule) = Some fl \<and> x \<in> set (fl_sources fl) \<and>
        subprio_of (r_rules st) x = rule_subprio rule"
      using src [of fl x] uniq [of fl] by (auto simp: source_ok_def subprio_of_def)
  next
    assume "\<exists>fl x. find_fl prio (rule_matches rule) = Some fl \<and> x \<in> set (fl_sources fl) \<and>
        subprio_of (r_rules st) x = rule_subprio rule"
    then obtain fl x where f: "find_fl prio (rule_matches rule) = Some fl" "x \<in> set (fl_sources fl)"
      "subprio_of (r_rules st) x = rule_subprio rule" by blast
    note m = find_fl_SomeD [OF f(1)]
    show "has_twin st prio rule"
      using src [OF m(1) f(2)] f m by (auto simp: has_twin_def prio_sources_def source_ok_def subprio_of_def split: option.splits)
  qed
qed

lemma subprio_of_put_rule: "x \<noteq> r \<Longrightarrow> subprio_of (rules(r \<mapsto> rule)) x = subprio_of rules x"
  by (simp add: subprio_of_def)

lemma put_fl_linked:
  assumes "put_fl rs p (fl\<lparr>fl_sources := srcs\<rparr>) st = Some st'" "get_prio st rs p = Some (s, prio)"
    "fl \<in> set (hash_fl_rules prio)" "linked st' x"
  shows "linked st x \<or> x \<in> set srcs"
proof -
  note g = get_prio_SomeD [OF assms(2)]
  have st': "st' = put_prio rs s (set_fl (fl\<lparr>fl_sources := srcs\<rparr>) prio) st"
    using assms(1,2) by (simp add: put_fl_def)
  have sub: "prio_sources (set_fl (fl\<lparr>fl_sources := srcs\<rparr>) prio) \<subseteq> prio_sources prio \<union> set srcs"
    by (auto simp: prio_sources_def set_fl_def split: if_splits)
  obtain rs' s' prio' where l: "r_sets st' rs' = Some s'" "prio' \<in> set (hash_prios s')" "x \<in> prio_sources prio'"
    using assms(4) by (auto simp: linked_prio)
  have "prio' \<in> set (hash_prios s') \<and> r_sets st rs' = Some s' \<or>
      rs' = rs \<and> (prio' = set_fl (fl\<lparr>fl_sources := srcs\<rparr>) prio \<or> prio' \<in> set (hash_prios s))"
    using l(1,2) by (auto simp: st' put_prio_def set_prio_def split: if_splits)
  then show ?thesis using l(3) sub g(1,3) by (auto simp: linked_prio)
qed

lemma linked_add:
  assumes inv: "rules_inv st" and fresh: "\<not> linked st r"
    and add: "lsdn_ruleset_add cb rs p r st = Some (err, st')" and x: "linked st' x"
  shows "linked st x \<or> x = r"
  using inv fresh add
proof (cases rule: lsdn_ruleset_add_cases)
  case (NoMem rule)
  then show ?thesis using find_or_make_fl_linked [OF NoMem(2)] x by auto
next
  case (Dup rule fl st2)
  then show ?thesis using find_or_make_fl_linked [OF Dup(2)] x by auto
next
  case (Ins rule fl update st2 srcs st4 err1 st5)
  obtain s2 prio2 where g2: "get_prio st2 rs p = Some (s2, prio2)" "fl \<in> set (hash_fl_rules prio2)"
    using find_or_make_fl_inv [OF rules_inv_put_rule [OF inv fresh] Ins(2)] by auto
  obtain nl where "st5 = st4\<lparr>r_nl := nl\<rparr>" using flush_fl_rule_frame [OF Ins(8)] by blast
  then have "linked st4 x" using Ins(9) x free_fl_rule_linked by fastforce
  then have "linked st2 x \<or> x \<in> set srcs" using put_fl_linked [OF Ins(6)] g2 by simp
  moreover have "linked st2 y" if "y \<in> set (fl_sources fl)" for y
    using that g2 get_prio_SomeD [OF g2(1)] by (auto simp: linked_def)
  ultimately have "linked st2 x \<or> x = r" using Ins(5) by auto
  then show ?thesis using find_or_make_fl_linked [OF Ins(2)] by auto
qed

text \<open>A rule set with one priority that matches the destination address, and three rules for it.\<close>

definition ex_nl :: nlenv where
  "ex_nl = \<lparr>nl_kernel = \<lambda>h m. NL_error 0, nl_ifindex = \<lambda>h n. 7, nl_xmittime = \<lambda>r b. b, nl_log = [], nl_oom = []\<rparr>"

definition ex_cb :: callbacks where
  "ex_cb = \<lparr>cb_ifindex = \<lambda>i. 7, cb_mkaction = \<lambda>fn n f. Some (lsdn_action_drop n f)\<rparr>"

definition ex_rule :: "u32 \<Rightarrow> lsdn_rule" where
  "ex_rule sp = \<lparr>rule_matches = [replicate 16 1, replicate 16 0], rule_action = lsdn_action_init 1 Fn_drop,
     rule_subprio = sp, rule_ruleset = None, rule_prio = None, rule_fl = None\<rparr>"

definition ex_prio :: lsdn_ruleset_prio where
  "ex_prio = \<lparr>prio_num = 1, prio_targets = [LSDN_MATCH_DST_MAC, LSDN_MATCH_NONE],
     prio_masks = [replicate 6 0xFF @ replicate 10 0, replicate 16 0],
     handle_alloc = lsdn_idalloc_init 1 0xFFFF, hash_fl_rules = []\<rparr>"

definition ex_rules :: rules where
  "ex_rules = \<lparr>r_nl = ex_nl, r_no_decommit = False,
     r_sets = [RS_virt_in 1 \<mapsto> \<lparr>rs_iface = IF_committed 1, rs_parent_handle = LSDN_INGRESS_HANDLE, rs_chain = 0,
       rs_prio_start = 0, rs_prio_count = 100, hash_prios = [ex_prio]\<rparr>],
     r_rules = [R_vr 1 \<mapsto> ex_rule 0, R_vr 2 \<mapsto> ex_rule 1, R_vr 3 \<mapsto> ex_rule 0]\<rparr>"

lemma ex_rules_inv: "rules_inv ex_rules"
  by (simp add: rules_inv_ex_def ruleset_inv_def prio_inv_def alloc_inv_def ex_rules_def ex_prio_def lsdn_idalloc_init_def)

lemma ex_not_linked: "\<not> linked ex_rules r"
  by (simp add: linked_def ex_rules_def ex_prio_def)

text \<open>
  C8. \<^verbatim>\<open>lsdn_ruleset_add\<close> refuses a rule as a duplicate exactly when the priority already has a
  rule with the same match, compared under the priority's masks, and the same sub-priority.
\<close>

theorem lsdn_ruleset_add_duplicate:
  assumes inv: "rules_inv st" and fresh: "\<not> linked st r"
    and add: "lsdn_ruleset_add cb rs p r st = Some (err, st')"
    and rule: "masked_rule rs p r st = Some rule" and get: "get_prio st rs p = Some (s, prio)"
  shows "err = LSDNE_DUPLICATE \<longleftrightarrow> has_twin st prio rule"
  using inv fresh add
proof (cases rule: lsdn_ruleset_add_cases)
  case (NoMem rule')
  then have "find_fl prio (rule_matches rule) = None"
    using find_or_make_fl_absent(1) [OF NoMem(2)] get rule by simp
  then show ?thesis using twin_fl [OF inv get] NoMem(3) by simp
next
  case (Dup rule' fl st2)
  have f: "st2 = put_rule r rule st" "find_fl prio (rule_matches rule) = Some fl"
    using find_or_make_fl_found [OF Dup(2)] get rule Dup(1) by auto
  have "r \<notin> set (fl_sources fl)"
    using fresh find_fl_SomeD(1) [OF f(2)] get_prio_SomeD [OF get] by (auto simp: linked_def)
  then show ?thesis using Dup(1,3,4,6) rule f twin_fl [OF inv get]
    by (auto simp: subprio_of_def split: if_splits)
next
  case (Ins rule' fl update st2 srcs st4 err1 st5)
  have "err \<noteq> LSDNE_DUPLICATE" using Ins(9) flush_fl_rule_err [OF Ins(8)] by (auto simp: acc_inconsistent_def split: if_splits)
  moreover have "\<not> has_twin st prio rule"
  proof (cases update)
    case True
    have f: "st2 = put_rule r rule st" "find_fl prio (rule_matches rule) = Some fl"
      using find_or_make_fl_found [of rs p "rule_matches rule" _ fl st2] Ins(1,2) get rule True by auto
    have "subprio_of (r_rules st) x \<noteq> rule_subprio rule" if x: "x \<in> set (fl_sources fl)" for x
    proof -
      have "x \<noteq> r" using x Ins(4) by auto
      then have "subprio_of (r_rules st4) x = subprio_of (r_rules st) x"
        using put_fl_simps(1) [OF Ins(6)] f(1) by (simp add: subprio_of_put_rule)
      then show ?thesis using Ins(1,10) rule x by force
    qed
    then show ?thesis using twin_fl [OF inv get] f(2) by auto
  next
    case False
    then have "find_fl prio (rule_matches rule) = None"
      using find_or_make_fl_absent(1) [OF Ins(2)] get rule Ins(1) by simp
    then show ?thesis using twin_fl [OF inv get] by simp
  qed
  ultimately show ?thesis by simp
qed

theorem lsdn_ruleset_add_duplicate_witness:
  "\<exists>st st' s prio rule. lsdn_ruleset_add ex_cb (RS_virt_in 1) 1 (R_vr 1) ex_rules = Some (LSDNE_OK, st) \<and>
     lsdn_ruleset_add ex_cb (RS_virt_in 1) 1 (R_vr 3) st = Some (LSDNE_DUPLICATE, st') \<and>
     get_prio st (RS_virt_in 1) 1 = Some (s, prio) \<and> masked_rule (RS_virt_in 1) 1 (R_vr 3) st = Some rule \<and>
     has_twin st prio rule"
proof -
  have ev: "(case lsdn_ruleset_add ex_cb (RS_virt_in 1) 1 (R_vr 1) ex_rules of
      None \<Rightarrow> False
    | Some (e, st) \<Rightarrow> e = LSDNE_OK \<and>
        map_option fst (lsdn_ruleset_add ex_cb (RS_virt_in 1) 1 (R_vr 3) st) = Some LSDNE_DUPLICATE \<and>
        masked_rule (RS_virt_in 1) 1 (R_vr 3) st \<noteq> None \<and> get_prio st (RS_virt_in 1) 1 \<noteq> None)"
    by code_simp
  then obtain st where add: "lsdn_ruleset_add ex_cb (RS_virt_in 1) 1 (R_vr 1) ex_rules = Some (LSDNE_OK, st)"
    by (cases "lsdn_ruleset_add ex_cb (RS_virt_in 1) 1 (R_vr 1) ex_rules") auto
  from ev [unfolded add, simplified] obtain st' rule s prio where
    dup: "lsdn_ruleset_add ex_cb (RS_virt_in 1) 1 (R_vr 3) st = Some (LSDNE_DUPLICATE, st')"
    and rule: "masked_rule (RS_virt_in 1) 1 (R_vr 3) st = Some rule" and get: "get_prio st (RS_virt_in 1) 1 = Some (s, prio)"
    by auto
  have "rules_inv st" "\<not> linked st (R_vr 3)"
    using rules_inv_add [OF ex_rules_inv ex_not_linked add] linked_add [OF ex_rules_inv ex_not_linked add, of "R_vr 3"]
      ex_not_linked by auto
  then have "has_twin st prio rule" using lsdn_ruleset_add_duplicate [OF _ _ dup rule get] by blast
  then show ?thesis using add dup rule get by blast
qed

section \<open>The invariant of every reachable state\<close>

text \<open>
  The engine's operations as steps. Rules are set up while they are not installed, and a rule is added
  only when it is not installed already; an added rule may be refused for any reason.
\<close>

inductive rules_step :: "rules \<Rightarrow> rules \<Rightarrow> bool" where
  step_init: "rules_step st (lsdn_ruleset_init rs iface parent chain start cnt st)"
| step_define: "lsdn_ruleset_define_prio rs p st = Some (ok, st') \<Longrightarrow> rules_step st st'"
| step_match: "prio_set_match rs p i t m st = Some st' \<Longrightarrow> rules_step st st'"
| step_remove_prio: "lsdn_ruleset_remove_prio rs p st = Some (err, st') \<Longrightarrow> rules_step st st'"
| step_free: "lsdn_ruleset_free rs st = Some st' \<Longrightarrow> rules_step st st'"
| step_rule: "\<not> linked st r \<Longrightarrow> rules_step st (put_rule r rule st)"
| step_add: "\<not> linked st r \<Longrightarrow> lsdn_ruleset_add cb rs p r st = Some (err, st') \<Longrightarrow> rules_step st st'"
| step_remove: "lsdn_ruleset_remove cb r st = Some (err, st') \<Longrightarrow> rules_step st st'"

lemma rules_step_inv: "rules_step st st' \<Longrightarrow> rules_inv st \<Longrightarrow> rules_inv st'"
  by (induction rule: rules_step.induct) (auto intro: inv_intros rules_inv_put_rule)

text \<open>
  C7. In every state the engine reaches, through successes and failures alike, each priority has one flower
  rule per masked match, its handles lie between 1 and 0xFFFE and are distinct, no
  flower rule is empty, and its sources are live rules that have its match, point back to it and are
  strictly sorted by sub-priority.
\<close>

theorem rules_reachable_inv:
  assumes "rules_step\<^sup>*\<^sup>* st0 st" "r_sets st0 = Map.empty"
    and "r_sets st rs = Some s" "prio \<in> set (hash_prios s)"
  shows "distinct (map fl_matches (hash_fl_rules prio)) \<and> distinct (map fl_handle (hash_fl_rules prio)) \<and>
    (\<forall>fl\<in>set (hash_fl_rules prio). 1 \<le> fl_handle fl \<and> fl_handle fl \<le> 0xFFFE \<and> fl_sources fl \<noteq> [] \<and>
      sources_sorted (r_rules st) (fl_sources fl) \<and>
      (\<forall>r\<in>set (fl_sources fl). source_ok (r_rules st) rs (prio_num prio) fl r))"
proof -
  have "rules_inv st0" using assms(2) by (simp add: rules_inv_ex_def)
  with assms(1) have "rules_inv st" by (induction rule: rtranclp_induct) (auto intro: rules_step_inv)
  then have "prio_inv {} (r_rules st) rs prio" using assms(3,4) by (auto simp: rules_inv_ex_def ruleset_inv_def list_all_iff)
  moreover have "fl_handle fl \<le> 0xFFFE" if "fl_handle fl < n" "n \<le> 0xFFFF" for fl and n :: u32
    using that by (simp add: word_less_nat_alt word_le_nat_alt)
  ultimately show ?thesis
    by (auto simp: prio_inv_def alloc_inv_def fl_inv_def list_all_iff)
qed

theorem rules_reachable_inv_witness:
  "\<exists>st s prio. rules_step\<^sup>*\<^sup>* (ex_rules\<lparr>r_sets := Map.empty\<rparr>) st \<and> r_sets st (RS_virt_in 1) = Some s \<and>
     prio \<in> set (hash_prios s) \<and> distinct (map fl_handle (hash_fl_rules prio))"
proof -
  let ?st0 = "ex_rules\<lparr>r_sets := Map.empty\<rparr>"
  let ?st1 = "lsdn_ruleset_init (RS_virt_in 1) (IF_committed 1) 0 0 0 100 ?st0"
  obtain st where st: "lsdn_ruleset_define_prio (RS_virt_in 1) 1 ?st1 = Some (True, st)"
    and "\<exists>s prio. r_sets st (RS_virt_in 1) = Some s \<and> prio \<in> set (hash_prios s)"
    by (simp add: lsdn_ruleset_define_prio_def lsdn_ruleset_init_def find_prio_def r_malloc_def nl_malloc_def
        ex_rules_def ex_nl_def)
  then obtain s prio where s: "r_sets st (RS_virt_in 1) = Some s" "prio \<in> set (hash_prios s)" by blast
  have "rules_step\<^sup>*\<^sup>* ?st0 st"
    using step_init [of ?st0] step_define [OF st] by (meson rtranclp.rtrancl_into_rtrancl r_into_rtranclp)
  then show ?thesis using rules_reachable_inv [of ?st0 st "RS_virt_in 1" s prio] s by auto
qed

end
