(* ===== verification/RuleMirror.thy ===== *)
theory RuleMirror
  imports RuleProps
begin

text \<open>
  The kernel's filters mirror the rule sets: as long as the engine does not report an inconsistency, the
  filters that the acknowledged requests have installed for a rule set are exactly its flower rules, each
  with the keys and actions its sources ask for.
\<close>

section \<open>What a callback may do\<close>

text \<open>
  An action callback appends attributes that do not depend on the filter, as every callback of the
  program does: it only calls the \<^verbatim>\<open>lsdn_action_*\<close> functions.
\<close>

definition cb_appends :: "callbacks \<Rightarrow> bool" where
  "cb_appends cb \<longleftrightarrow> (\<forall>fn n. (\<forall>f. cb_mkaction cb fn n f = None) \<or>
     (\<exists>as. \<forall>f. cb_mkaction cb fn n f = Some (fold attr_put as f)))"

lemma add_source_actions_shape:
  assumes "cb_appends cb"
  shows "(\<forall>f. add_source_actions cb rules srcs n f = None) \<or>
    (\<exists>as. \<forall>f. add_source_actions cb rules srcs n f = Some (fold attr_put as f))"
proof (induction srcs arbitrary: n)
  case Nil
  have "\<forall>f. add_source_actions cb rules [] n f = Some (fold attr_put [] f)" by simp
  then show ?case by blast
next
  case (Cons r srcs)
  show ?case
  proof (cases "rules r")
    case None
    then show ?thesis by simp
  next
    case (Some rule)
    let ?k = "n + actions_count (rule_action rule)"
    show ?thesis
    proof (cases "?k \<le> LSDN_MAX_ACT_PRIO \<and> (\<exists>f. cb_mkaction cb (act_fn (rule_action rule)) (of_nat n) f \<noteq> None)")
      case False
      then show ?thesis using Some by (auto simp: c_assert_def)
    next
      case True
      moreover have "(\<forall>f. cb_mkaction cb (act_fn (rule_action rule)) (of_nat n) f = None) \<or>
          (\<exists>as. \<forall>f. cb_mkaction cb (act_fn (rule_action rule)) (of_nat n) f = Some (fold attr_put as f))"
        using assms by (simp add: cb_appends_def)
      ultimately obtain as where as: "cb_mkaction cb (act_fn (rule_action rule)) (of_nat n) f = Some (fold attr_put as f)" for f
        by auto
      from Cons.IH [of ?k] show ?thesis
      proof
        assume "\<exists>bs. \<forall>f. add_source_actions cb rules srcs ?k f = Some (fold attr_put bs f)"
        then obtain bs where "add_source_actions cb rules srcs ?k f = Some (fold attr_put bs f)" for f by blast
        then have "\<forall>f. add_source_actions cb rules (r # srcs) n f = Some (fold attr_put (as @ bs) f)"
          using Some True as by simp
        then show ?thesis by blast
      qed (use Some True as in simp)
    qed
  qed
qed

lemma attr_put_opts: "f_acts f = None \<Longrightarrow> attr_put a f = f\<lparr>f_opts := f_opts f @ [a]\<rparr>"
  by (simp add: attr_put_def)

lemma fold_attr_put_acts:
  "f_acts f = Some (t, bs) \<Longrightarrow> fold attr_put as f = f\<lparr>f_acts := Some (t, bs @ as)\<rparr>"
  by (induction as arbitrary: f bs) (simp_all add: attr_put_def)

lemma flower_add_key_shape:
  "\<exists>as. \<forall>f. f_acts f = None \<longrightarrow> flower_add_key t v m f = f\<lparr>f_opts := f_opts f @ as\<rparr>"
proof -
  have set: "\<exists>as. \<forall>f. f_acts f = None \<longrightarrow> flower_set k n a b f = f\<lparr>f_opts := f_opts f @ as\<rparr>" for k n a b
    by (intro exI [of _ "[A_bytes (FLOWER_KEY k) (take n a), A_bytes (FLOWER_MASK k) (take n b)]"])
      (simp add: flower_set_def attr_put_opts)
  have id: "\<exists>as. \<forall>f. f_acts f = None \<longrightarrow> lsdn_flower_set_enc_key_id w f = f\<lparr>f_opts := f_opts f @ as\<rparr>" for w
    by (intro exI [of _ "[A_u32 (FLOWER_KEY KEY_ENC_KEY_ID) (htonl w)]"])
      (simp add: lsdn_flower_set_enc_key_id_def attr_put_opts)
  have none: "\<exists>as. \<forall>f. f_acts f = None \<longrightarrow> f = f\<lparr>f_opts := f_opts f @ as\<rparr>" for f :: lsdn_filter
    by (intro exI [of _ "[]"]) simp
  have none': "\<exists>as. \<forall>f :: lsdn_filter. f_acts f = None \<longrightarrow> f = f\<lparr>f_opts := f_opts f @ as\<rparr>"
    by (intro exI [of _ "[]"]) simp
  show ?thesis
    by (cases t)
      (simp_all add: set id none' lsdn_flower_set_src_mac_def lsdn_flower_set_dst_mac_def
        lsdn_flower_set_src_ipv4_def lsdn_flower_set_dst_ipv4_def lsdn_flower_set_src_ipv6_def
        lsdn_flower_set_dst_ipv6_def lsdn_flower_set_enc_src_ipv4_def lsdn_flower_set_enc_dst_ipv4_def
        lsdn_flower_set_enc_src_ipv6_def lsdn_flower_set_enc_dst_ipv6_def)
qed

text \<open>Building a filter appends options that do not depend on the filter's header.\<close>

lemma fl_build_shape:
  assumes "cb_appends cb"
  shows "(\<forall>f. f_acts f = None \<longrightarrow> fl_build cb rules prio fl f = None) \<or>
    (\<exists>as. \<forall>f. f_acts f = None \<longrightarrow> fl_build cb rules prio fl f = Some (f\<lparr>f_opts := f_opts f @ as\<rparr>))"
proof (cases "find_common_ethtype prio")
  case None
  then show ?thesis by (simp add: fl_build_def)
next
  case (Some eth)
  let ?key = "\<lambda>i. flower_add_key (prio_targets prio ! i) (fl_matches fl ! i) (prio_masks prio ! i)"
  obtain k0 k1 where k: "f_acts f = None \<Longrightarrow> ?key 0 f = f\<lparr>f_opts := f_opts f @ k0\<rparr>"
    "f_acts f = None \<Longrightarrow> ?key 1 f = f\<lparr>f_opts := f_opts f @ k1\<rparr>" for f
    using flower_add_key_shape by metis
  have keys: "flower_add_keys prio fl f = f\<lparr>f_opts := f_opts f @ k0 @ k1\<rparr>" if "f_acts f = None" for f
    using that k by (simp add: flower_add_keys_def LSDN_MAX_MATCHES_def upt_rec)
  define e where "e = (if eth \<noteq> ETH_P_ALL then [A_u16 (FLOWER_KEY KEY_ETH_TYPE) (htons eth)] else [])"
  have eth: "(if eth \<noteq> ETH_P_ALL then lsdn_flower_set_eth_type (htons eth) f else f) = f\<lparr>f_opts := f_opts f @ e\<rparr>"
    if "f_acts f = None" for f
    using that by (simp add: e_def lsdn_flower_set_eth_type_def attr_put_opts)
  from add_source_actions_shape [OF assms, of rules "fl_sources fl" 1] show ?thesis
  proof
    assume "\<exists>as. \<forall>f. add_source_actions cb rules (fl_sources fl) 1 f = Some (fold attr_put as f)"
    then obtain as where as: "add_source_actions cb rules (fl_sources fl) 1 f = Some (fold attr_put as f)" for f by blast
    have "fl_build cb rules prio fl f = Some (f\<lparr>f_opts := f_opts f @ e @ k0 @ k1 @ [A_nest (TC TCA_FLOWER_ACT) as]\<rparr>)"
      if "f_acts f = None" for f
      using that Some eth keys as
      by (simp add: fl_build_def Let_def lsdn_flower_actions_start_def filter_actions_start_def
          fold_attr_put_acts lsdn_flower_actions_end_def filter_actions_end_def)
    then show ?thesis by blast
  qed (use Some in \<open>simp add: fl_build_def\<close>)
qed

section \<open>The view of a rule set\<close>

definition fl_attrs ::
    "callbacks \<Rightarrow> (rule_ptr \<Rightarrow> lsdn_rule option) \<Rightarrow> lsdn_ruleset \<Rightarrow> lsdn_ruleset_prio \<Rightarrow> lsdn_flower_rule \<Rightarrow> nlattr list option" where
  "fl_attrs cb rules s prio fl =
     map_option (\<lambda>f. nm_attrs (filter_create_msg f)) (fl_build cb rules prio fl (fl_base cb s prio fl False))"

lemma fl_build_update:
  assumes "cb_appends cb" "fl_build cb rules prio fl (fl_base cb s prio fl u) = Some f"
  shows "fl_attrs cb rules s prio fl = Some (nm_attrs (filter_create_msg f))"
    "nm_hdr (filter_create_msg f) = Tcmsg (f_tcm (fl_base cb s prio fl False))"
    "msg_chain (nm_attrs (filter_create_msg f)) = rs_chain s" "nm_type (filter_create_msg f) = RTM_NEWTFILTER"
  using fl_build_shape [OF assms(1), of rules prio fl] assms(2)
  by (auto simp: fl_attrs_def fl_base_def filter_create_msg_def)

definition prio_view ::
    "callbacks \<Rightarrow> (rule_ptr \<Rightarrow> lsdn_rule option) \<Rightarrow> lsdn_ruleset \<Rightarrow> lsdn_ruleset_prio \<Rightarrow> (u32 \<times> u32 \<times> nlattr list option) set" where
  "prio_view cb rules s prio =
     (\<lambda>fl. (tc_info (tc_prio s prio), fl_handle fl, fl_attrs cb rules s prio fl)) ` set (hash_fl_rules prio)"

definition ruleset_view ::
    "callbacks \<Rightarrow> (rule_ptr \<Rightarrow> lsdn_rule option) \<Rightarrow> lsdn_ruleset \<Rightarrow> (u32 \<times> u32 \<times> nlattr list option) set" where
  "ruleset_view cb rules s = (\<Union>prio\<in>set (hash_prios s). prio_view cb rules s prio)"

text \<open>
  The mirror property of a rule set: for its interface, parent and chain, the table of filters has
  exactly its flower rules.
\<close>

definition mirrored :: "callbacks \<Rightarrow> rules \<Rightarrow> ruleset_ptr \<Rightarrow> bool" where
  "mirrored cb st rs \<longleftrightarrow> (case r_sets st rs of
       None \<Rightarrow> False
     | Some s \<Rightarrow> \<forall>info h.
         (case filter_table (nl_log (r_nl st)) (\<lparr>tcm_ifindex = cb_ifindex cb (rs_iface s), tcm_handle = h,
                tcm_parent = rs_parent_handle s, tcm_info = info\<rparr>, rs_chain s) of
            None \<Rightarrow> \<not> (\<exists>b. (info, h, b) \<in> ruleset_view cb (r_rules st) s)
          | Some a \<Rightarrow> (info, h, Some a) \<in> ruleset_view cb (r_rules st) s))"

text \<open>The view without the entry of one flower rule.\<close>

definition view_but ::
    "u32 \<times> u32 \<Rightarrow> callbacks \<Rightarrow> (rule_ptr \<Rightarrow> lsdn_rule option) \<Rightarrow> lsdn_ruleset \<Rightarrow> (u32 \<times> u32 \<times> nlattr list option) set" where
  "view_but k cb rules s = {(i, h, a). (i, h, a) \<in> ruleset_view cb rules s \<and> (i, h) \<noteq> k}"

lemma add_source_actions_cong:
  assumes "\<And>r. r \<in> set srcs \<Longrightarrow> map_option rule_action (rules' r) = map_option rule_action (rules r)"
  shows "add_source_actions cb rules' srcs n f = add_source_actions cb rules srcs n f"
  using assms
proof (induction srcs arbitrary: n f)
  case (Cons r srcs)
  have "map_option rule_action (rules' r) = map_option rule_action (rules r)" using Cons.prems by simp
  moreover have "add_source_actions cb rules' srcs n = add_source_actions cb rules srcs n" for n
    using Cons by (intro ext) simp
  ultimately show ?case by (cases "rules r"; cases "rules' r") simp_all
qed simp

lemma fl_attrs_cong:
  assumes "\<And>r. r \<in> set (fl_sources fl) \<Longrightarrow> map_option rule_action (rules' r) = map_option rule_action (rules r)"
    and "prio_targets prio' = prio_targets prio" "prio_masks prio' = prio_masks prio" "prio_num prio' = prio_num prio"
    and "rs_iface s' = rs_iface s" "rs_parent_handle s' = rs_parent_handle s" "rs_chain s' = rs_chain s"
      "rs_prio_start s' = rs_prio_start s"
  shows "fl_attrs cb rules' s' prio' fl = fl_attrs cb rules s prio fl" "tc_prio s' prio' = tc_prio s prio"
  using assms add_source_actions_cong [of "fl_sources fl" rules' rules cb]
  by (simp_all add: fl_attrs_def fl_build_def fl_base_def tc_prio_def find_common_ethtype_def flower_add_keys_def)

lemma tc_prio_inj: "tc_prio s p = tc_prio s q \<longleftrightarrow> prio_num p = prio_num q"
  by (simp add: tc_prio_def)

lemma view_but_put_rule:
  assumes "\<not> linked st r" "r_sets st rs = Some s"
  shows "ruleset_view cb ((r_rules st)(r \<mapsto> rule)) s = ruleset_view cb (r_rules st) s"
proof -
  have "fl_attrs cb ((r_rules st)(r \<mapsto> rule)) s prio fl = fl_attrs cb (r_rules st) s prio fl"
    if "prio \<in> set (hash_prios s)" "fl \<in> set (hash_fl_rules prio)" for prio fl
    by (rule fl_attrs_cong(1)) (use assms that in \<open>auto simp: linked_def\<close>)
  then show ?thesis by (auto simp: ruleset_view_def prio_view_def image_iff)
qed

text \<open>Replacing a priority by one that differs in one flower rule only.\<close>

lemma key_split:
  assumes "\<forall>e\<in>W. fst e = i" "\<forall>e\<in>R. fst e \<noteq> i"
  shows "{(i', h', a). (i', h', a) \<in> W \<union> R \<and> (i', h') \<noteq> (i, h)} = {e \<in> W. fst (snd e) \<noteq> h} \<union> R"
  using assms by auto

lemma view_but_set_prio:
  assumes inv: "ruleset_inv ex rules rs s" and prio: "prio \<in> set (hash_prios s)" "prio_num prio' = prio_num prio"
    and same: "prio_targets prio' = prio_targets prio" "prio_masks prio' = prio_masks prio"
    and fls: "{fl \<in> set (hash_fl_rules prio'). fl_handle fl \<noteq> h} = {fl \<in> set (hash_fl_rules prio). fl_handle fl \<noteq> h}"
  shows "view_but (tc_info (tc_prio s prio), h) cb rules (set_prio prio' s) =
      view_but (tc_info (tc_prio s prio), h) cb rules s"
    and "(tc_info (tc_prio s prio), h, a) \<in> ruleset_view cb rules (set_prio prio' s) \<longleftrightarrow>
      (\<exists>fl\<in>set (hash_fl_rules prio'). fl_handle fl = h \<and> a = fl_attrs cb rules s prio fl)"
proof -
  let ?s = "set_prio prio' s"
  have attrs: "fl_attrs cb rules ?s x' fl = fl_attrs cb rules s x fl" "tc_prio ?s x' = tc_prio s x"
    if "prio_targets x' = prio_targets x" "prio_masks x' = prio_masks x" "prio_num x' = prio_num x" for x x' fl
    using that by (auto intro!: fl_attrs_cong simp: set_prio_def)
  have mem: "x = prio" if "x \<in> set (hash_prios s)" "prio_num x = prio_num prio" for x
    using inv that prio(1) by (auto simp: ruleset_inv_def distinct_map inj_on_def)
  have set: "set (hash_prios ?s) = insert prio' {x \<in> set (hash_prios s). prio_num x \<noteq> prio_num prio}"
    using prio mem by (force simp: set_prio_def)
  define g where "g fl = (tc_info (tc_prio s prio), fl_handle fl, fl_attrs cb rules s prio fl)" for fl
  have view': "prio_view cb rules ?s prio' = g ` set (hash_fl_rules prio')"
    "prio_view cb rules s prio = g ` set (hash_fl_rules prio)"
    using attrs [of prio' prio] same prio(2) by (simp_all add: prio_view_def g_def)
  have rest: "prio_view cb rules ?s x = prio_view cb rules s x" for x
    using attrs [of x x] by (simp add: prio_view_def)
  have whole: "ruleset_view cb rules ?s = prio_view cb rules ?s prio' \<union>
      (\<Union>x\<in>{x \<in> set (hash_prios s). prio_num x \<noteq> prio_num prio}. prio_view cb rules s x)"
    by (simp add: ruleset_view_def set rest)
  have split: "set (hash_prios s) = insert prio {x \<in> set (hash_prios s). prio_num x \<noteq> prio_num prio}"
    using prio(1) mem by blast
  have old: "ruleset_view cb rules s = prio_view cb rules s prio \<union>
      (\<Union>x\<in>{x \<in> set (hash_prios s). prio_num x \<noteq> prio_num prio}. prio_view cb rules s x)"
    unfolding ruleset_view_def by (subst split) simp
  have g: "fst (g fl) = tc_info (tc_prio s prio)" "fst (snd (g fl)) = fl_handle fl" for fl
    by (simp_all add: g_def)
  have "{e \<in> g ` A. fst (snd e) \<noteq> h} = g ` {fl \<in> A. fl_handle fl \<noteq> h}" for A
    by (auto simp: g)
  then have "{e \<in> prio_view cb rules ?s prio'. fst (snd e) \<noteq> h} = {e \<in> prio_view cb rules s prio. fst (snd e) \<noteq> h}"
    using fls by (simp add: view')
  moreover have info: "\<forall>e\<in>prio_view cb rules ?s prio' \<union> prio_view cb rules s prio. fst e = tc_info (tc_prio s prio)"
    by (auto simp: view' g)
  moreover have other: "\<forall>e\<in>(\<Union>x\<in>{x \<in> set (hash_prios s). prio_num x \<noteq> prio_num prio}. prio_view cb rules s x).
      fst e \<noteq> tc_info (tc_prio s prio)"
    by (auto simp: prio_view_def tc_prio_inj)
  ultimately show "view_but (tc_info (tc_prio s prio), h) cb rules ?s = view_but (tc_info (tc_prio s prio), h) cb rules s"
    unfolding view_but_def whole old by (subst (1 2) key_split) simp_all
  show "(tc_info (tc_prio s prio), h, a) \<in> ruleset_view cb rules ?s \<longleftrightarrow>
      (\<exists>fl\<in>set (hash_fl_rules prio'). fl_handle fl = h \<and> a = fl_attrs cb rules s prio fl)"
    using other unfolding whole by (force simp: view' g_def)
qed

section \<open>Steps that keep the mirror\<close>

definition same_rs :: "lsdn_ruleset \<Rightarrow> lsdn_ruleset \<Rightarrow> bool" where
  "same_rs s s' \<longleftrightarrow> rs_iface s' = rs_iface s \<and> rs_parent_handle s' = rs_parent_handle s \<and>
     rs_chain s' = rs_chain s \<and> rs_prio_start s' = rs_prio_start s"

lemma same_rs_set_prio [simp]: "same_rs s (set_prio p s')  = same_rs s s'"
  by (simp add: same_rs_def set_prio_def)

lemma tc_prio_same: "same_rs s s' \<Longrightarrow> prio_num p' = prio_num p \<Longrightarrow> tc_prio s' p' = tc_prio s p"
  by (simp add: same_rs_def tc_prio_def)

definition fl_id :: "callbacks \<Rightarrow> lsdn_ruleset \<Rightarrow> u32 \<times> u32 \<Rightarrow> filter_id" where
  "fl_id cb s k = (\<lparr>tcm_ifindex = cb_ifindex cb (rs_iface s), tcm_handle = snd k,
     tcm_parent = rs_parent_handle s, tcm_info = fst k\<rparr>, rs_chain s)"

lemma fl_id_inj [simp]: "fl_id cb s k = fl_id cb s k' \<longleftrightarrow> k = k'"
  by (auto simp: fl_id_def prod_eq_iff)

definition entry_ok :: "(u32 \<times> u32 \<times> nlattr list option) set \<Rightarrow> u32 \<times> u32 \<Rightarrow> nlattr list option \<Rightarrow> bool" where
  "entry_ok view k a \<longleftrightarrow> (case a of
     None \<Rightarrow> \<not> (\<exists>b. (fst k, snd k, b) \<in> view) | Some x \<Rightarrow> (fst k, snd k, Some x) \<in> view)"

lemma mirrored_iff:
  "mirrored cb st rs \<longleftrightarrow> (\<exists>s. r_sets st rs = Some s \<and>
     (\<forall>k. entry_ok (ruleset_view cb (r_rules st) s) k (filter_table (nl_log (r_nl st)) (fl_id cb s k))))"
  by (auto simp: mirrored_def entry_ok_def fl_id_def split: option.splits)

lemma entry_ok_other:
  assumes "view_but k cb rules' s' = view_but k cb rules s" "k' \<noteq> k"
  shows "entry_ok (ruleset_view cb rules' s') k' a = entry_ok (ruleset_view cb rules s) k' a"
proof -
  have "(fst k', snd k', b) \<in> ruleset_view cb rules s \<longleftrightarrow> (fst k', snd k', b) \<in> view_but k cb rules s" for b rules s
    using assms(2) by (auto simp: view_but_def prod_eq_iff)
  then show ?thesis using assms(1) by (simp add: entry_ok_def split: option.splits)
qed

text \<open>The mirror property but for the flower rule with the key \<open>k\<close>.\<close>

definition almost :: "callbacks \<Rightarrow> rules \<Rightarrow> ruleset_ptr \<Rightarrow> u32 \<times> u32 \<Rightarrow> bool" where
  "almost cb st rs k \<longleftrightarrow> (\<exists>s. r_sets st rs = Some s \<and> (\<forall>k'. k' \<noteq> k \<longrightarrow>
     entry_ok (ruleset_view cb (r_rules st) s) k' (filter_table (nl_log (r_nl st)) (fl_id cb s k'))))"

lemma mirrored_almost:
  assumes "r_sets st rs = Some s"
  shows "mirrored cb st rs \<longleftrightarrow> almost cb st rs k \<and>
    entry_ok (ruleset_view cb (r_rules st) s) k (filter_table (nl_log (r_nl st)) (fl_id cb s k))"
  using assms by (auto simp: mirrored_iff almost_def simp del: split_paired_All)

lemma almost_step:
  assumes "almost cb st rs k" "r_sets st rs = Some s" "r_sets st' rs = Some s'" "same_rs s s'"
    and "view_but k cb (r_rules st') s' = view_but k cb (r_rules st) s"
    and "\<And>k'. k' \<noteq> k \<Longrightarrow> filter_table (nl_log (r_nl st')) (fl_id cb s k') = filter_table (nl_log (r_nl st)) (fl_id cb s k')"
  shows "almost cb st' rs k"
proof -
  have id: "fl_id cb s' k' = fl_id cb s k'" for k' using assms(4) by (simp add: same_rs_def fl_id_def)
  have "entry_ok (ruleset_view cb (r_rules st') s') k' (filter_table (nl_log (r_nl st')) (fl_id cb s k'))"
    if "k' \<noteq> k" for k'
    using assms(1,2) assms(6) [OF that] entry_ok_other [OF assms(5) that] that
    by (auto simp: almost_def simp del: split_paired_All)
  then show ?thesis using assms(3) by (auto simp: almost_def id simp del: split_paired_All)
qed

lemma view_set_prio_same:
  assumes "ruleset_inv ex rules rs s" "prio \<in> set (hash_prios s)" "prio_num prio' = prio_num prio"
    "prio_targets prio' = prio_targets prio" "prio_masks prio' = prio_masks prio"
    "hash_fl_rules prio' = hash_fl_rules prio"
  shows "ruleset_view cb rules (set_prio prio' s) = ruleset_view cb rules s"
proof -
  have self: "set_prio prio s = s"
    using assms(1,2) by (auto simp: set_prio_def ruleset_inv_def distinct_map inj_on_def intro!: lsdn_ruleset.equality map_idI)
  let ?k = "(tc_info (tc_prio s prio), 0)"
  have "view_but ?k cb rules (set_prio prio' s) = view_but ?k cb rules s"
    "(tc_info (tc_prio s prio), 0, a) \<in> ruleset_view cb rules (set_prio prio' s) \<longleftrightarrow>
     (tc_info (tc_prio s prio), 0, a) \<in> ruleset_view cb rules s" for a
    using view_but_set_prio [OF assms(1-5), where h = 0 and cb = cb] assms(6)
      view_but_set_prio(2) [OF assms(1,2), where prio' = prio and h = 0 and cb = cb]
    by (simp_all add: self)
  then show ?thesis by (auto simp: view_but_def set_eq_iff)
qed

lemma find_or_make_fl_view:
  assumes inv: "rules_inv st" and get: "get_prio st rs p = Some (s, prio)"
    and fm: "find_or_make_fl rs p ms st = Some (res, st2)"
  shows "\<exists>s2 prio2. get_prio st2 rs p = Some (s2, prio2) \<and> same_rs s s2 \<and> r_rules st2 = r_rules st \<and>
    nl_log (r_nl st2) = nl_log (r_nl st) \<and> r_no_decommit st2 = r_no_decommit st \<and>
    (case res of
       None \<Rightarrow> ruleset_view cb (r_rules st) s2 = ruleset_view cb (r_rules st) s
     | Some (fl, update) \<Rightarrow> fl \<in> set (hash_fl_rules prio2) \<and>
         view_but (tc_info (tc_prio s prio), fl_handle fl) cb (r_rules st) s2 =
         view_but (tc_info (tc_prio s prio), fl_handle fl) cb (r_rules st) s)"
proof -
  note g = get_prio_SomeD [OF get] and rinv = rules_inv_get(1) [OF inv get]
  obtain ok st1 where m: "r_malloc st = (ok, st1)" by fastforce
  note ms = r_malloc_simps [OF m]
  have refl: "same_rs s s" by (simp add: same_rs_def)
  have put: "get_prio (put_prio rs s prio' st1) rs p = Some (set_prio prio' s, prio')" if "prio_num prio' = p" for prio'
    using get that ms(5) by simp
  have noalloc: "ruleset_view cb (r_rules st) (set_prio (prio\<lparr>handle_alloc := ida\<rparr>) s) = ruleset_view cb (r_rules st) s" for ida
    by (rule view_set_prio_same [OF rinv g(3)]) simp_all
  have added: "view_but (tc_info (tc_prio s prio), h) cb (r_rules st)
      (set_prio (prio\<lparr>handle_alloc := ida, hash_fl_rules := hash_fl_rules prio @ [fl]\<rparr>) s) =
      view_but (tc_info (tc_prio s prio), h) cb (r_rules st) s" if "fl_handle fl = h" for fl ida h
    by (rule view_but_set_prio(1) [OF rinv g(3)]) (use that in auto)
  show ?thesis
  proof (cases "find_fl prio ms")
    case (Some fl)
    then show ?thesis using fm get refl find_fl_SomeD(1) [OF Some] by (auto simp: find_or_make_fl_def)
  next
    case None
    then show ?thesis
      using fm get refl m ms(2-4) put noalloc added g(4)
      by (cases "lsdn_idalloc_get (handle_alloc prio)"; cases ok)
        (auto simp: find_or_make_fl_def Let_def lsdn_idalloc_return_def)
  qed
qed

text \<open>From a state in which the table agrees but for one flower rule, installing it or deleting it restores the mirror.\<close>

lemma filter_table_create:
  assumes "cb_appends cb" "fl_build cb rules prio fl (fl_base cb s prio fl u) = Some f"
  shows "filter_table ((filter_create_msg f, NL_error 0) # h) =
    (filter_table h)(fl_id cb s (tc_info (tc_prio s prio), fl_handle fl) \<mapsto> nm_attrs (filter_create_msg f))"
  using fl_build_update [OF assms]
  by (simp add: filter_effect_def fl_id_def fl_base_def)

lemma filter_table_delete:
  "filter_table ((filter_delete_msg (cb_ifindex cb (rs_iface s)) h (rs_parent_handle s) (rs_chain s) pr, NL_error 0) # l) =
    (filter_table l)(fl_id cb s (tc_info pr, h) := None)"
  by (simp add: filter_effect_def fl_id_def filter_delete_msg_def)

lemma free_fl_rule_cases:
  assumes "free_fl_rule cb fl rs p st = Some (err, st')" "get_prio st rs p = Some (s, prio)" "\<not> r_no_decommit st"
  shows "r_sets st' rs = Some (set_prio (del_fl (fl_handle fl) prio) s)" "r_rules st' = r_rules st"
    "err = LSDNE_OK \<Longrightarrow> filter_table (nl_log (r_nl st')) =
      (filter_table (nl_log (r_nl st)))(fl_id cb s (tc_info (tc_prio s prio), fl_handle fl) := None)"
proof -
  obtain nl where d: "lsdn_filter_delete (cb_ifindex cb (rs_iface s)) (fl_handle fl) (rs_parent_handle s)
      (rs_chain s) (tc_prio s prio) (r_nl st) = (err, nl)"
    and st': "st' = put_prio rs s (del_fl (fl_handle fl) prio) (st\<lparr>r_nl := nl\<rparr>)"
    using assms by (auto simp: free_fl_rule_def split: prod.splits)
  show "r_sets st' rs = Some (set_prio (del_fl (fl_handle fl) prio) s)" "r_rules st' = r_rules st"
    by (simp_all add: st') (simp add: put_prio_def)
  assume "err = LSDNE_OK"
  then have "nl_log nl = (filter_delete_msg (cb_ifindex cb (rs_iface s)) (fl_handle fl) (rs_parent_handle s)
      (rs_chain s) (tc_prio s prio), NL_error 0) # nl_log (r_nl st)"
    using send_await_response_cases(2) [OF d [unfolded lsdn_filter_delete_def]] by auto
  then show "filter_table (nl_log (r_nl st')) =
      (filter_table (nl_log (r_nl st)))(fl_id cb s (tc_info (tc_prio s prio), fl_handle fl) := None)"
    by (simp add: st' filter_table_delete del: filter_table.simps)
qed

text \<open>The view around a flower rule when its sources are replaced or it is deleted.\<close>

lemma put_fl_view:
  assumes inv: "rules_inv_ex ex st" and get: "get_prio st rs p = Some (s, prio)" and fl: "fl \<in> set (hash_fl_rules prio)"
    and put: "put_fl rs p (fl\<lparr>fl_sources := srcs\<rparr>) st = Some st'"
  defines "k \<equiv> (tc_info (tc_prio s prio), fl_handle fl)" and "prio' \<equiv> set_fl (fl\<lparr>fl_sources := srcs\<rparr>) prio"
  shows "get_prio st' rs p = Some (set_prio prio' s, prio')" "prio_num prio' = p"
    "view_but k cb (r_rules st) (set_prio prio' s) = view_but k cb (r_rules st) s"
    "(fst k, snd k, a) \<in> ruleset_view cb (r_rules st) (set_prio prio' s) \<longleftrightarrow>
       a = fl_attrs cb (r_rules st) s prio (fl\<lparr>fl_sources := srcs\<rparr>)"
proof -
  note g = get_prio_SomeD [OF get] and rinv = rules_inv_get [OF inv get]
  show num: "prio_num prio' = p" using g(4) by (simp add: prio'_def set_fl_def)
  then show "get_prio st' rs p = Some (set_prio prio' s, prio')"
    using put get by (auto simp: put_fl_def prio'_def)
  have fls: "{x \<in> set (hash_fl_rules prio'). fl_handle x \<noteq> fl_handle fl} = {x \<in> set (hash_fl_rules prio). fl_handle x \<noteq> fl_handle fl}"
    by (auto simp: prio'_def set_fl_def)
  have same: "prio_targets prio' = prio_targets prio" "prio_masks prio' = prio_masks prio" "prio_num prio' = prio_num prio"
    by (simp_all add: prio'_def set_fl_def)
  note v = view_but_set_prio [OF rinv(1) g(3) same(3,1,2) fls, where cb = cb]
  show "view_but k cb (r_rules st) (set_prio prio' s) = view_but k cb (r_rules st) s" unfolding k_def by (rule v(1))
  have "{x \<in> set (hash_fl_rules prio'). fl_handle x = fl_handle fl} = {fl\<lparr>fl_sources := srcs\<rparr>}"
    using fl by (force simp: prio'_def set_fl_def image_iff)
  then have "x \<in> set (hash_fl_rules prio') \<and> fl_handle x = fl_handle fl \<longleftrightarrow> x = fl\<lparr>fl_sources := srcs\<rparr>" for x
    by (simp add: set_eq_iff)
  then have only: "(\<exists>x\<in>set (hash_fl_rules prio'). fl_handle x = fl_handle fl \<and> a = fl_attrs cb (r_rules st) s prio x) \<longleftrightarrow>
      a = fl_attrs cb (r_rules st) s prio (fl\<lparr>fl_sources := srcs\<rparr>)"
    by (simp add: Bex_def conj_assoc [symmetric])
  show "(fst k, snd k, a) \<in> ruleset_view cb (r_rules st) (set_prio prio' s) \<longleftrightarrow>
       a = fl_attrs cb (r_rules st) s prio (fl\<lparr>fl_sources := srcs\<rparr>)"
    unfolding only [symmetric] using v(2) [where a = a] by (simp add: k_def)
qed

lemma del_fl_view:
  fixes h :: u32
  assumes inv: "rules_inv_ex ex st" and get: "get_prio st rs p = Some (s, prio)"
  defines "k \<equiv> (tc_info (tc_prio s prio), h)"
  shows "view_but k cb (r_rules st) (set_prio (del_fl h prio) s) = view_but k cb (r_rules st) s"
    "(fst k, snd k, a) \<notin> ruleset_view cb (r_rules st) (set_prio (del_fl h prio) s)"
proof -
  note g = get_prio_SomeD [OF get] and rinv = rules_inv_get [OF inv get]
  have fls: "{x \<in> set (hash_fl_rules (del_fl h prio)). fl_handle x \<noteq> h} = {x \<in> set (hash_fl_rules prio). fl_handle x \<noteq> h}"
    by (auto simp: del_fl_def)
  have same: "prio_targets (del_fl h prio) = prio_targets prio" "prio_masks (del_fl h prio) = prio_masks prio"
    "prio_num (del_fl h prio) = prio_num prio"
    by (simp_all add: del_fl_def)
  note v = view_but_set_prio [OF rinv(1) g(3) same(3,1,2) fls, where cb = cb]
  show "view_but k cb (r_rules st) (set_prio (del_fl h prio) s) = view_but k cb (r_rules st) s"
    unfolding k_def by (rule v(1))
  show "(fst k, snd k, a) \<notin> ruleset_view cb (r_rules st) (set_prio (del_fl h prio) s)"
    using v(2) [where a = a] by (auto simp: k_def del_fl_def)
qed

lemma flush_frame:
  "flush_fl_rule cb fl rs p update st = Some (err, st') \<Longrightarrow> r_sets st' = r_sets st \<and> r_rules st' = r_rules st \<and>
     r_no_decommit st' = r_no_decommit st \<and> (\<forall>rs p. get_prio st' rs p = get_prio st rs p) \<and>
     (\<forall>ex. rules_inv_ex ex st' = rules_inv_ex ex st)"
  using flush_fl_rule_frame by fastforce

lemma same_rs_refl [simp]: "same_rs s s"
  by (simp add: same_rs_def)

lemma almost_put_rule:
  assumes "\<not> linked st r" "almost cb st rs k"
  shows "almost cb (put_rule r rule st) rs k"
proof -
  obtain s where s: "r_sets st rs = Some s" using assms(2) by (auto simp: almost_def)
  show ?thesis
    by (rule almost_step [OF assms(2) s]) (use s view_but_put_rule [OF assms(1) s] in \<open>auto simp: view_but_def\<close>)
qed

lemma almost_find_or_make:
  assumes "rules_inv st" "get_prio st rs p = Some (s, prio)"
    "find_or_make_fl rs p ms st = Some (Some (fl, update), st2)"
    "almost cb st rs (tc_info (tc_prio s prio), fl_handle fl)"
  shows "almost cb st2 rs (tc_info (tc_prio s prio), fl_handle fl) \<and> r_no_decommit st2 = r_no_decommit st \<and>
    (\<exists>s2 prio2. get_prio st2 rs p = Some (s2, prio2) \<and> fl \<in> set (hash_fl_rules prio2) \<and>
      tc_info (tc_prio s2 prio2) = tc_info (tc_prio s prio))"
proof -
  obtain s2 prio2 where f: "get_prio st2 rs p = Some (s2, prio2)" "same_rs s s2" "r_rules st2 = r_rules st"
    "nl_log (r_nl st2) = nl_log (r_nl st)" "r_no_decommit st2 = r_no_decommit st" "fl \<in> set (hash_fl_rules prio2)"
    "view_but (tc_info (tc_prio s prio), fl_handle fl) cb (r_rules st) s2 =
     view_but (tc_info (tc_prio s prio), fl_handle fl) cb (r_rules st) s"
    using find_or_make_fl_view [OF assms(1-3), of cb] by auto
  have "tc_prio s2 prio2 = tc_prio s prio"
    using f(2) get_prio_SomeD(4) [OF f(1)] get_prio_SomeD(4) [OF assms(2)] by (simp add: tc_prio_same)
  moreover have "almost cb st2 rs (tc_info (tc_prio s prio), fl_handle fl)"
    by (rule almost_step [OF assms(4) get_prio_SomeD(1) [OF assms(2)] get_prio_SomeD(1) [OF f(1)] f(2)])
      (use f in simp_all)
  ultimately show ?thesis using f by auto
qed

text \<open>Replacing the sources and flushing: the mirror holds if the kernel accepts, and nothing else changes if not.\<close>

lemma almost_flush:
  assumes cb: "cb_appends cb" and inv: "rules_inv_ex ex st" and get: "get_prio st rs p = Some (s, prio)"
    and fl: "fl \<in> set (hash_fl_rules prio)" and alm: "almost cb st rs (tc_info (tc_prio s prio), fl_handle fl)"
    and put: "put_fl rs p (fl\<lparr>fl_sources := srcs\<rparr>) st = Some st4"
    and flush: "flush_fl_rule cb (fl\<lparr>fl_sources := srcs\<rparr>) rs p update st4 = Some (err, st5)"
  shows "almost cb st5 rs (tc_info (tc_prio s prio), fl_handle fl)" "err = LSDNE_OK \<Longrightarrow> mirrored cb st5 rs"
proof -
  let ?fl = "fl\<lparr>fl_sources := srcs\<rparr>" and ?k = "(tc_info (tc_prio s prio), fl_handle fl)"
  let ?prio = "set_fl ?fl prio"
  let ?s = "set_prio ?prio s"
  note v = put_fl_view(1,2) [OF inv get fl put] put_fl_view(3,4) [OF inv get fl put, where cb = cb] and ps = put_fl_simps [OF put]
  note fr = flush_frame [OF flush]
  have sets: "r_sets st5 rs = Some ?s" "r_sets st rs = Some s" using fr get_prio_SomeD(1) [OF v(1)] get_prio_SomeD(1) [OF get] by auto
  have base: "fl_base cb ?s ?prio ?fl u = fl_base cb s prio ?fl u" "tc_prio ?s ?prio = tc_prio s prio" for u
    by (simp_all add: fl_base_def tc_prio_def set_prio_def set_fl_def)
  have attrs: "fl_attrs cb (r_rules st) ?s ?prio ?fl = fl_attrs cb (r_rules st) s prio ?fl"
    by (rule fl_attrs_cong) (simp_all add: set_prio_def set_fl_def)
  have alm': "almost cb st5 rs ?k"
    if "\<And>k'. k' \<noteq> ?k \<Longrightarrow> filter_table (nl_log (r_nl st5)) (fl_id cb s k') = filter_table (nl_log (r_nl st)) (fl_id cb s k')"
    by (rule almost_step [OF alm sets(2,1)]) (use that fr ps v(3) in simp_all)
  have "almost cb st5 rs ?k \<and> (err = LSDNE_OK \<longrightarrow> mirrored cb st5 rs)"
    using flush v(1)
  proof (cases rule: flush_fl_rule_cases)
    case (NoMem nl)
    then show ?thesis using alm' ps by simp
  next
    case (Sent f nl r)
    have f: "fl_build cb (r_rules st) ?prio ?fl (fl_base cb ?s ?prio ?fl update) = Some f" using Sent(1) ps by simp
    note tab = filter_table_create [OF cb f, of "nl_log (r_nl st)", unfolded base]
    have log: "nl_log (r_nl st5) = (filter_create_msg f, r) # nl_log (r_nl st)" using Sent(2,3) ps by simp
    have id: "fl_id cb ?s k = fl_id cb s k" for k by (simp add: fl_id_def set_prio_def)
    have alm5: "almost cb st5 rs ?k"
      by (rule alm') (use log tab id in \<open>cases "r = NL_error 0"; simp\<close>)
    moreover have "mirrored cb st5 rs" if "err = LSDNE_OK"
    proof -
      have "filter_table (nl_log (r_nl st5)) (fl_id cb ?s ?k) = Some (nm_attrs (filter_create_msg f))"
        using log tab Sent(4) that id by simp
      moreover have "fl_attrs cb (r_rules st) s prio ?fl = Some (nm_attrs (filter_create_msg f))"
        using fl_build_update(1) [OF cb f] attrs by simp
      ultimately have "entry_ok (ruleset_view cb (r_rules st5) ?s) ?k (filter_table (nl_log (r_nl st5)) (fl_id cb ?s ?k))"
        using v(4) fr ps by (simp add: entry_ok_def)
      then show ?thesis using alm5 mirrored_almost [OF sets(1)] by blast
    qed
    ultimately show ?thesis by blast
  qed
  then show "almost cb st5 rs ?k" "err = LSDNE_OK \<Longrightarrow> mirrored cb st5 rs" by auto
qed

lemma almost_free:
  assumes inv: "rules_inv_ex ex st" and get: "get_prio st rs p = Some (s, prio)" and dec: "\<not> r_no_decommit st"
    and alm: "almost cb st rs (tc_info (tc_prio s prio), fl_handle fl)"
    and free: "free_fl_rule cb fl rs p st = Some (LSDNE_OK, st')"
  shows "mirrored cb st' rs"
proof -
  let ?k = "(tc_info (tc_prio s prio), fl_handle fl)" and ?s = "set_prio (del_fl (fl_handle fl) prio) s"
  note c = free_fl_rule_cases [OF free get dec] and v = del_fl_view [OF inv get, where h = "fl_handle fl" and cb = cb]
  have id: "fl_id cb ?s k = fl_id cb s k" for k by (simp add: fl_id_def set_prio_def)
  have "almost cb st' rs ?k"
    by (rule almost_step [OF alm get_prio_SomeD(1) [OF get] c(1)]) (use c v in simp_all)
  moreover have "entry_ok (ruleset_view cb (r_rules st') ?s) ?k (filter_table (nl_log (r_nl st')) (fl_id cb ?s ?k))"
    using c v(2) id by (simp add: entry_ok_def)
  ultimately show ?thesis using mirrored_almost [OF c(1)] by blast
qed

section \<open>Properties\<close>

lemma mirrored_cong:
  assumes "mirrored cb st rs" "r_sets st rs = Some s" "r_sets st' rs = Some s'" "same_rs s s'"
    "ruleset_view cb (r_rules st') s' = ruleset_view cb (r_rules st) s" "nl_log (r_nl st') = nl_log (r_nl st)"
  shows "mirrored cb st' rs"
proof -
  have "fl_id cb s' = fl_id cb s" using assms(4) by (intro ext) (simp add: fl_id_def same_rs_def)
  then show ?thesis using assms by (simp add: mirrored_iff)
qed

lemma prio_num_set_fl [simp]: "prio_num (set_fl fl prio) = prio_num prio"
  by (simp add: set_fl_def)

lemma get_prio_after_add:
  assumes "put_fl rs p fl st = Some st4" "get_prio st rs p = Some (s, prio)"
  shows "get_prio st4 rs p = Some (set_prio (set_fl fl prio) s, set_fl fl prio)"
    "tc_prio (set_prio (set_fl fl prio) s) (set_fl fl prio) = tc_prio s prio"
proof -
  show "get_prio st4 rs p = Some (set_prio (set_fl fl prio) s, set_fl fl prio)"
    using assms get_prio_SomeD(4) [OF assms(2)] by (auto simp: put_fl_def)
  show "tc_prio (set_prio (set_fl fl prio) s) (set_fl fl prio) = tc_prio s prio"
    by (simp add: tc_prio_def set_prio_def)
qed

lemma mirrored_add:
  assumes cb: "cb_appends cb" and inv: "rules_inv st" and fresh: "\<not> linked st r"
    and mir: "mirrored cb st rs" and dec: "\<not> r_no_decommit st"
    and add: "lsdn_ruleset_add cb rs p r st = Some (err, st')" and err: "err \<noteq> LSDNE_INCONSISTENT"
  shows "mirrored cb st' rs"
proof -
  obtain s prio where get: "get_prio st rs p = Some (s, prio)"
    using add by (auto simp: lsdn_ruleset_add_def bind_eq_Some_conv)
  have s: "r_sets st rs = Some s" using get_prio_SomeD(1) [OF get] .
  have inv1: "rules_inv (put_rule r rule st)" for rule using inv fresh by (rule rules_inv_put_rule)
  have get1: "get_prio (put_rule r rule st) rs p = Some (s, prio)" for rule using get by simp
  have alm1: "almost cb (put_rule r rule st) rs k" for rule k
    using almost_put_rule [OF fresh] mir mirrored_almost [OF s] by blast
  from inv fresh add show ?thesis
  proof (cases rule: lsdn_ruleset_add_cases)
    case (NoMem rule)
    obtain s2 prio2 where g2: "get_prio st' rs p = Some (s2, prio2)" and "same_rs s s2"
      "r_rules st' = (r_rules st)(r \<mapsto> rule)" "nl_log (r_nl st') = nl_log (r_nl st)"
      "ruleset_view cb (r_rules st') s2 = ruleset_view cb (r_rules st) s"
      using find_or_make_fl_view [OF inv1 get1 NoMem(2), of cb] view_but_put_rule [OF fresh s] by auto
    then show ?thesis using mirrored_cong [OF mir s get_prio_SomeD(1) [OF g2]] by simp
  next
    case (Dup rule fl st2)
    have st2: "st2 = put_rule r rule st" using find_or_make_fl_found(1) [OF Dup(2) get1] .
    then show ?thesis using mirrored_cong [OF mir s, of st' s] s view_but_put_rule [OF fresh s] Dup(4) by simp
  next
    case (Ins rule fl update st2 srcs st4 err1 st5)
    let ?k = "(tc_info (tc_prio s prio), fl_handle fl)"
    let ?st3 = "put_rule r (rule\<lparr>rule_fl := Some (fl_handle fl)\<rparr>) st2"
    obtain s2 prio2 where f: "almost cb st2 rs ?k" "r_no_decommit st2 = r_no_decommit st"
      "get_prio st2 rs p = Some (s2, prio2)" "fl \<in> set (hash_fl_rules prio2)"
      "tc_info (tc_prio s2 prio2) = tc_info (tc_prio s prio)"
      using almost_find_or_make [OF inv1 get1 Ins(2) alm1] by auto
    have "\<not> linked st2 r" using find_or_make_fl_linked [OF Ins(2)] fresh by auto
    then have alm3: "almost cb ?st3 rs (tc_info (tc_prio s2 prio2), fl_handle fl)"
      using almost_put_rule f(1,5) by simp
    have get3: "get_prio ?st3 rs p = Some (s2, prio2)" using f(3) by simp
    note af = almost_flush [OF cb Ins(3) get3 f(4) alm3 Ins(6,8)]
    note fr = flush_frame [OF Ins(8)] and g4 = get_prio_after_add [OF Ins(6) get3]
    show ?thesis
    proof (cases "err1 = LSDNE_OK")
      case True
      then show ?thesis using af(2) Ins(9) by auto
    next
      case False
      then have free: "free_fl_rule cb (fl\<lparr>fl_sources := srcs\<rparr>) rs p st5 = Some (LSDNE_OK, st')"
        using Ins(9) err by (auto simp: acc_inconsistent_def split: if_splits)
      have inv5: "rules_inv st5" "\<not> r_no_decommit st5"
        using fr Ins(7) dec f(2) put_fl_simps(3) [OF Ins(6)] by simp_all
      have get5: "get_prio st5 rs p = Some (set_prio (set_fl (fl\<lparr>fl_sources := srcs\<rparr>) prio2) s2,
          set_fl (fl\<lparr>fl_sources := srcs\<rparr>) prio2)"
        using fr g4(1) by simp
      show ?thesis by (rule almost_free [OF inv5(1) get5 inv5(2) _ free]) (use af(1) g4(2) in simp)
    qed
  qed
qed

lemma mirrored_remove:
  assumes cb: "cb_appends cb" and inv: "rules_inv st" and rule: "r_rules st r = Some rule" "rule_ruleset rule = Some rs"
    and mir: "mirrored cb st rs" and dec: "\<not> r_no_decommit st"
    and rem: "lsdn_ruleset_remove cb r st = Some (LSDNE_OK, st')"
  shows "mirrored cb st' rs"
  using inv rem
proof (cases rule: lsdn_ruleset_remove_cases)
  case (1 rule' rs' p s prio fl st4 st5)
  have rs: "rs' = rs" using 1(1,2) rule by simp
  note get = 1(5) [unfolded rs] and put = 1(8) [unfolded rs]
  let ?k = "(tc_info (tc_prio s prio), fl_handle fl)" and ?srcs = "remove1 r (fl_sources fl)"
  have alm: "almost cb st rs ?k" using mir mirrored_almost get_prio_SomeD(1) [OF get] by blast
  note g4 = get_prio_after_add [OF put get] and ps = put_fl_simps [OF put]
  note v = put_fl_view(3) [OF inv get 1(6) put, where cb = cb]
  have "mirrored cb st5 rs \<and> \<not> linked st5 r"
  proof (cases "?srcs = []")
    case True
    have "almost cb st4 rs ?k"
      by (rule almost_step [OF alm get_prio_SomeD(1) [OF get] get_prio_SomeD(1) [OF g4(1)]]) (use ps v in simp_all)
    then have alm4: "almost cb st4 rs (tc_info (tc_prio (set_prio (set_fl (fl\<lparr>fl_sources := ?srcs\<rparr>) prio) s)
        (set_fl (fl\<lparr>fl_sources := ?srcs\<rparr>) prio)), fl_handle (fl\<lparr>fl_sources := ?srcs\<rparr>))"
      using g4(2) by simp
    have free: "free_fl_rule cb (fl\<lparr>fl_sources := ?srcs\<rparr>) rs p st4 = Some (LSDNE_OK, st5)"
      using 1(11) True rs by simp
    have "\<not> r_no_decommit st4" using ps dec by simp
    then show ?thesis
      using almost_free [OF 1(9) g4(1) _ alm4 free] free_fl_rule_linked [OF free] 1(10) by blast
  next
    case False
    then have fl: "flush_fl_rule cb (fl\<lparr>fl_sources := ?srcs\<rparr>) rs p True st4 = Some (LSDNE_OK, st5)"
      using 1(11) rs by simp
    then obtain nl where "st5 = st4\<lparr>r_nl := nl\<rparr>" using flush_fl_rule_frame by blast
    then show ?thesis using almost_flush(2) [OF cb inv get 1(6) alm put fl] 1(10) by simp
  qed
  moreover from this obtain s5 where s5: "r_sets st5 rs = Some s5" by (auto simp: mirrored_def split: option.splits)
  ultimately show ?thesis
    using 1(12) view_but_put_rule [OF _ s5] mirrored_cong [of cb st5 rs s5 st' s5] s5 by simp
qed

lemma ex_cb_appends: "cb_appends ex_cb"
proof -
  have "\<exists>as. \<forall>f. Some (lsdn_action_drop n f) = Some (fold attr_put as f)" for n
    by (rule exI [of _ "[A_nest (TC (TCA_ACT_ORDER n)) [A_str (TC TCA_ACT_KIND) ''gact'',
        A_nest (TC TCA_ACT_OPTIONS) [A_struct (TC TCA_GACT_PARMS) (Tc_gact TC_ACT_SHOT)]]]"])
      (simp add: lsdn_action_drop_def action_gact_def action_put_def)
  then show ?thesis by (simp add: cb_appends_def ex_cb_def)
qed

lemma ex_mirrored: "mirrored ex_cb ex_rules (RS_virt_in 1)"
  by (simp add: mirrored_def ex_rules_def ex_prio_def ex_nl_def ruleset_view_def prio_view_def)

lemma ex_add: "map_option fst (lsdn_ruleset_add ex_cb (RS_virt_in 1) 1 (R_vr 1) ex_rules) = Some LSDNE_OK"
  by code_simp

text \<open>
  C5. The kernel's filters mirror the rule set. When a rule is added, and the engine does not report an
  inconsistency, the filters installed for the rule set are exactly its flower rules with the
  keys and actions of their sources, whatever the kernel answered and wherever memory ran out.
\<close>

theorem lsdn_ruleset_add_mirrored:
  assumes cb: "cb_appends cb" and inv: "rules_inv st" and fresh: "\<not> linked st r"
    and mir: "mirrored cb st rs" and dec: "\<not> r_no_decommit st"
    and add: "lsdn_ruleset_add cb rs p r st = Some (err, st')" and err: "err \<noteq> LSDNE_INCONSISTENT"
  shows "mirrored cb st' rs"
  using assms by (rule mirrored_add)

theorem lsdn_ruleset_add_mirrored_witness:
  "\<exists>st'. lsdn_ruleset_add ex_cb (RS_virt_in 1) 1 (R_vr 1) ex_rules = Some (LSDNE_OK, st') \<and>
     mirrored ex_cb st' (RS_virt_in 1)"
proof -
  obtain st' where add: "lsdn_ruleset_add ex_cb (RS_virt_in 1) 1 (R_vr 1) ex_rules = Some (LSDNE_OK, st')"
    using ex_add by auto
  moreover have "mirrored ex_cb st' (RS_virt_in 1)"
    by (rule lsdn_ruleset_add_mirrored [OF ex_cb_appends ex_rules_inv ex_not_linked ex_mirrored _ add])
      (simp_all add: ex_rules_def)
  ultimately show ?thesis by blast
qed



text \<open>
  C9. When adding a rule fails although its flower rule is shared, the cleanup deletes the shared flower rule: the
  rules that were installed with it point to memory that is gone, and removing one of
  them is an invalid access.
\<close>

theorem lsdn_ruleset_add_failure_dangles:
  assumes inv: "rules_inv st" and fresh: "\<not> linked st r"
    and add: "lsdn_ruleset_add cb rs p r st = Some (err, st')" and err: "err \<noteq> LSDNE_OK" "err \<noteq> LSDNE_DUPLICATE"
    and rule: "masked_rule rs p r st = Some rule" and get: "get_prio st rs p = Some (s, prio)"
    and fl: "find_fl prio (rule_matches rule) = Some fl" "x \<in> set (fl_sources fl)"
  shows "lsdn_ruleset_remove cb' x st' = None"
  using inv fresh add
proof (cases rule: lsdn_ruleset_add_cases)
  case (NoMem rule')
  then show ?thesis using find_or_make_fl_absent(1) [OF NoMem(2)] get rule fl by simp
next
  case (Dup rule' fl' st2)
  then show ?thesis using err by simp
next
  case (Ins rule' fl' update st2 srcs st4 err1 st5)
  have upd: "update" using find_or_make_fl_absent(1) [OF Ins(2)] get rule fl Ins(1) by fastforce
  have f: "st2 = put_rule r rule st" "fl' = fl"
    using find_or_make_fl_found [of rs p "rule_matches rule" _ fl' st2] Ins(1,2) upd get rule fl by auto
  obtain ferr where free: "free_fl_rule cb (fl\<lparr>fl_sources := srcs\<rparr>) rs p st5 = Some (ferr, st')"
    using Ins(9) err f(2) by auto
  note fr = flush_frame [OF Ins(8)] and g4 = get_prio_after_add [OF Ins(6), of s prio]
  have get5: "get_prio st5 rs p = Some (set_prio (set_fl (fl\<lparr>fl_sources := srcs\<rparr>) prio) s, set_fl (fl\<lparr>fl_sources := srcs\<rparr>) prio)"
    using fr g4(1) get f by simp
  obtain s6 where get': "get_prio st' rs p = Some (s6, del_fl (fl_handle fl) (set_fl (fl\<lparr>fl_sources := srcs\<rparr>) prio))"
    and rules': "r_rules st' = r_rules st5"
    using free get5 get_prio_SomeD(4) [OF get]
    by (auto simp: free_fl_rule_def Let_def case_prod_unfold del_fl_def)
  have "source_ok (r_rules st) rs p fl x"
    using source_of_linked [OF inv get_prio_SomeD(1,3) [OF get] find_fl_SomeD(1) [OF fl(1)] fl(2)] get_prio_SomeD(4) [OF get]
    by simp
  moreover have "x \<noteq> r" using Ins(4) f(2) fl(2) by auto
  ultimately have "source_ok (r_rules st') rs p fl x"
    using rules' fr put_fl_simps(1) [OF Ins(6)] f(1) by (simp add: source_ok_def)
  moreover have "fl_by_handle (del_fl (fl_handle fl) prio') (fl_handle fl) = None" for prio'
    by (simp add: fl_by_handle_def del_fl_def find_None_iff)
  ultimately show ?thesis
    using get' by (auto simp: lsdn_ruleset_remove_def source_ok_def split: option.splits)
qed

definition ex_refuse :: rules where
  "ex_refuse = ex_rules\<lparr>r_nl := ex_nl\<lparr>nl_kernel := \<lambda>h m.
     if nm_type m = RTM_NEWTFILTER \<and> NLM_F_EXCL \<notin> nm_flags m then NL_error (-22) else NL_error 0\<rparr>\<rparr>"

lemma ex_refuse_eval:
  "(case lsdn_ruleset_add ex_cb (RS_virt_in 1) 1 (R_vr 1) ex_refuse of
      None \<Rightarrow> False
    | Some (e, st) \<Rightarrow> e = LSDNE_OK \<and>
        map_option fst (lsdn_ruleset_add ex_cb (RS_virt_in 1) 1 (R_vr 2) st) = Some LSDNE_NETLINK \<and>
        (case (masked_rule (RS_virt_in 1) 1 (R_vr 2) st, get_prio st (RS_virt_in 1) 1) of
           (Some rule, Some (s, prio)) \<Rightarrow>
             (case find_fl prio (rule_matches rule) of Some fl \<Rightarrow> fl_sources fl = [R_vr 1] | None \<Rightarrow> False) \<and>
             hash_prios s = [prio] \<and> list_all (\<lambda>fl. R_vr 2 \<notin> set (fl_sources fl)) (hash_fl_rules prio)
         | _ \<Rightarrow> False))"
  by code_simp

theorem lsdn_ruleset_add_failure_dangles_witness:
  "\<exists>st st'. lsdn_ruleset_add ex_cb (RS_virt_in 1) 1 (R_vr 1) ex_refuse = Some (LSDNE_OK, st) \<and>
     lsdn_ruleset_add ex_cb (RS_virt_in 1) 1 (R_vr 2) st = Some (LSDNE_NETLINK, st') \<and>
     lsdn_ruleset_remove ex_cb (R_vr 1) st' = None"
proof -
  obtain st st' rule s prio fl where
    add1: "lsdn_ruleset_add ex_cb (RS_virt_in 1) 1 (R_vr 1) ex_refuse = Some (LSDNE_OK, st)"
    and add2: "lsdn_ruleset_add ex_cb (RS_virt_in 1) 1 (R_vr 2) st = Some (LSDNE_NETLINK, st')"
    and rule: "masked_rule (RS_virt_in 1) 1 (R_vr 2) st = Some rule" and get: "get_prio st (RS_virt_in 1) 1 = Some (s, prio)"
    and fl: "find_fl prio (rule_matches rule) = Some fl" "fl_sources fl = [R_vr 1]"
  proof -
    obtain st where add1: "lsdn_ruleset_add ex_cb (RS_virt_in 1) 1 (R_vr 1) ex_refuse = Some (LSDNE_OK, st)"
      using ex_refuse_eval by (cases "lsdn_ruleset_add ex_cb (RS_virt_in 1) 1 (R_vr 1) ex_refuse") auto
    note ev = ex_refuse_eval [unfolded add1, simplified]
    obtain st' where add2: "lsdn_ruleset_add ex_cb (RS_virt_in 1) 1 (R_vr 2) st = Some (LSDNE_NETLINK, st')"
      using ev by auto
    obtain rule s prio where rg: "masked_rule (RS_virt_in 1) 1 (R_vr 2) st = Some rule"
      "get_prio st (RS_virt_in 1) 1 = Some (s, prio)"
      using ev by (cases "masked_rule (RS_virt_in 1) 1 (R_vr 2) st"; cases "get_prio st (RS_virt_in 1) 1") auto
    obtain fl where "find_fl prio (rule_matches rule) = Some fl" "fl_sources fl = [R_vr 1]"
      using ev rg by (cases "find_fl prio (rule_matches rule)") auto
    with add1 add2 rg that show thesis by blast
  qed
  have ex: "rules_inv ex_refuse" "\<not> linked ex_refuse r" for r
    using ex_rules_inv ex_not_linked by (simp_all add: ex_refuse_def)
  have "rules_inv st" "\<not> linked st (R_vr 2)"
    using rules_inv_add [OF ex add1] linked_add [OF ex add1, of "R_vr 2"] ex(2) by auto
  then have "lsdn_ruleset_remove ex_cb (R_vr 1) st' = None"
    using lsdn_ruleset_add_failure_dangles [OF _ _ add2 _ _ rule get fl(1)] fl(2) by simp
  then show ?thesis using add1 add2 by blast
qed

end
