(* ===== verification/DList.thy ===== *)
theory DList
  imports Prelude
begin

text \<open>
  The circular doubly linked lists of \<^verbatim>\<open>netmodel/list.c\<close> and
  \<^verbatim>\<open>netmodel/private/list.h\<close>, on an explicit store of list entries, and the
  proof that they implement lists: \<open>dlist h head xs\<close> says that the store holds at
  \<open>head\<close> a list whose entries are \<open>xs\<close>. The other theories use the abstract lists.
\<close>

section \<open>The store and the operations\<close>

record lsdn_list_entry =
  nxt :: ptr
  previous :: ptr

type_synonym list_heap = "ptr \<Rightarrow> lsdn_list_entry option"

definition set_nxt :: "ptr \<Rightarrow> ptr \<Rightarrow> list_heap \<Rightarrow> list_heap option" where
  "set_nxt p q h = do { e \<leftarrow> h p; Some (h(p \<mapsto> e\<lparr>nxt := q\<rparr>)) }"

definition set_previous :: "ptr \<Rightarrow> ptr \<Rightarrow> list_heap \<Rightarrow> list_heap option" where
  "set_previous p q h = do { e \<leftarrow> h p; Some (h(p \<mapsto> e\<lparr>previous := q\<rparr>)) }"

definition get_nxt :: "list_heap \<Rightarrow> ptr \<Rightarrow> ptr option" where
  "get_nxt h p = map_option nxt (h p)"

definition get_previous :: "list_heap \<Rightarrow> ptr \<Rightarrow> ptr option" where
  "get_previous h p = map_option previous (h p)"

definition lsdn_list_init :: "ptr \<Rightarrow> list_heap \<Rightarrow> list_heap option" where
  "lsdn_list_init head h = do {
     h \<leftarrow> set_nxt head head h;
     set_previous head head h
   }"

definition lsdn_is_list_empty :: "ptr \<Rightarrow> list_heap \<Rightarrow> bool option" where
  "lsdn_is_list_empty head h = do { n \<leftarrow> get_nxt h head; Some (n = head) }"

definition lsdn_list_init_add :: "ptr \<Rightarrow> ptr \<Rightarrow> list_heap \<Rightarrow> list_heap option" where
  "lsdn_list_init_add position entry h = do {
     h \<leftarrow> set_previous entry position h;
     n \<leftarrow> get_nxt h position;
     h \<leftarrow> set_nxt entry n h;
     h \<leftarrow> set_nxt position entry h;
     n \<leftarrow> get_nxt h entry;
     set_previous n entry h
   }"

definition lsdn_list_add :: "ptr \<Rightarrow> ptr \<Rightarrow> list_heap \<Rightarrow> list_heap option" where
  "lsdn_list_add position entry h = do {
     empty \<leftarrow> lsdn_is_list_empty entry h;
     c_assert empty;
     lsdn_list_init_add position entry h
   }"

definition lsdn_list_remove :: "ptr \<Rightarrow> list_heap \<Rightarrow> list_heap option" where
  "lsdn_list_remove entry h = do {
     empty \<leftarrow> lsdn_is_list_empty entry h;
     c_assert (\<not> empty);
     p \<leftarrow> get_previous h entry;
     n \<leftarrow> get_nxt h entry;
     h \<leftarrow> set_nxt p n h;
     n \<leftarrow> get_nxt h entry;
     p \<leftarrow> get_previous h entry;
     h \<leftarrow> set_previous n p h;
     lsdn_list_init entry h
   }"

text \<open>
  The macro \<^verbatim>\<open>lsdn_foreach\<close>: \<open>name\<close> and \<open>name_next\<close> are the two loop
  variables, and the body may change the store and the program state \<open>s\<close>.
\<close>

partial_function (option) foreach_loop ::
    "ptr \<Rightarrow> (ptr \<Rightarrow> list_heap \<times> 's \<Rightarrow> (list_heap \<times> 's) option) \<Rightarrow> ptr \<Rightarrow> ptr \<Rightarrow> list_heap \<times> 's
      \<Rightarrow> (list_heap \<times> 's) option" where
  "foreach_loop head body name name_next hs =
     (if name = head then Some hs
      else do {
        hs \<leftarrow> body name hs;
        n \<leftarrow> get_nxt (fst hs) name_next;
        foreach_loop head body name_next n hs
      })"

definition lsdn_foreach ::
    "ptr \<Rightarrow> (ptr \<Rightarrow> list_heap \<times> 's \<Rightarrow> (list_heap \<times> 's) option) \<Rightarrow> list_heap \<times> 's
      \<Rightarrow> (list_heap \<times> 's) option" where
  "lsdn_foreach head body hs = do {
     name \<leftarrow> get_nxt (fst hs) head;
     name_next \<leftarrow> get_nxt (fst hs) name;
     foreach_loop head body name name_next hs
   }"

section \<open>The abstraction\<close>

text \<open>
  \<open>seg nx pv p xs q\<close>: from \<open>p\<close> the links lead forward through \<open>xs\<close> to \<open>q\<close>, and back.
\<close>

primrec seg :: "(ptr \<Rightarrow> ptr option) \<Rightarrow> (ptr \<Rightarrow> ptr option) \<Rightarrow> ptr \<Rightarrow> ptr list \<Rightarrow> ptr \<Rightarrow> bool" where
  "seg nx pv p [] q \<longleftrightarrow> nx p = Some q \<and> pv q = Some p"
| "seg nx pv p (x # xs) q \<longleftrightarrow> nx p = Some x \<and> pv x = Some p \<and> seg nx pv x xs q"

definition dlist :: "list_heap \<Rightarrow> ptr \<Rightarrow> ptr list \<Rightarrow> bool" where
  "dlist h head xs \<longleftrightarrow> distinct (head # xs) \<and> seg (get_nxt h) (get_previous h) head xs head"

lemma seg_append:
  "seg nx pv p (xs @ y # ys) q \<longleftrightarrow> seg nx pv p xs y \<and> seg nx pv y ys q"
  by (induction xs arbitrary: p) auto

lemma seg_frame:
  assumes "\<And>a. a = p \<or> a \<in> set xs \<Longrightarrow> nx' a = nx a"
    and "\<And>a. a = q \<or> a \<in> set xs \<Longrightarrow> pv' a = pv a"
  shows "seg nx' pv' p xs q = seg nx pv p xs q"
  using assms by (induction xs arbitrary: p) auto

lemma seg_hd:
  assumes "seg nx pv p xs q" shows "nx p = Some (hd (xs @ [q]))"
  using assms by (cases xs) auto

lemma seg_hd_back:
  assumes "seg nx pv p xs q" shows "pv (hd (xs @ [q])) = Some p"
  using assms by (cases xs) auto

lemma seg_last:
  assumes "seg nx pv p xs q" shows "pv q = Some (last (p # xs))"
  using assms by (induction xs arbitrary: p) auto

lemma get_set [simp]:
  "set_nxt p q h = Some h' \<Longrightarrow> get_nxt h' = (get_nxt h)(p \<mapsto> q)"
  "set_nxt p q h = Some h' \<Longrightarrow> get_previous h' = get_previous h"
  "set_previous p q h = Some h' \<Longrightarrow> get_previous h' = (get_previous h)(p \<mapsto> q)"
  "set_previous p q h = Some h' \<Longrightarrow> get_nxt h' = get_nxt h"
  by (auto simp: set_nxt_def set_previous_def get_nxt_def get_previous_def bind_eq_Some_conv)

lemma set_total:
  "get_nxt h p \<noteq> None \<Longrightarrow> \<exists>h'. set_nxt p q h = Some h'"
  "get_nxt h p \<noteq> None \<Longrightarrow> \<exists>h'. set_previous p q h = Some h'"
  by (auto simp: set_nxt_def set_previous_def get_nxt_def)

lemma get_previous_None_iff: "get_previous h p = None \<longleftrightarrow> get_nxt h p = None"
  by (simp add: get_nxt_def get_previous_def)

lemma lsdn_list_init_effect:
  assumes "get_nxt h head \<noteq> None"
  shows "\<exists>h'. lsdn_list_init head h = Some h' \<and> get_nxt h' = (get_nxt h)(head \<mapsto> head) \<and>
    get_previous h' = (get_previous h)(head \<mapsto> head)"
proof -
  obtain h1 where h1: "set_nxt head head h = Some h1" using set_total(1) [OF assms] by blast
  then obtain h2 where "set_previous head head h1 = Some h2" using set_total(2) [of h1 head] by auto
  with h1 show ?thesis by (simp add: lsdn_list_init_def)
qed

lemma lsdn_list_init_add_effect:
  assumes "get_nxt h position = Some n" "get_nxt h entry \<noteq> None" "get_nxt h n \<noteq> None"
    and "entry \<noteq> position"
  shows "\<exists>h'. lsdn_list_init_add position entry h = Some h' \<and>
    get_nxt h' = (get_nxt h)(entry \<mapsto> n, position \<mapsto> entry) \<and>
    get_previous h' = (get_previous h)(entry \<mapsto> position, n \<mapsto> entry)"
proof -
  obtain h1 where h1: "set_previous entry position h = Some h1" using set_total assms by blast
  then have "get_nxt h1 entry \<noteq> None" using assms by simp
  then obtain h2 where h2: "set_nxt entry n h1 = Some h2" using set_total by blast
  then have "get_nxt h2 position \<noteq> None" using h1 assms by simp
  then obtain h3 where h3: "set_nxt position entry h2 = Some h3" using set_total by blast
  then have "get_nxt h3 n \<noteq> None" using h1 h2 assms by simp
  then obtain h4 where h4: "set_previous n entry h3 = Some h4" using set_total by blast
  from h1 h2 h3 h4 assms show ?thesis by (simp add: lsdn_list_init_add_def)
qed

lemma lsdn_list_remove_effect:
  assumes "get_nxt h e = Some n" "get_previous h e = Some p" "n \<noteq> e" "p \<noteq> e"
    and "get_nxt h n \<noteq> None" "get_nxt h p \<noteq> None"
  shows "\<exists>h'. lsdn_list_remove e h = Some h' \<and>
    get_nxt h' = (get_nxt h)(p \<mapsto> n, e \<mapsto> e) \<and>
    get_previous h' = (get_previous h)(n \<mapsto> p, e \<mapsto> e)"
proof -
  obtain h1 where h1: "set_nxt p n h = Some h1" using set_total assms by blast
  then have "get_nxt h1 n \<noteq> None" using assms by simp
  then obtain h2 where h2: "set_previous n p h1 = Some h2" using set_total by blast
  have "get_nxt h2 e \<noteq> None" using h1 h2 assms by simp
  from lsdn_list_init_effect [OF this] obtain h3 where h3: "lsdn_list_init e h2 = Some h3"
    and "get_nxt h3 = (get_nxt h2)(e \<mapsto> e)" "get_previous h3 = (get_previous h2)(e \<mapsto> e)"
    by blast
  then show ?thesis using h1 h2 assms
    by (simp add: lsdn_list_remove_def lsdn_is_list_empty_def)
qed

section \<open>The operations implement lists\<close>

lemma seg_insert:
  assumes "seg nx pv p ys q" "distinct (p # ys)" "q \<notin> set ys" "e \<notin> insert p (insert q (set ys))"
  shows "seg (nx(e \<mapsto> hd (ys @ [q]), p \<mapsto> e)) (pv(e \<mapsto> p, hd (ys @ [q]) \<mapsto> e)) p (e # ys) q"
proof (cases ys)
  case (Cons y zs)
  have "seg (nx(e \<mapsto> y, p \<mapsto> e)) (pv(e \<mapsto> p, y \<mapsto> e)) y zs q = seg nx pv y zs q"
    by (rule seg_frame) (use assms Cons in auto)
  then show ?thesis using assms Cons by auto
qed (use assms in auto)

lemma seg_unlink:
  assumes "seg nx pv e ys q" "distinct (p # ys)" "q \<notin> set ys" "e \<notin> insert p (insert q (set ys))"
  shows "seg (nx(p \<mapsto> hd (ys @ [q]), e \<mapsto> e)) (pv(hd (ys @ [q]) \<mapsto> p, e \<mapsto> e)) p ys q"
proof (cases ys)
  case (Cons y zs)
  have "seg (nx(p \<mapsto> y, e \<mapsto> e)) (pv(y \<mapsto> p, e \<mapsto> e)) y zs q = seg nx pv y zs q"
    by (rule seg_frame) (use assms Cons in auto)
  then show ?thesis using assms Cons by auto
qed (use assms in auto)

lemma dlist_alloc: "dlist h head xs \<Longrightarrow> a \<in> insert head (set xs) \<Longrightarrow> get_nxt h a \<noteq> None"
proof -
  have "seg nx pv p xs q \<Longrightarrow> a \<in> insert p (set xs) \<Longrightarrow> nx a \<noteq> None" for nx pv p q
    by (induction xs arbitrary: p) auto
  then show "dlist h head xs \<Longrightarrow> a \<in> insert head (set xs) \<Longrightarrow> get_nxt h a \<noteq> None"
    unfolding dlist_def by blast
qed

lemma dlist_frame:
  assumes "\<And>a. a \<in> insert head (set xs) \<Longrightarrow> get_nxt h' a = get_nxt h a \<and> get_previous h' a = get_previous h a"
  shows "dlist h' head xs = dlist h head xs"
  unfolding dlist_def by (subst seg_frame [of head xs _ "get_nxt h" head _ "get_previous h"]) (use assms in auto)

lemma dlist_Nil_empty: "dlist h head xs \<Longrightarrow> lsdn_is_list_empty head h = Some (xs = [])"
  using seg_hd [of _ _ head xs head]
  by (cases xs) (auto simp: dlist_def lsdn_is_list_empty_def)

lemma dlist_init: "get_nxt h head \<noteq> None \<Longrightarrow> \<exists>h'. lsdn_list_init head h = Some h' \<and> dlist h' head []"
  using lsdn_list_init_effect [of h head] by (auto simp: dlist_def)

lemma dlist_insert:
  assumes d: "dlist h head (xs @ ys)" and e: "get_nxt h e \<noteq> None" "e \<notin> set (head # xs @ ys)"
  defines "p \<equiv> last (head # xs)" and "n \<equiv> hd (ys @ [head])"
  assumes eff: "get_nxt h' = (get_nxt h)(e \<mapsto> n, p \<mapsto> e)"
    "get_previous h' = (get_previous h)(e \<mapsto> p, n \<mapsto> e)"
  shows "dlist h' head (xs @ e # ys)"
proof (cases xs rule: rev_cases)
  case Nil
  then show ?thesis
    using d e seg_insert [of "get_nxt h" "get_previous h" head ys head e]
    by (auto simp: dlist_def eff p_def n_def)
next
  case (snoc zs z)
  have n: "n = head \<or> n \<in> set ys" by (cases ys) (auto simp: n_def)
  have "seg (get_nxt h') (get_previous h') head zs z = seg (get_nxt h) (get_previous h) head zs z"
    by (rule seg_frame) (use d e snoc n in \<open>auto simp: dlist_def eff p_def\<close>)
  then show ?thesis
    using d e snoc seg_insert [of "get_nxt h" "get_previous h" z ys head e]
    by (auto simp: dlist_def eff p_def n_def seg_append)
qed

lemma dlist_delete:
  assumes d: "dlist h head (xs @ e # ys)"
  defines "p \<equiv> last (head # xs)" and "n \<equiv> hd (ys @ [head])"
  assumes eff: "get_nxt h' = (get_nxt h)(p \<mapsto> n, e \<mapsto> e)"
    "get_previous h' = (get_previous h)(n \<mapsto> p, e \<mapsto> e)"
  shows "dlist h' head (xs @ ys)"
proof (cases xs rule: rev_cases)
  case Nil
  then show ?thesis
    using d seg_unlink [of "get_nxt h" "get_previous h" e ys head head]
    by (auto simp: dlist_def eff p_def n_def)
next
  case (snoc zs z)
  have n: "n = head \<or> n \<in> set ys" by (cases ys) (auto simp: n_def)
  have "seg (get_nxt h') (get_previous h') head zs z = seg (get_nxt h) (get_previous h) head zs z"
    by (rule seg_frame) (use d snoc n in \<open>auto simp: dlist_def eff p_def\<close>)
  then show ?thesis
    using d snoc seg_unlink [of "get_nxt h" "get_previous h" e ys head z]
    by (auto simp: dlist_def eff p_def n_def seg_append)
qed

lemma lsdn_list_add_rep:
  assumes d: "dlist h head xs" and e: "dlist h e []" "e \<notin> set (head # xs)"
  shows "\<exists>h'. lsdn_list_add head e h = Some h' \<and> dlist h' head (e # xs) \<and>
    (\<forall>k zs. dlist h k zs \<longrightarrow> set (k # zs) \<inter> set (head # e # xs) = {} \<longrightarrow> dlist h' k zs)"
proof -
  define n where "n = hd (xs @ [head])"
  have n: "get_nxt h head = Some n" "n \<in> set (head # xs)"
    using d seg_hd [of _ _ head xs head] by (cases xs; auto simp: dlist_def n_def)+
  have al: "get_nxt h e \<noteq> None" "get_nxt h n \<noteq> None" using dlist_alloc d e(1) n(2) by auto
  obtain h' where h': "lsdn_list_init_add head e h = Some h'"
    "get_nxt h' = (get_nxt h)(e \<mapsto> n, head \<mapsto> e)"
    "get_previous h' = (get_previous h)(e \<mapsto> head, n \<mapsto> e)"
    using lsdn_list_init_add_effect [OF n(1) al] e(2) by auto
  have "dlist h' head (e # xs)"
    using dlist_insert [of h head "[]" xs e h'] d al(1) e(2) h'(2,3) by (simp add: n_def)
  moreover have "dlist h' k zs" if "dlist h k zs" "set (k # zs) \<inter> set (head # e # xs) = {}" for k zs
    using that n(2) h'(2,3) by (subst dlist_frame [of k zs h' h]) auto
  ultimately show ?thesis
    using h'(1) dlist_Nil_empty [OF e(1)] by (auto simp: lsdn_list_add_def)
qed

lemma lsdn_list_remove_rep:
  assumes d: "dlist h head (xs @ e # ys)"
  shows "\<exists>h'. lsdn_list_remove e h = Some h' \<and> dlist h' head (xs @ ys) \<and> dlist h' e [] \<and>
    (\<forall>k zs. dlist h k zs \<longrightarrow> set (k # zs) \<inter> set (head # xs @ e # ys) = {} \<longrightarrow> dlist h' k zs)"
proof -
  define n p where "n = hd (ys @ [head])" and "p = last (head # xs)"
  have segs: "seg (get_nxt h) (get_previous h) head xs e" "seg (get_nxt h) (get_previous h) e ys head"
    using d by (auto simp: dlist_def seg_append)
  have np: "get_nxt h e = Some n" "get_previous h e = Some p"
    using seg_hd [OF segs(2)] seg_last [OF segs(1)] by (simp_all add: n_def p_def)
  have mem: "n \<in> set (head # ys)" "p \<in> set (head # xs)" by (cases ys; simp add: n_def p_def)+
  then have ne: "n \<noteq> e" "p \<noteq> e" using d by (auto simp: dlist_def)
  have al: "get_nxt h n \<noteq> None" "get_nxt h p \<noteq> None" using dlist_alloc [OF d] mem by auto
  obtain h' where h': "lsdn_list_remove e h = Some h'"
    "get_nxt h' = (get_nxt h)(p \<mapsto> n, e \<mapsto> e)" "get_previous h' = (get_previous h)(n \<mapsto> p, e \<mapsto> e)"
    using lsdn_list_remove_effect [OF np ne al] by auto
  have "dlist h' head (xs @ ys)"
    using dlist_delete [OF d, of h'] h'(2,3) by (simp add: n_def p_def)
  moreover have "dlist h' e []" using h'(2,3) by (simp add: dlist_def)
  moreover have "dlist h' k zs"
    if "dlist h k zs" "set (k # zs) \<inter> set (head # xs @ e # ys) = {}" for k zs
    using that mem h'(2,3) by (subst dlist_frame [of k zs h' h]) auto
  ultimately show ?thesis using h'(1) by blast
qed

text \<open>
  The interface the rest of the library has with the lists, and what follows from it: \<open>rep h
  head xs\<close> is the abstraction, and each operation keeps the lists it does not touch.
\<close>

locale intrusive_list =
  fixes rep :: "'h \<Rightarrow> ptr \<Rightarrow> ptr list \<Rightarrow> bool"
    and add :: "ptr \<Rightarrow> ptr \<Rightarrow> 'h \<Rightarrow> 'h option"
    and remove :: "ptr \<Rightarrow> 'h \<Rightarrow> 'h option"
  assumes add_rep: "rep h head xs \<Longrightarrow> rep h e [] \<Longrightarrow> e \<notin> set (head # xs) \<Longrightarrow>
      \<exists>h'. add head e h = Some h' \<and> rep h' head (e # xs) \<and>
        (\<forall>k zs. rep h k zs \<longrightarrow> set (k # zs) \<inter> set (head # e # xs) = {} \<longrightarrow> rep h' k zs)"
    and remove_rep: "rep h head (xs @ e # ys) \<Longrightarrow>
      \<exists>h'. remove e h = Some h' \<and> rep h' head (xs @ ys) \<and> rep h' e [] \<and>
        (\<forall>k zs. rep h k zs \<longrightarrow> set (k # zs) \<inter> set (head # xs @ e # ys) = {} \<longrightarrow> rep h' k zs)"
    and rep_distinct: "rep h head xs \<Longrightarrow> distinct (head # xs)"
begin

lemma add_all:
  assumes "rep h head xs" "\<forall>e\<in>set es. rep h e []" "distinct es" "set es \<inter> set (head # xs) = {}"
  shows "\<exists>h'. foldM (add head) es h = Some h' \<and> rep h' head (rev es @ xs)"
  using assms
proof (induction es arbitrary: h xs)
  case (Cons e es)
  obtain h1 where h1: "add head e h = Some h1" "rep h1 head (e # xs)"
    "\<forall>k zs. rep h k zs \<longrightarrow> set (k # zs) \<inter> set (head # e # xs) = {} \<longrightarrow> rep h1 k zs"
    using add_rep [of h head xs e] Cons.prems by auto
  have "rep h1 d []" if "d \<in> set es" for d
    using h1(3) [rule_format, of d "[]"] that Cons.prems by auto
  then show ?case using Cons.IH [of h1 "e # xs"] h1(1,2) Cons.prems by auto
qed simp

lemma remove_all:
  assumes "rep h head xs"
  shows "\<exists>h'. foldM remove xs h = Some h' \<and> rep h' head []"
  using assms
proof (induction xs arbitrary: h)
  case (Cons e xs)
  then obtain h1 where "remove e h = Some h1" "rep h1 head xs"
    using remove_rep [of h head "[]" e xs] by auto
  then show ?case using Cons.IH [of h1] by simp
qed simp

lemma add_remove:
  assumes "rep h head xs" "rep h e []" "e \<notin> set (head # xs)"
  shows "\<exists>h' h''. add head e h = Some h' \<and> remove e h' = Some h'' \<and> rep h'' head xs \<and> rep h'' e []"
  using add_rep [OF assms] remove_rep [of _ head "[]" e xs] by fastforce

end

interpretation dl: intrusive_list dlist lsdn_list_add lsdn_list_remove
proof unfold_locales
  show "dlist h head xs \<Longrightarrow> distinct (head # xs)" for h head xs by (simp add: dlist_def)
qed (rule lsdn_list_add_rep lsdn_list_remove_rep; assumption)+

section \<open>Properties\<close>

text \<open>
  C11. Adding entries one after the other at the head of a list, each initialised and in no list,
  succeeds and gives the list with the entries in reverse order in front: every
  \<^verbatim>\<open>lsdn_list_add\<close> passes its assertion.
\<close>

theorem lsdn_list_add_builds:
  assumes "dlist h head xs" "\<forall>e\<in>set es. dlist h e []" "distinct es" "set es \<inter> set (head # xs) = {}"
  shows "\<exists>h'. foldM (lsdn_list_add head) es h = Some h' \<and> dlist h' head (rev es @ xs)"
  using assms by (rule dl.add_all)

definition list_heap_ex :: list_heap where
  "list_heap_ex = [0 \<mapsto> \<lparr>nxt = 0, previous = 0\<rparr>, 1 \<mapsto> \<lparr>nxt = 1, previous = 1\<rparr>, 2 \<mapsto> \<lparr>nxt = 2, previous = 2\<rparr>]"

theorem lsdn_list_add_builds_witness:
  "\<exists>h'. foldM (lsdn_list_add 0) [1, 2] list_heap_ex = Some h' \<and> dlist h' 0 [2, 1]"
  using lsdn_list_add_builds [of list_heap_ex 0 "[]" "[1, 2]"]
  by (simp add: dlist_def get_nxt_def get_previous_def list_heap_ex_def)

text \<open>
  C10. Removing an entry unlinks exactly that entry: the list keeps the others in their order, the
  entry becomes an empty list of its own (so it can be added again), and no other list changes.
\<close>

theorem lsdn_list_remove_unlinks:
  assumes "dlist h head (xs @ e # ys)"
  shows "\<exists>h'. lsdn_list_remove e h = Some h' \<and> dlist h' head (xs @ ys) \<and> dlist h' e [] \<and>
    (\<forall>k zs. dlist h k zs \<longrightarrow> set (k # zs) \<inter> set (head # xs @ e # ys) = {} \<longrightarrow> dlist h' k zs)"
  using assms by (rule lsdn_list_remove_rep)

definition list_heap_two :: list_heap where
  "list_heap_two = [0 \<mapsto> \<lparr>nxt = 1, previous = 2\<rparr>, 1 \<mapsto> \<lparr>nxt = 2, previous = 0\<rparr>, 2 \<mapsto> \<lparr>nxt = 0, previous = 1\<rparr>]"

lemma dlist_two: "dlist list_heap_two 0 [1, 2]"
  by (simp add: dlist_def get_nxt_def get_previous_def list_heap_two_def)

theorem lsdn_list_remove_unlinks_witness:
  "\<exists>h'. lsdn_list_remove 1 list_heap_two = Some h' \<and> dlist h' 0 [2]"
  using lsdn_list_remove_unlinks [of list_heap_two 0 "[]" 1 "[2]"] dlist_two by auto

text \<open>
  C12. \<^verbatim>\<open>lsdn_foreach\<close> visits every entry of the list exactly once, in order, and ends,
  whatever the body does to the entry it is given: it is enough that the body keeps the links
  behind the current entry. So a body that unlinks or frees its entry is safe, and the loop computes
  the fold of the body over the entries the list had at the start.
\<close>

theorem lsdn_foreach_visits:
  assumes body: "\<And>x rest p h s. seg (get_nxt h) (get_previous h) p (x # rest) head \<Longrightarrow>
      distinct (head # x # rest) \<Longrightarrow>
      \<exists>h' p'. body x (h, s) = Some (h', f x s) \<and> seg (get_nxt h') (get_previous h') p' rest head"
    and d: "dlist h head xs"
  shows "\<exists>h'. lsdn_foreach head body (h, s) = Some (h', fold f xs s)"
proof -
  have loop: "\<exists>h'. foreach_loop head body (hd (xs @ [head])) m (h, s) = Some (h', fold f xs s)"
    if "seg (get_nxt h) (get_previous h) p xs head" "distinct (head # xs)"
      "get_nxt h (hd (xs @ [head])) = Some m" for p m h s
    using that
  proof (induction xs arbitrary: p m h s)
    case Nil
    then show ?case by (simp add: foreach_loop.simps)
  next
    case (Cons x rest)
    obtain h1 p1 where h1: "body x (h, s) = Some (h1, f x s)"
      and seg1: "seg (get_nxt h1) (get_previous h1) p1 rest head"
      using body [OF Cons.prems(1,2)] by blast
    have m: "m = hd (rest @ [head])" using Cons.prems(1,3) seg_hd [of _ _ x rest head] by force
    obtain m' where m': "get_nxt h1 m = Some m'"
      using seg_hd_back [OF seg1] get_previous_None_iff [of h1 m] m by fastforce
    then show ?case
      using Cons.IH [OF seg1, of m' "f x s"] Cons.prems(2) h1 m
      by (simp add: foreach_loop.simps [of head body x])
  qed
  have s: "seg (get_nxt h) (get_previous h) head xs head" "distinct (head # xs)"
    using d by (simp_all add: dlist_def)
  obtain m where m: "get_nxt h (hd (xs @ [head])) = Some m"
    using seg_hd_back [OF s(1)] get_previous_None_iff [of h "hd (xs @ [head])"] by fastforce
  show ?thesis using loop [OF s m] seg_hd [OF s(1)] m by (simp add: lsdn_foreach_def)
qed

text \<open>The body that unlinks its entry and puts it on a list, as the cleanup loops do.\<close>

definition unlink_body :: "ptr \<Rightarrow> list_heap \<times> ptr list \<Rightarrow> (list_heap \<times> ptr list) option" where
  "unlink_body x hs = do { h \<leftarrow> lsdn_list_remove x (fst hs); Some (h, x # snd hs) }"

lemma seg_nx_mem: "seg nx pv p xs q \<Longrightarrow> a \<in> set (p # xs) \<Longrightarrow> the (nx a) \<in> set (xs @ [q])"
  by (induction xs arbitrary: p) auto

lemma unlink_body_keeps:
  assumes sg: "seg (get_nxt h) (get_previous h) p (x # rest) head" and dist: "distinct (head # x # rest)"
  shows "\<exists>h' p'. unlink_body x (h, s) = Some (h', x # s) \<and> seg (get_nxt h') (get_previous h') p' rest head"
proof -
  define n where "n = hd (rest @ [head])"
  have sg': "seg (get_nxt h) (get_previous h) x rest head" "get_nxt h p = Some x" "get_previous h x = Some p"
    using sg by auto
  have n: "get_nxt h x = Some n" "get_nxt h n \<noteq> None" "n \<in> set (rest @ [head])"
    using seg_hd [OF sg'(1)] seg_hd_back [OF sg'(1)] get_previous_None_iff [of h n]
    by (auto simp: n_def hd_append)
  have p: "p \<notin> set (x # rest)"
    using seg_nx_mem [OF sg'(1), of p] sg'(2) dist by auto
  obtain h' where "lsdn_list_remove x h = Some h'"
    and eff: "get_nxt h' = (get_nxt h)(p \<mapsto> n, x \<mapsto> x)" "get_previous h' = (get_previous h)(n \<mapsto> p, x \<mapsto> x)"
    using lsdn_list_remove_effect [OF n(1) sg'(3)] n p dist sg'(2) by auto
  moreover have "seg (get_nxt h') (get_previous h') p rest head"
    unfolding eff n_def by (rule seg_unlink [OF sg'(1)]) (use p dist in auto)
  ultimately show ?thesis by (auto simp: unlink_body_def)
qed

theorem lsdn_foreach_visits_witness:
  "\<exists>h'. lsdn_foreach 0 unlink_body (list_heap_two, []) = Some (h', [2, 1])"
proof -
  have "\<exists>h'. lsdn_foreach 0 unlink_body (list_heap_two, []) = Some (h', fold (#) [1, 2] [])"
    by (rule lsdn_foreach_visits) (rule unlink_body_keeps dlist_two; assumption)+
  then show ?thesis by simp
qed

end
