(* ===== verification/Names.thy ===== *)
theory Names
  imports Errors
begin

text \<open>
  The tables of unique names, \<^verbatim>\<open>netmodel/names.c\<close>. A name structure is embedded in
  the object it names, so it is identified by the pointer to the object. The table is the list of the
  named objects with their strings, the head of the C list first: a name's string is set and cleared
  together with its membership in the list, so an object outside the table has a null string.
\<close>

type_synonym lsdn_names = "(ptr \<times> string) list"

definition lsdn_names_init :: lsdn_names where
  "lsdn_names_init = []"

text \<open>The string of a name structure.\<close>

definition name_str :: "lsdn_names \<Rightarrow> ptr \<Rightarrow> string option" where
  "name_str table name = map_of table name"

definition lsdn_names_search :: "lsdn_names \<Rightarrow> string option \<Rightarrow> ptr option" where
  "lsdn_names_search table key =
     (case key of
        None \<Rightarrow> None
      | Some k \<Rightarrow> map_option fst (List.find (\<lambda>e. snd e = k) table))"

definition lsdn_name_free :: "ptr \<Rightarrow> lsdn_names \<Rightarrow> lsdn_names" where
  "lsdn_name_free name table = filter (\<lambda>e. fst e \<noteq> name) table"

definition lsdn_name_set ::
    "ptr \<Rightarrow> string option \<Rightarrow> lsdn_names \<times> oom \<Rightarrow> lsdn_err_t \<times> lsdn_names \<times> oom" where
  "lsdn_name_set name str st =
     (case (str, st) of
        (None, (table, m)) \<Rightarrow> (LSDNE_OK, lsdn_name_free name table, m)
      | (Some s, (table, m)) \<Rightarrow>
          if name_str table name = Some s then (LSDNE_OK, table, m)
          else if lsdn_names_search table (Some s) \<noteq> None then (LSDNE_DUPLICATE, table, m)
          else (case malloc m of
                  (False, m) \<Rightarrow> (LSDNE_NOMEM, table, m)
                | (True, m) \<Rightarrow> (LSDNE_OK, (name, s) # lsdn_name_free name table, m)))"

section \<open>The invariant and the operations' laws\<close>

definition names_wf :: "lsdn_names \<Rightarrow> bool" where
  "names_wf table \<longleftrightarrow> distinct (map fst table) \<and> distinct (map snd table)"

lemma names_wf_init [simp, inv_intros]: "names_wf lsdn_names_init"
  by (simp add: names_wf_def lsdn_names_init_def)

lemma names_wf_free [inv_intros]: "names_wf table \<Longrightarrow> names_wf (lsdn_name_free name table)"
  by (induction table) (auto simp: names_wf_def lsdn_name_free_def)

lemma name_str_free [simp]:
  "name_str (lsdn_name_free name table) q = (if q = name then None else name_str table q)"
  by (induction table) (auto simp: lsdn_name_free_def name_str_def)

lemma name_str_Some_iff: "names_wf table \<Longrightarrow> name_str table p = Some s \<longleftrightarrow> (p, s) \<in> set table"
  by (simp add: names_wf_def name_str_def)

lemma names_search_iff:
  assumes "names_wf table"
  shows "lsdn_names_search table (Some s) = Some p \<longleftrightarrow> name_str table p = Some s"
proof -
  have "List.find (\<lambda>e. snd e = s) table = Some (p, s) \<longleftrightarrow> (p, s) \<in> set table"
    if "distinct (map snd table)" for table
    using that by (induction table) force+
  moreover have "lsdn_names_search table (Some s) = Some p \<longleftrightarrow> List.find (\<lambda>e. snd e = s) table = Some (p, s)"
    by (force simp: lsdn_names_search_def dest: find_Some_D)
  ultimately show ?thesis using assms name_str_Some_iff by (simp add: names_wf_def)
qed

lemma names_search_None_iff: "lsdn_names_search table (Some s) = None \<longleftrightarrow> s \<notin> snd ` set table"
  by (force simp: lsdn_names_search_def find_None_iff)

lemma set_lsdn_name_free: "set (lsdn_name_free name table) = {e \<in> set table. fst e \<noteq> name}"
  by (auto simp: lsdn_name_free_def)

lemma names_wf_set [inv_intros]:
  assumes "names_wf table" "lsdn_name_set name str (table, m) = (e, table', m')"
  shows "names_wf table'"
proof -
  have "names_wf ((name, s) # lsdn_name_free name table)" if "s \<notin> snd ` set table" for s
    using names_wf_free [OF assms(1), of name] that
    by (auto simp: names_wf_def set_lsdn_name_free)
  then show ?thesis using assms names_wf_free
    by (auto simp: lsdn_name_set_def names_search_None_iff split: option.splits if_splits prod.splits bool.splits)
qed

text \<open>
  What the users of a table of names rely on: looking a name up gives the object that has it, and
  setting a name changes that object's name only.
\<close>

locale name_table =
  fixes inv :: "'t \<Rightarrow> bool"
    and str :: "'t \<Rightarrow> ptr \<Rightarrow> string option"
    and search :: "'t \<Rightarrow> string option \<Rightarrow> ptr option"
    and set_name :: "ptr \<Rightarrow> string option \<Rightarrow> 't \<times> oom \<Rightarrow> lsdn_err_t \<times> 't \<times> oom"
    and free_name :: "ptr \<Rightarrow> 't \<Rightarrow> 't"
  assumes search_iff: "inv t \<Longrightarrow> search t (Some s) = Some p \<longleftrightarrow> str t p = Some s"
    and free_str: "str (free_name p t) q = (if q = p then None else str t q)"
    and free_inv: "inv t \<Longrightarrow> inv (free_name p t)"
    and set_inv: "inv t \<Longrightarrow> set_name p k (t, m) = (e, t', m') \<Longrightarrow> inv t'"
    and set_OK: "inv t \<Longrightarrow> set_name p k (t, m) = (LSDNE_OK, t', m') \<Longrightarrow>
      str t' q = (if q = p then k else str t q)"
    and set_fail: "set_name p k (t, m) = (e, t', m') \<Longrightarrow> e \<noteq> LSDNE_OK \<Longrightarrow> t' = t"
begin

lemma str_inj: "inv t \<Longrightarrow> str t p = Some s \<Longrightarrow> str t q = Some s \<Longrightarrow> p = q"
  using search_iff [of t s p] search_iff [of t s q] by simp

lemma search_after_set:
  "inv t \<Longrightarrow> set_name p (Some s) (t, m) = (LSDNE_OK, t', m') \<Longrightarrow> search t' (Some s) = Some p"
  using search_iff [of t' s p] set_inv set_OK [of t p "Some s" m t' m' p] by auto

lemma search_other_after_set:
  assumes "inv t" "set_name p k (t, m) = (e, t', m')" "search t (Some s) = Some q" "q \<noteq> p"
  shows "search t' (Some s) = Some q"
proof (cases "e = LSDNE_OK")
  case True
  then show ?thesis
    using assms set_OK [of t p k m t' m' q] set_inv [OF assms(1,2)] search_iff by simp
next
  case False
  then show ?thesis using set_fail [OF assms(2)] assms(3) by simp
qed

lemma search_after_free: "inv t \<Longrightarrow> search (free_name p t) (Some s) \<noteq> Some p"
  using free_inv search_iff free_str by simp

end

lemma lsdn_name_set_OK_str:
  assumes "lsdn_name_set p k (t, m) = (LSDNE_OK, t', m')"
  shows "name_str t' q = (if q = p then k else name_str t q)"
proof -
  have "name_str ((p, s) # lsdn_name_free p t) q = (if q = p then Some s else name_str t q)" for s
    using name_str_free [of p t q] by (simp add: name_str_def)
  then show ?thesis using assms
    by (auto simp: lsdn_name_set_def split: option.splits if_splits prod.splits bool.splits)
qed

lemma lsdn_name_set_fail:
  "lsdn_name_set p k (t, m) = (e, t', m') \<Longrightarrow> e \<noteq> LSDNE_OK \<Longrightarrow> t' = t"
  by (auto simp: lsdn_name_set_def split: option.splits if_splits prod.splits bool.splits)

interpretation nt: name_table names_wf name_str lsdn_names_search lsdn_name_set lsdn_name_free
  by unfold_locales
    (simp_all add: names_search_iff names_wf_free names_wf_set lsdn_name_set_OK_str lsdn_name_set_fail)

section \<open>Properties\<close>

text \<open>
  C13. Setting a name keeps the names unique. It is refused as a duplicate exactly when another
  object has the name, a refused call changes nothing, and after a successful one the name finds the
  object while every other object keeps its name.
\<close>

theorem lsdn_name_set_spec:
  assumes "names_wf table" "lsdn_name_set p (Some s) (table, m) = (e, table', m')"
  shows "names_wf table' \<and> (e = LSDNE_DUPLICATE \<longleftrightarrow> (\<exists>q. q \<noteq> p \<and> name_str table q = Some s)) \<and>
    (if e = LSDNE_OK
     then lsdn_names_search table' (Some s) = Some p \<and> (\<forall>q. q \<noteq> p \<longrightarrow> name_str table' q = name_str table q)
     else table' = table)"
proof -
  have "e = LSDNE_DUPLICATE \<longleftrightarrow> name_str table p \<noteq> Some s \<and> lsdn_names_search table (Some s) \<noteq> None"
    using assms(2) by (auto simp: lsdn_name_set_def split: if_splits prod.splits bool.splits)
  also have "\<dots> \<longleftrightarrow> (\<exists>q. q \<noteq> p \<and> name_str table q = Some s)"
    using nt.search_iff [OF assms(1), of s] by (cases "lsdn_names_search table (Some s)") (auto, metis)
  finally show ?thesis
    using assms nt.set_inv nt.search_after_set lsdn_name_set_OK_str lsdn_name_set_fail by fastforce
qed

theorem lsdn_name_set_spec_witness:
  "lsdn_names_search (fst (snd (lsdn_name_set 2 (Some ''b'') ([(1, ''a'')], [])))) (Some ''b'') = Some 2 \<and>
   fst (lsdn_name_set 2 (Some ''a'') ([(1, ''a'')], [])) = LSDNE_DUPLICATE"
proof -
  have wf: "names_wf [(1, ''a'')]" by (simp add: names_wf_def)
  have b: "lsdn_name_set 2 (Some ''b'') ([(1, ''a'')], []) = (LSDNE_OK, [(2, ''b''), (1, ''a'')], [])"
    by (simp add: lsdn_name_set_def name_str_def lsdn_names_search_def lsdn_name_free_def)
  show ?thesis
    using lsdn_name_set_spec [OF wf b]
    by (simp add: b) (simp add: lsdn_name_set_def name_str_def lsdn_names_search_def)
qed

end
