(* ===== verification/Objects.thy ===== *)
theory Objects
  imports Complex_Main Rules Names
begin

text \<open>
  The objects of the network model and the context that owns them: the structures of
  \<^verbatim>\<open>netmodel/private/lsdn.h\<close>, \<^verbatim>\<open>netmodel/private/net.h\<close> and the part of
  \<^verbatim>\<open>netmodel/private/rules.h\<close> about the rules of virts, and the operations of
  \<^verbatim>\<open>netmodel/lsdn.c\<close> on the context itself.

  The context is one state. Every kind of object is a heap from addresses to the structures that
  are alive, a pointer is the address, and a linked list is the HOL list of the addresses of its
  members, the head first (the theory \<^verbatim>\<open>DList\<close> justifies this for the circular lists of
  the C code). What only the network back-ends change while they talk to the kernel
  is kept apart in the record \<open>runtime\<close>.
\<close>

section \<open>Objects\<close>

text \<open>A \<^verbatim>\<open>float\<close> is the rational number it denotes; infinities and NaN are not modelled.\<close>

record lsdn_qos_rate_t =
  avg_rate :: rat
  burst_size :: u32
  burst_rate :: rat

datatype lsdn_nettype = LSDN_NET_VXLAN | LSDN_NET_VLAN | LSDN_NET_DIRECT | LSDN_NET_GENEVE

datatype lsdn_switch = LSDN_LEARNING | LSDN_LEARNING_E2E | LSDN_STATIC_E2E

text \<open>The tables of callbacks that settings point to, by name.\<close>

datatype ops_ptr =
    OPS_direct | OPS_vlan | OPS_vxlan_mcast | OPS_vxlan_e2e | OPS_vxlan_static | OPS_geneve | OPS_geneve_e2e

datatype lsdn_direction = LSDN_IN | LSDN_OUT

text \<open>
  The ports of the union members \<^verbatim>\<open>vxlan\<close> and \<^verbatim>\<open>geneve\<close> are one field, since the ops decide
  which member is in use. The hook is the value of \<^verbatim>\<open>lsdn_startup_hook_user\<close> when a hook is set.
\<close>

record lsdn_settings =
  se_state :: lsdn_state
  se_pending_free :: bool
  setting_users_list :: "ptr list"
  se_ops :: ops_ptr
  nettype :: lsdn_nettype
  switch_type :: lsdn_switch
  se_port :: u16
  se_mcast_ip :: lsdn_ip_t
  startup_hook :: "ptr option"

record lsdn_phys =
  ph_state :: lsdn_state
  ph_pending_free :: bool
  attached_to_list :: "ptr list"
  is_local :: bool
  committed_as_local :: bool
  attr_iface :: "string option"
  attr_ip :: "lsdn_ip_t option"

record lsdn_net =
  ne_state :: lsdn_state
  ne_pending_free :: bool
  ne_settings :: ptr
  vnet_id :: u32
  virt_list :: "ptr list"
  attached_list :: "ptr list"
  virt_names :: lsdn_names

record lsdn_phys_attachment =
  pa_state :: lsdn_state
  pa_pending_free :: bool
  connected_virt_list :: "ptr list"
  pa_view_list :: "ptr list"
  remote_pa_list :: "ptr list"
  pa_net :: ptr
  pa_phys :: ptr
  explicitly_attached :: bool

text \<open>
  The rules of a virt with the same priority. A priority of the rule engine is addressed by its number, so
  \<open>commited_prio\<close> only says whether the pointer is set.
\<close>

record vr_prio =
  vr_prio_num :: u16
  commited_count :: nat
  commited_prio :: bool
  rules_list :: "ptr list"

record lsdn_virt =
  vi_state :: lsdn_state
  vi_pending_free :: bool
  virt_view_list :: "ptr list"
  network :: ptr
  connected_through :: "ptr option"
  committed_to :: "ptr option"
  connected_if :: lsdn_if
  committed_if :: lsdn_if
  attr_mac :: "lsdn_mac_t option"
  attr_rate_in :: "lsdn_qos_rate_t option"
  attr_rate_out :: "lsdn_qos_rate_t option"
  commited_policing_in :: bool
  commited_policing_out :: bool
  ht_in_rules :: "vr_prio list"
  ht_out_rules :: "vr_prio list"

text \<open>
  The rule embedded in a \<^verbatim>\<open>struct lsdn_vr\<close> belongs to the rule engine, under the
  address \<open>R_vr\<close>. \<open>vr_home\<close> says which list its \<^verbatim>\<open>rules_entry\<close> is linked in.
\<close>

record lsdn_vr =
  vr_pos :: u8
  vr_state :: lsdn_state
  vr_pending_free :: bool
  vr_targets :: "lsdn_rule_target list"
  vr_masks :: "lsdn_matchdata list"
  vr_home :: "ptr \<times> lsdn_direction \<times> u16"

record lsdn_remote_pa =
  rp_local :: ptr
  rp_remote :: ptr
  remote_virt_list :: "ptr list"

record lsdn_remote_virt =
  rv_pa :: ptr
  rv_virt :: ptr

section \<open>What the back-ends change\<close>

text \<open>
  The rule engine with the netlink environment, the counter for names, and the parts of
  the objects that belong to the Linux bridges: the tunnel interface and the bridge of an attachment,
  and the interface a virt or an attachment has added to a bridge (\<^verbatim>\<open>lbridge_if.iface\<close>). A part
  that was never written has the value \<open>None\<close>.
\<close>

record runtime =
  c_rules :: rules
  obj_count :: nat
  tunnel_if :: "ptr \<Rightarrow> lsdn_if option"
  lbridge :: "ptr \<Rightarrow> lsdn_if option"
  pa_lbridge_if :: "ptr \<Rightarrow> if_ptr option"
  vi_lbridge_if :: "ptr \<Rightarrow> if_ptr option"

text \<open>
  \<open>sockets\<close> gives the outcome of each coming attempt to open a netlink socket, like
  \<open>oom\<close> for memory. \<open>junk\<close> is what the memory of a rule holds that is fresh from
  \<^verbatim>\<open>malloc\<close>. \<open>hook_log\<close> lists the calls of startup hooks, the last one first.
\<close>

record lsdn_context =
  ctx_name :: string
  nomem_cb :: lsdn_nomem_cb
  phys_names :: lsdn_names
  net_names :: lsdn_names
  setting_names :: lsdn_names
  networks_list :: "ptr list"
  settings_list :: "ptr list"
  phys_list :: "ptr list"
  nlsock :: bool
  sockets :: "bool list"
  overwrite :: bool
  rep :: reporter
  settingss :: "ptr \<Rightarrow> lsdn_settings option"
  physes :: "ptr \<Rightarrow> lsdn_phys option"
  nets :: "ptr \<Rightarrow> lsdn_net option"
  pas :: "ptr \<Rightarrow> lsdn_phys_attachment option"
  virts :: "ptr \<Rightarrow> lsdn_virt option"
  vrs :: "ptr \<Rightarrow> lsdn_vr option"
  rpas :: "ptr \<Rightarrow> lsdn_remote_pa option"
  rvirts :: "ptr \<Rightarrow> lsdn_remote_virt option"
  next_ptr :: ptr
  junk :: "ptr \<Rightarrow> lsdn_rule"
  hook_log :: "(ptr \<times> ptr \<times> ptr) list"
  run :: runtime

abbreviation c_nl :: "lsdn_context \<Rightarrow> nlenv" where "c_nl c \<equiv> r_nl (c_rules (run c))"
abbreviation disable_decommit :: "lsdn_context \<Rightarrow> bool" where
  "disable_decommit c \<equiv> r_no_decommit (c_rules (run c))"

section \<open>Writing through a pointer\<close>

definition set_rules :: "rules \<Rightarrow> lsdn_context \<Rightarrow> lsdn_context" where
  "set_rules st c = c\<lparr>run := (run c)\<lparr>c_rules := st\<rparr>\<rparr>"

definition set_nl :: "nlenv \<Rightarrow> lsdn_context \<Rightarrow> lsdn_context" where
  "set_nl nl c = set_rules ((c_rules (run c))\<lparr>r_nl := nl\<rparr>) c"

definition upd_settings :: "ptr \<Rightarrow> (lsdn_settings \<Rightarrow> lsdn_settings) \<Rightarrow> lsdn_context \<Rightarrow> lsdn_context" where
  "upd_settings p f c = c\<lparr>settingss := (settingss c)(p := map_option f (settingss c p))\<rparr>"

definition upd_phys :: "ptr \<Rightarrow> (lsdn_phys \<Rightarrow> lsdn_phys) \<Rightarrow> lsdn_context \<Rightarrow> lsdn_context" where
  "upd_phys p f c = c\<lparr>physes := (physes c)(p := map_option f (physes c p))\<rparr>"

definition upd_net :: "ptr \<Rightarrow> (lsdn_net \<Rightarrow> lsdn_net) \<Rightarrow> lsdn_context \<Rightarrow> lsdn_context" where
  "upd_net p f c = c\<lparr>nets := (nets c)(p := map_option f (nets c p))\<rparr>"

definition upd_pa :: "ptr \<Rightarrow> (lsdn_phys_attachment \<Rightarrow> lsdn_phys_attachment) \<Rightarrow> lsdn_context \<Rightarrow> lsdn_context" where
  "upd_pa p f c = c\<lparr>pas := (pas c)(p := map_option f (pas c p))\<rparr>"

definition upd_virt :: "ptr \<Rightarrow> (lsdn_virt \<Rightarrow> lsdn_virt) \<Rightarrow> lsdn_context \<Rightarrow> lsdn_context" where
  "upd_virt p f c = c\<lparr>virts := (virts c)(p := map_option f (virts c p))\<rparr>"

definition upd_vr :: "ptr \<Rightarrow> (lsdn_vr \<Rightarrow> lsdn_vr) \<Rightarrow> lsdn_context \<Rightarrow> lsdn_context" where
  "upd_vr p f c = c\<lparr>vrs := (vrs c)(p := map_option f (vrs c p))\<rparr>"

definition upd_rpa :: "ptr \<Rightarrow> (lsdn_remote_pa \<Rightarrow> lsdn_remote_pa) \<Rightarrow> lsdn_context \<Rightarrow> lsdn_context" where
  "upd_rpa p f c = c\<lparr>rpas := (rpas c)(p := map_option f (rpas c p))\<rparr>"

lemmas upd_defs = upd_settings_def upd_phys_def upd_net_def upd_pa_def upd_virt_def upd_vr_def upd_rpa_def
  set_rules_def set_nl_def

section \<open>Memory and errors\<close>

definition c_alloc :: "lsdn_context \<Rightarrow> bool \<times> lsdn_context" where
  "c_alloc c = (case nl_malloc (c_nl c) of (ok, nl) \<Rightarrow> (ok, set_nl nl c))"

text \<open>\<^verbatim>\<open>malloc\<close> of an object gives an address that was never in use.\<close>

definition c_malloc :: "lsdn_context \<Rightarrow> ptr option \<times> lsdn_context" where
  "c_malloc c =
     (case c_alloc c of
        (True, c) \<Rightarrow> (Some (next_ptr c), c\<lparr>next_ptr := next_ptr c + 1\<rparr>)
      | (False, c) \<Rightarrow> (None, c))"

text \<open>\<^verbatim>\<open>ret_err(ctx, err)\<close> and \<^verbatim>\<open>ret_ptr(ctx, ptr)\<close> at the end of an operation.\<close>

definition c_ret_err :: "lsdn_err_t \<Rightarrow> lsdn_context \<Rightarrow> (lsdn_err_t \<times> lsdn_context) option" where
  "c_ret_err err c = map_option (\<lambda>e. (e, c)) (ret_err (nomem_cb c) err)"

definition c_ret_ptr :: "ptr option \<Rightarrow> lsdn_context \<Rightarrow> (ptr option \<times> lsdn_context) option" where
  "c_ret_ptr p c = map_option (\<lambda>q. (q, c)) (ret_ptr (nomem_cb c) p)"

definition c_report :: "lsdn_problem_code \<Rightarrow> lsdn_problem_ref list \<Rightarrow> lsdn_context \<Rightarrow> lsdn_context option" where
  "c_report cd rfs c = do { r \<leftarrow> lsdn_problem_report cd rfs (rep c); Some (c\<lparr>rep := r\<rparr>) }"

section \<open>The context\<close>

text \<open>
  \<^verbatim>\<open>snprintf\<close> into the buffer \<^verbatim>\<open>namebuf\<close> of 65 bytes keeps the first 64
  characters. The counter is an \<^verbatim>\<open>int\<close>; its overflow is not modelled.
\<close>

definition mk_name :: "string \<Rightarrow> string \<Rightarrow> nat \<Rightarrow> string" where
  "mk_name ctxname type n = take 64 (ctxname @ ''-'' @ type @ ''-'' @ fmt_d n)"

definition lsdn_mk_name :: "string \<Rightarrow> lsdn_context \<Rightarrow> string \<times> lsdn_context" where
  "lsdn_mk_name type c =
     (let n = obj_count (run c) + 1
      in (mk_name (ctx_name c) type n, c\<lparr>run := (run c)\<lparr>obj_count := n\<rparr>\<rparr>))"

text \<open>
  A new context. The environment gives the kernel, the coming memory and socket failures, and the
  contents of fresh memory. \<^verbatim>\<open>problem_count\<close>, \<^verbatim>\<open>problem_cb\<close> and \<^verbatim>\<open>inconsistent\<close> are set by
  each validation before they are read.
\<close>

definition lsdn_context_new ::
    "string \<Rightarrow> nlenv \<Rightarrow> bool list \<Rightarrow> (ptr \<Rightarrow> lsdn_rule) \<Rightarrow> lsdn_context option \<times> nlenv" where
  "lsdn_context_new name nl socks jnk =
     (case nl_malloc nl of
        (False, nl) \<Rightarrow> (None, nl)
      | (True, nl) \<Rightarrow>
          (case nl_malloc nl of
             (False, nl) \<Rightarrow> (None, nl)
           | (True, nl) \<Rightarrow>
               (Some \<lparr>ctx_name = name, nomem_cb = NOMEM_NULL, phys_names = lsdn_names_init,
                  net_names = lsdn_names_init, setting_names = lsdn_names_init, networks_list = [],
                  settings_list = [], phys_list = [], nlsock = False, sockets = socks, overwrite = True,
                  rep = \<lparr>problem_cb = CB_NULL, problem_count = 0, problem_log = [], inconsistent = False\<rparr>,
                  settingss = Map.empty, physes = Map.empty, nets = Map.empty, pas = Map.empty,
                  virts = Map.empty, vrs = Map.empty, rpas = Map.empty, rvirts = Map.empty,
                  next_ptr = 1, junk = jnk, hook_log = [],
                  run = \<lparr>c_rules = \<lparr>r_nl = nl, r_no_decommit = False, r_sets = Map.empty, r_rules = Map.empty\<rparr>,
                         obj_count = 0, tunnel_if = Map.empty, lbridge = Map.empty,
                         pa_lbridge_if = Map.empty, vi_lbridge_if = Map.empty\<rparr>\<rparr>, nl)))"

definition lsdn_context_set_overwrite :: "bool \<Rightarrow> lsdn_context \<Rightarrow> lsdn_context" where
  "lsdn_context_set_overwrite b c = c\<lparr>overwrite := b\<rparr>"

definition lsdn_context_get_overwrite :: "lsdn_context \<Rightarrow> bool" where
  "lsdn_context_get_overwrite c = overwrite c"

text \<open>\<^verbatim>\<open>lsdn_socket_init\<close> opens and binds a socket, or fails.\<close>

definition lsdn_context_ensure_socket :: "lsdn_context \<Rightarrow> lsdn_err_t \<times> lsdn_context" where
  "lsdn_context_ensure_socket c =
     (if nlsock c then (LSDNE_OK, c)
      else (case malloc (sockets c) of
              (True, s) \<Rightarrow> (LSDNE_OK, c\<lparr>nlsock := True, sockets := s\<rparr>)
            | (False, s) \<Rightarrow> (LSDNE_NETLINK, c\<lparr>sockets := s\<rparr>)))"

definition lsdn_context_set_nomem_callback :: "lsdn_nomem_cb \<Rightarrow> lsdn_context \<Rightarrow> lsdn_context" where
  "lsdn_context_set_nomem_callback cb c = c\<lparr>nomem_cb := cb\<rparr>"

definition lsdn_context_abort_on_nomem :: "lsdn_context \<Rightarrow> lsdn_context" where
  "lsdn_context_abort_on_nomem c = lsdn_context_set_nomem_callback NOMEM_ABORT c"

end
