(* ===== verification/VirtRules.thy ===== *)
theory VirtRules
  imports Objects
begin

text \<open>
  The rules a user attaches to a virt, the first part of \<^verbatim>\<open>netmodel/rules.c\<close>: creating
  a rule, adding matches to it, and freeing it now or at the next commit.
\<close>

definition LSDN_VR_PRIO_MAX :: u16 where "LSDN_VR_PRIO_MAX = 0x8000"
definition LSDN_PRIO_FORWARD_DST_MAC :: u16 where "LSDN_PRIO_FORWARD_DST_MAC = 0x8001"

definition LSDN_VR_DROP :: lsdn_action_desc where
  "LSDN_VR_DROP = \<lparr>actions_count = 1, act_fn = Fn_drop\<rparr>"

definition callback_drop :: "u16 \<Rightarrow> lsdn_filter \<Rightarrow> lsdn_filter" where
  "callback_drop order f = lsdn_action_drop order f"

section \<open>The tables of a virt\<close>

definition ht_rules :: "lsdn_direction \<Rightarrow> lsdn_virt \<Rightarrow> vr_prio list" where
  "ht_rules d v = (if d = LSDN_IN then ht_in_rules v else ht_out_rules v)"

definition upd_ht :: "lsdn_direction \<Rightarrow> (vr_prio list \<Rightarrow> vr_prio list) \<Rightarrow> lsdn_virt \<Rightarrow> lsdn_virt" where
  "upd_ht d f v =
     (if d = LSDN_IN then v\<lparr>ht_in_rules := f (ht_in_rules v)\<rparr> else v\<lparr>ht_out_rules := f (ht_out_rules v)\<rparr>)"

definition find_vr_prio :: "u16 \<Rightarrow> vr_prio list \<Rightarrow> vr_prio option" where
  "find_vr_prio n ht = List.find (\<lambda>pr. vr_prio_num pr = n) ht"

definition upd_vr_prio :: "u16 \<Rightarrow> (vr_prio \<Rightarrow> vr_prio) \<Rightarrow> vr_prio list \<Rightarrow> vr_prio list" where
  "upd_vr_prio n f ht = map (\<lambda>pr. if vr_prio_num pr = n then f pr else pr) ht"

section \<open>Creation\<close>

definition lsdn_vr_new ::
    "ptr \<Rightarrow> u16 \<Rightarrow> lsdn_direction \<Rightarrow> lsdn_action_desc \<Rightarrow> lsdn_context \<Rightarrow> (ptr option \<times> lsdn_context) option" where
  "lsdn_vr_new virt pnum dir a c = do {
     c_assert (pnum < LSDN_VR_PRIO_MAX \<or> pnum = LSDN_PRIO_FORWARD_DST_MAC);
     v \<leftarrow> virts c virt;
     (case c_malloc c of
        (None, c) \<Rightarrow> c_ret_ptr None c
      | (Some vr, c) \<Rightarrow>
          let found = find_vr_prio pnum (ht_rules dir v) \<noteq> None;
              (ok, c) = (if found then (True, c) else c_alloc c)
          in if \<not> ok then c_ret_ptr None c
             else let
                 new_prio = \<lparr>vr_prio_num = pnum, commited_count = 0, commited_prio = False, rules_list = []\<rparr>;
                 c = (if found then c else upd_virt virt (upd_ht dir (\<lambda>ht. ht @ [new_prio])) c);
                 c = c\<lparr>vrs := (vrs c)(vr \<mapsto>
                   \<lparr>vr_pos = 0, vr_state = LSDN_STATE_NEW, vr_pending_free = False,
                    vr_targets = replicate LSDN_MAX_MATCHES LSDN_MATCH_NONE,
                    vr_masks = replicate LSDN_MAX_MATCHES (replicate LSDN_MAX_MATCH_LEN 0),
                    vr_home = (virt, dir, pnum)\<rparr>)\<rparr>;
                 c = set_rules (put_rule (R_vr vr) ((junk c vr)\<lparr>rule_action := a\<rparr>) (c_rules (run c))) c;
                 c = upd_virt virt (upd_ht dir (upd_vr_prio pnum (\<lambda>pr. pr\<lparr>rules_list := vr # rules_list pr\<rparr>))) c
               in Some (Some vr, c))
   }"

section \<open>Matches\<close>

text \<open>
  The four functions \<^verbatim>\<open>lsdn_vr_add_masked_*\<close> share this body. The assertion of the code bounds
  the position by \<^verbatim>\<open>LSDN_MAX_MATCH_LEN\<close> (16) while the arrays have
  \<^verbatim>\<open>LSDN_MAX_MATCHES\<close> (2) entries; a position in between is a write outside the arrays, whose
  effect is not defined.
\<close>

definition vr_add_masked ::
    "ptr \<Rightarrow> lsdn_rule_target \<Rightarrow> u8 list \<Rightarrow> u8 list \<Rightarrow> lsdn_context \<Rightarrow> lsdn_context option" where
  "vr_add_masked vr target val msk c = do {
     r \<leftarrow> vrs c vr;
     rule \<leftarrow> r_rules (c_rules (run c)) (R_vr vr);
     let pos = unat (vr_pos r);
     c_assert (pos < LSDN_MAX_MATCH_LEN);
     c_assert (vr_state r = LSDN_STATE_NEW);
     c_assert (pos < LSDN_MAX_MATCHES);
     let c = upd_vr vr (\<lambda>r. r\<lparr>vr_pos := vr_pos r + 1, vr_targets := (vr_targets r)[pos := target],
                              vr_masks := (vr_masks r)[pos := match_write msk (vr_masks r ! pos)]\<rparr>) c;
     Some (set_rules (put_rule (R_vr vr) (rule\<lparr>rule_matches :=
       (rule_matches rule)[pos := match_write val (rule_matches rule ! pos)]\<rparr>) (c_rules (run c))) c)
   }"

definition lsdn_vr_add_masked_src_mac :: "ptr \<Rightarrow> lsdn_mac_t \<Rightarrow> lsdn_mac_t \<Rightarrow> lsdn_context \<Rightarrow> lsdn_context option" where
  "lsdn_vr_add_masked_src_mac vr val msk c = vr_add_masked vr LSDN_MATCH_SRC_MAC val msk c"

definition lsdn_vr_add_masked_dst_mac :: "ptr \<Rightarrow> lsdn_mac_t \<Rightarrow> lsdn_mac_t \<Rightarrow> lsdn_context \<Rightarrow> lsdn_context option" where
  "lsdn_vr_add_masked_dst_mac vr val msk c = vr_add_masked vr LSDN_MATCH_DST_MAC val msk c"

definition lsdn_vr_add_masked_src_ip :: "ptr \<Rightarrow> lsdn_ip_t \<Rightarrow> lsdn_ip_t \<Rightarrow> lsdn_context \<Rightarrow> lsdn_context option" where
  "lsdn_vr_add_masked_src_ip vr val msk c = do {
     c_assert (ip_v msk = ip_v val);
     vr_add_masked vr (if ip_v val = LSDN_IPv4 then LSDN_MATCH_SRC_IPV4 else LSDN_MATCH_SRC_IPV6)
       (ip_bytes val) (ip_bytes msk) c
   }"

definition lsdn_vr_add_masked_dst_ip :: "ptr \<Rightarrow> lsdn_ip_t \<Rightarrow> lsdn_ip_t \<Rightarrow> lsdn_context \<Rightarrow> lsdn_context option" where
  "lsdn_vr_add_masked_dst_ip vr val msk c = do {
     c_assert (ip_v msk = ip_v val);
     vr_add_masked vr (if ip_v val = LSDN_IPv4 then LSDN_MATCH_DST_IPV4 else LSDN_MATCH_DST_IPV6)
       (ip_bytes val) (ip_bytes msk) c
   }"

section \<open>Freeing\<close>

definition do_free_vr :: "ptr \<Rightarrow> lsdn_context \<Rightarrow> lsdn_context option" where
  "do_free_vr vr c = do {
     r \<leftarrow> vrs c vr;
     let (virt, dir, n) = vr_home r;
     let c = upd_virt virt (upd_ht dir (upd_vr_prio n (\<lambda>pr. pr\<lparr>rules_list := remove1 vr (rules_list pr)\<rparr>))) c;
     let c = c\<lparr>vrs := (vrs c)(vr := None)\<rparr>;
     let st = c_rules (run c);
     Some (set_rules (st\<lparr>r_rules := (r_rules st)(R_vr vr := None)\<rparr>) c)
   }"

definition do_free_vr_prio :: "ptr \<Rightarrow> lsdn_direction \<Rightarrow> vr_prio \<Rightarrow> lsdn_context \<Rightarrow> lsdn_context option" where
  "do_free_vr_prio virt dir prio c = do {
     c \<leftarrow> foldM do_free_vr (rules_list prio) c;
     Some (upd_virt virt (upd_ht dir (filter (\<lambda>pr. vr_prio_num pr \<noteq> vr_prio_num prio))) c)
   }"

definition lsdn_vr_do_free_all_rules :: "ptr \<Rightarrow> lsdn_context \<Rightarrow> lsdn_context option" where
  "lsdn_vr_do_free_all_rules virt c = do {
     v \<leftarrow> virts c virt;
     c \<leftarrow> foldM (do_free_vr_prio virt LSDN_IN) (ht_in_rules v) c;
     v \<leftarrow> virts c virt;
     c_assert (ht_in_rules v = []);
     c \<leftarrow> foldM (do_free_vr_prio virt LSDN_OUT) (ht_out_rules v) c;
     v \<leftarrow> virts c virt;
     c_assert (ht_out_rules v = []);
     Some c
   }"

definition lsdn_vr_free :: "ptr \<Rightarrow> lsdn_context \<Rightarrow> lsdn_context option" where
  "lsdn_vr_free vr c = do {
     r \<leftarrow> vrs c vr;
     (case free_helper (vr_state r) of
        Free_now \<Rightarrow> do_free_vr vr c
      | Mark_deleted \<Rightarrow> Some (upd_vr vr (\<lambda>r. r\<lparr>vr_pending_free := True, vr_state := LSDN_STATE_DELETE\<rparr>) c))
   }"

definition lsdn_vrs_free_all :: "ptr \<Rightarrow> lsdn_context \<Rightarrow> lsdn_context option" where
  "lsdn_vrs_free_all virt c = do {
     v \<leftarrow> virts c virt;
     c \<leftarrow> foldM (\<lambda>prio. foldM lsdn_vr_free (rules_list prio)) (ht_in_rules v) c;
     v \<leftarrow> virts c virt;
     foldM (\<lambda>prio. foldM lsdn_vr_free (rules_list prio)) (ht_out_rules v) c
   }"

end
