(* ===== verification/Model.thy ===== *)
theory Model
  imports VirtRules
begin

text \<open>
  The interface through which the network model is built and changed, the first half of
  \<^verbatim>\<open>netmodel/lsdn.c\<close>: settings, networks, physes with their attachments, and virts.
  An object that was committed is not freed at once but marked for the next commit
  (\<^verbatim>\<open>free_helper\<close>); changing an attribute of a committed object marks it for renewal.
\<close>

section \<open>Names\<close>

text \<open>Setting a name in a table of the context, with the memory of the context.\<close>

definition c_name_set ::
    "ptr \<Rightarrow> string option \<Rightarrow> lsdn_names \<Rightarrow> lsdn_context \<Rightarrow> lsdn_err_t \<times> lsdn_names \<times> lsdn_context" where
  "c_name_set p name tab c =
     (case lsdn_name_set p name (tab, nl_oom (c_nl c)) of (err, tab, m) \<Rightarrow>
        (err, tab, set_nl ((c_nl c)\<lparr>nl_oom := m\<rparr>) c))"

definition lsdn_settings_set_name :: "ptr \<Rightarrow> string option \<Rightarrow> lsdn_context \<Rightarrow> (lsdn_err_t \<times> lsdn_context) option" where
  "lsdn_settings_set_name s name c = do {
     _ \<leftarrow> settingss c s;
     let (err, tab, c) = c_name_set s name (setting_names c) c;
     c_ret_err err (c\<lparr>setting_names := tab\<rparr>)
   }"

definition lsdn_net_set_name :: "ptr \<Rightarrow> string option \<Rightarrow> lsdn_context \<Rightarrow> (lsdn_err_t \<times> lsdn_context) option" where
  "lsdn_net_set_name n name c = do {
     _ \<leftarrow> nets c n;
     let (err, tab, c) = c_name_set n name (net_names c) c;
     c_ret_err err (c\<lparr>net_names := tab\<rparr>)
   }"

definition lsdn_phys_set_name :: "ptr \<Rightarrow> string option \<Rightarrow> lsdn_context \<Rightarrow> (lsdn_err_t \<times> lsdn_context) option" where
  "lsdn_phys_set_name p name c = do {
     _ \<leftarrow> physes c p;
     let (err, tab, c) = c_name_set p name (phys_names c) c;
     c_ret_err err (c\<lparr>phys_names := tab\<rparr>)
   }"

definition lsdn_virt_set_name :: "ptr \<Rightarrow> string option \<Rightarrow> lsdn_context \<Rightarrow> (lsdn_err_t \<times> lsdn_context) option" where
  "lsdn_virt_set_name v name c = do {
     vi \<leftarrow> virts c v;
     n \<leftarrow> nets c (network vi);
     let (err, tab, c) = c_name_set v name (virt_names n) c;
     c_ret_err err (upd_net (network vi) (\<lambda>n. n\<lparr>virt_names := tab\<rparr>) c)
   }"

definition lsdn_settings_get_name :: "ptr \<Rightarrow> lsdn_context \<Rightarrow> string option" where
  "lsdn_settings_get_name s c = name_str (setting_names c) s"

definition lsdn_net_get_name :: "ptr \<Rightarrow> lsdn_context \<Rightarrow> string option" where
  "lsdn_net_get_name n c = name_str (net_names c) n"

definition lsdn_phys_get_name :: "ptr \<Rightarrow> lsdn_context \<Rightarrow> string option" where
  "lsdn_phys_get_name p c = name_str (phys_names c) p"

definition lsdn_virt_get_name :: "ptr \<Rightarrow> lsdn_context \<Rightarrow> string option option" where
  "lsdn_virt_get_name v c = do {
     vi \<leftarrow> virts c v;
     n \<leftarrow> nets c (network vi);
     Some (name_str (virt_names n) v)
   }"

text \<open>An object that is marked for deletion is not found any more.\<close>

definition lsdn_settings_by_name :: "string option \<Rightarrow> lsdn_context \<Rightarrow> ptr option option" where
  "lsdn_settings_by_name name c =
     (case lsdn_names_search (setting_names c) name of
        None \<Rightarrow> Some None
      | Some s \<Rightarrow> do { x \<leftarrow> settingss c s; Some (if se_state x = LSDN_STATE_DELETE then None else Some s) })"

definition lsdn_net_by_name :: "string option \<Rightarrow> lsdn_context \<Rightarrow> ptr option option" where
  "lsdn_net_by_name name c =
     (case lsdn_names_search (net_names c) name of
        None \<Rightarrow> Some None
      | Some n \<Rightarrow> do { x \<leftarrow> nets c n; Some (if ne_state x = LSDN_STATE_DELETE then None else Some n) })"

definition lsdn_phys_by_name :: "string option \<Rightarrow> lsdn_context \<Rightarrow> ptr option option" where
  "lsdn_phys_by_name name c =
     (case lsdn_names_search (phys_names c) name of
        None \<Rightarrow> Some None
      | Some p \<Rightarrow> do { x \<leftarrow> physes c p; Some (if ph_state x = LSDN_STATE_DELETE then None else Some p) })"

definition lsdn_virt_by_name :: "ptr \<Rightarrow> string option \<Rightarrow> lsdn_context \<Rightarrow> ptr option option" where
  "lsdn_virt_by_name n name c = do {
     net \<leftarrow> nets c n;
     (case lsdn_names_search (virt_names net) name of
        None \<Rightarrow> Some None
      | Some v \<Rightarrow> do { x \<leftarrow> virts c v; Some (if vi_state x = LSDN_STATE_DELETE then None else Some v) })
   }"

section \<open>Attachments\<close>

fun find_attachment :: "(ptr \<Rightarrow> lsdn_phys_attachment option) \<Rightarrow> ptr \<Rightarrow> ptr list \<Rightarrow> ptr option option" where
  "find_attachment h net [] = Some None"
| "find_attachment h net (a # as) = do {
     x \<leftarrow> h a;
     if pa_net x = net then Some (Some a) else find_attachment h net as
   }"

definition find_or_create_attachement :: "ptr \<Rightarrow> ptr \<Rightarrow> lsdn_context \<Rightarrow> (ptr option \<times> lsdn_context) option" where
  "find_or_create_attachement phys net c = do {
     p \<leftarrow> physes c phys;
     found \<leftarrow> find_attachment (pas c) net (attached_to_list p);
     (case found of
        Some a \<Rightarrow> Some (Some a, c)
      | None \<Rightarrow>
          (case c_malloc c of
             (None, c) \<Rightarrow> Some (None, c)
           | (Some a, c) \<Rightarrow> do {
               _ \<leftarrow> nets c net;
               let c = c\<lparr>pas := (pas c)(a \<mapsto>
                 \<lparr>pa_state = LSDN_STATE_NEW, pa_pending_free = False, connected_virt_list = [], pa_view_list = [],
                  remote_pa_list = [], pa_net = net, pa_phys = phys, explicitly_attached = False\<rparr>)\<rparr>;
               let c = upd_net net (\<lambda>n. n\<lparr>attached_list := a # attached_list n\<rparr>) c;
               let c = upd_phys phys (\<lambda>p. p\<lparr>attached_to_list := a # attached_to_list p\<rparr>) c;
               Some (Some a, c)
             }))
   }"

definition renew_phys :: "ptr \<Rightarrow> lsdn_context \<Rightarrow> lsdn_context option" where
  "renew_phys p c = do {
     x \<leftarrow> physes c p;
     s \<leftarrow> renew (ph_state x);
     Some (upd_phys p (\<lambda>x. x\<lparr>ph_state := s\<rparr>) c)
   }"

definition renew_virt :: "ptr \<Rightarrow> lsdn_context \<Rightarrow> lsdn_context option" where
  "renew_virt v c = do {
     x \<leftarrow> virts c v;
     s \<leftarrow> renew (vi_state x);
     Some (upd_virt v (\<lambda>x. x\<lparr>vi_state := s\<rparr>) c)
   }"

definition lsdn_phys_attach :: "ptr \<Rightarrow> ptr \<Rightarrow> lsdn_context \<Rightarrow> (lsdn_err_t \<times> lsdn_context) option" where
  "lsdn_phys_attach phys net c = do {
     (a, c) \<leftarrow> find_or_create_attachement phys net c;
     (case a of
        None \<Rightarrow> c_ret_err LSDNE_NOMEM c
      | Some a \<Rightarrow> do {
          x \<leftarrow> pas c a;
          c \<leftarrow> (if \<not> explicitly_attached x then renew_phys phys c else Some c);
          c_ret_err LSDNE_OK (upd_pa a (\<lambda>x. x\<lparr>explicitly_attached := True\<rparr>) c)
        })
   }"

definition pa_do_free :: "ptr \<Rightarrow> lsdn_context \<Rightarrow> lsdn_context option" where
  "pa_do_free a c = do {
     x \<leftarrow> pas c a;
     c_assert (connected_virt_list x = []);
     c_assert (\<not> explicitly_attached x);
     let c = upd_net (pa_net x) (\<lambda>n. n\<lparr>attached_list := remove1 a (attached_list n)\<rparr>) c;
     let c = upd_phys (pa_phys x) (\<lambda>p. p\<lparr>attached_to_list := remove1 a (attached_to_list p)\<rparr>) c;
     Some (c\<lparr>pas := (pas c)(a := None)\<rparr>)
   }"

definition free_pa_if_possible :: "ptr \<Rightarrow> lsdn_context \<Rightarrow> lsdn_context option" where
  "free_pa_if_possible a c = do {
     x \<leftarrow> pas c a;
     if connected_virt_list x = [] \<and> \<not> explicitly_attached x then
       (case free_helper (pa_state x) of
          Free_now \<Rightarrow> pa_do_free a c
        | Mark_deleted \<Rightarrow> Some (upd_pa a (\<lambda>x. x\<lparr>pa_pending_free := True, pa_state := LSDN_STATE_DELETE\<rparr>) c))
     else Some c
   }"

definition phys_detach_by_pa :: "ptr \<Rightarrow> lsdn_context \<Rightarrow> lsdn_context option" where
  "phys_detach_by_pa a c = free_pa_if_possible a (upd_pa a (\<lambda>x. x\<lparr>explicitly_attached := False\<rparr>) c)"

definition lsdn_phys_detach :: "ptr \<Rightarrow> ptr \<Rightarrow> lsdn_context \<Rightarrow> lsdn_context option" where
  "lsdn_phys_detach phys net c = do {
     p \<leftarrow> physes c phys;
     found \<leftarrow> find_attachment (pas c) net (attached_to_list p);
     (case found of None \<Rightarrow> Some c | Some a \<Rightarrow> phys_detach_by_pa a c)
   }"

section \<open>Virts\<close>

definition lsdn_virt_new :: "ptr \<Rightarrow> lsdn_context \<Rightarrow> (ptr option \<times> lsdn_context) option" where
  "lsdn_virt_new net c = do {
     _ \<leftarrow> nets c net;
     (case c_malloc c of
        (None, c) \<Rightarrow> c_ret_ptr None c
      | (Some v, c) \<Rightarrow>
          let c = c\<lparr>virts := (virts c)(v \<mapsto>
                \<lparr>vi_state = LSDN_STATE_NEW, vi_pending_free = False, virt_view_list = [], network = net,
                 connected_through = None, committed_to = None, connected_if = lsdn_if_init,
                 committed_if = lsdn_if_init, attr_mac = None, attr_rate_in = None, attr_rate_out = None,
                 commited_policing_in = False, commited_policing_out = False, ht_in_rules = [], ht_out_rules = []\<rparr>)\<rparr>;
              st = c_rules (run c);
              c = set_rules (put_rule (R_policing_in v) (junk c v) (put_rule (R_policing_out v) (junk c v) st)) c;
              c = upd_net net (\<lambda>n. n\<lparr>virt_list := v # virt_list n\<rparr>) c
          in c_ret_ptr (Some v) c)
   }"

definition lsdn_virt_get_net :: "ptr \<Rightarrow> lsdn_context \<Rightarrow> ptr option" where
  "lsdn_virt_get_net v c = map_option network (virts c v)"

definition virt_do_free :: "ptr \<Rightarrow> lsdn_context \<Rightarrow> lsdn_context option" where
  "virt_do_free v c = do {
     c \<leftarrow> lsdn_vr_do_free_all_rules v c;
     x \<leftarrow> virts c v;
     c \<leftarrow> (case connected_through x of
          None \<Rightarrow> Some c
        | Some a \<Rightarrow> do {
            let c = upd_pa a (\<lambda>y. y\<lparr>connected_virt_list := remove1 v (connected_virt_list y)\<rparr>) c;
            c \<leftarrow> free_pa_if_possible a c;
            Some (upd_virt v (\<lambda>x. x\<lparr>connected_through := None\<rparr>) c)
          });
     let c = upd_net (network x) (\<lambda>n. n\<lparr>virt_list := remove1 v (virt_list n),
                                        virt_names := lsdn_name_free v (virt_names n)\<rparr>) c;
     let c = c\<lparr>virts := (virts c)(v := None)\<rparr>;
     let st = c_rules (run c);
     Some (set_rules (st\<lparr>r_rules := (r_rules st)(R_policing_in v := None, R_policing_out v := None)\<rparr>) c)
   }"

definition lsdn_virt_free :: "ptr \<Rightarrow> lsdn_context \<Rightarrow> lsdn_context option" where
  "lsdn_virt_free v c = do {
     c \<leftarrow> lsdn_vrs_free_all v c;
     x \<leftarrow> virts c v;
     (case free_helper (vi_state x) of
        Free_now \<Rightarrow> virt_do_free v c
      | Mark_deleted \<Rightarrow> Some (upd_virt v (\<lambda>x. x\<lparr>vi_pending_free := True, vi_state := LSDN_STATE_DELETE\<rparr>) c))
   }"

definition lsdn_virt_disconnect :: "ptr \<Rightarrow> lsdn_context \<Rightarrow> lsdn_context option" where
  "lsdn_virt_disconnect v c = do {
     x \<leftarrow> virts c v;
     (case connected_through x of
        None \<Rightarrow> Some c
      | Some a \<Rightarrow> do {
          let c = upd_pa a (\<lambda>y. y\<lparr>connected_virt_list := remove1 v (connected_virt_list y)\<rparr>) c;
          let c = upd_virt v (\<lambda>x. x\<lparr>connected_through := None\<rparr>) c;
          renew_virt v c
        })
   }"

definition lsdn_virt_connect :: "ptr \<Rightarrow> ptr \<Rightarrow> string \<Rightarrow> lsdn_context \<Rightarrow> (lsdn_err_t \<times> lsdn_context) option" where
  "lsdn_virt_connect v phys iface c = do {
     x \<leftarrow> virts c v;
     (a, c) \<leftarrow> find_or_create_attachement phys (network x) c;
     (case a of
        None \<Rightarrow> c_ret_err LSDNE_NOMEM c
      | Some a \<Rightarrow>
          (case lsdn_if_set_name (connected_if x) iface (c_nl c) of (err, i, nl) \<Rightarrow>
             let c = set_nl nl c in
             if err \<noteq> LSDNE_OK then c_ret_err err c
             else do {
               let c = upd_virt v (\<lambda>x. x\<lparr>connected_if := i\<rparr>) c;
               c \<leftarrow> lsdn_virt_disconnect v c;
               let c = upd_virt v (\<lambda>x. x\<lparr>connected_through := Some a\<rparr>) c;
               c \<leftarrow> renew_virt v c;
               let c = upd_pa a (\<lambda>y. y\<lparr>connected_virt_list := v # connected_virt_list y\<rparr>) c;
               c_ret_err LSDNE_OK c
             }))
   }"

section \<open>Attributes of virts\<close>

definition lsdn_virt_set_mac :: "ptr \<Rightarrow> lsdn_mac_t \<Rightarrow> lsdn_context \<Rightarrow> (lsdn_err_t \<times> lsdn_context) option" where
  "lsdn_virt_set_mac v mac c = do {
     x \<leftarrow> virts c v;
     if (case attr_mac x of None \<Rightarrow> False | Some m \<Rightarrow> lsdn_mac_eq m mac) then c_ret_err LSDNE_OK c
     else (case c_alloc c of
         (False, c) \<Rightarrow> c_ret_err LSDNE_NOMEM c
       | (True, c) \<Rightarrow> do {
           c \<leftarrow> renew_virt v (upd_virt v (\<lambda>x. x\<lparr>attr_mac := Some mac\<rparr>) c);
           c_ret_err LSDNE_OK c
         })
   }"

definition lsdn_virt_clear_mac :: "ptr \<Rightarrow> lsdn_context \<Rightarrow> lsdn_context option" where
  "lsdn_virt_clear_mac v c = do {
     x \<leftarrow> virts c v;
     c \<leftarrow> (if attr_mac x \<noteq> None then renew_virt v c else Some c);
     Some (upd_virt v (\<lambda>x. x\<lparr>attr_mac := None\<rparr>) c)
   }"

definition lsdn_virt_get_mac :: "ptr \<Rightarrow> lsdn_context \<Rightarrow> lsdn_mac_t option option" where
  "lsdn_virt_get_mac v c = map_option attr_mac (virts c v)"

definition lsdn_virt_set_rate_in :: "ptr \<Rightarrow> lsdn_qos_rate_t \<Rightarrow> lsdn_context \<Rightarrow> (lsdn_err_t \<times> lsdn_context) option" where
  "lsdn_virt_set_rate_in v r c = do {
     _ \<leftarrow> virts c v;
     (case c_alloc c of
        (False, c) \<Rightarrow> c_ret_err LSDNE_NOMEM c
      | (True, c) \<Rightarrow> do {
          c \<leftarrow> renew_virt v (upd_virt v (\<lambda>x. x\<lparr>attr_rate_in := Some r\<rparr>) c);
          c_ret_err LSDNE_OK c
        })
   }"

definition lsdn_virt_clear_rate_in :: "ptr \<Rightarrow> lsdn_context \<Rightarrow> lsdn_context option" where
  "lsdn_virt_clear_rate_in v c = do {
     x \<leftarrow> virts c v;
     c \<leftarrow> (if attr_rate_in x \<noteq> None then renew_virt v c else Some c);
     Some (upd_virt v (\<lambda>x. x\<lparr>attr_rate_in := None\<rparr>) c)
   }"

definition lsdn_virt_get_rate_in :: "ptr \<Rightarrow> lsdn_context \<Rightarrow> lsdn_qos_rate_t option option" where
  "lsdn_virt_get_rate_in v c = map_option attr_rate_in (virts c v)"

definition lsdn_virt_set_rate_out :: "ptr \<Rightarrow> lsdn_qos_rate_t \<Rightarrow> lsdn_context \<Rightarrow> (lsdn_err_t \<times> lsdn_context) option" where
  "lsdn_virt_set_rate_out v r c = do {
     _ \<leftarrow> virts c v;
     (case c_alloc c of
        (False, c) \<Rightarrow> c_ret_err LSDNE_NOMEM c
      | (True, c) \<Rightarrow> do {
          c \<leftarrow> renew_virt v (upd_virt v (\<lambda>x. x\<lparr>attr_rate_out := Some r\<rparr>) c);
          c_ret_err LSDNE_OK c
        })
   }"

definition lsdn_virt_clear_rate_out :: "ptr \<Rightarrow> lsdn_context \<Rightarrow> lsdn_context option" where
  "lsdn_virt_clear_rate_out v c = do {
     x \<leftarrow> virts c v;
     c \<leftarrow> (if attr_rate_out x \<noteq> None then renew_virt v c else Some c);
     Some (upd_virt v (\<lambda>x. x\<lparr>attr_rate_out := None\<rparr>) c)
   }"

definition lsdn_virt_get_rate_out :: "ptr \<Rightarrow> lsdn_context \<Rightarrow> lsdn_qos_rate_t option option" where
  "lsdn_virt_get_rate_out v c = map_option attr_rate_out (virts c v)"

section \<open>Networks\<close>

definition lsdn_net_new :: "ptr \<Rightarrow> u32 \<Rightarrow> lsdn_context \<Rightarrow> (ptr option \<times> lsdn_context) option" where
  "lsdn_net_new s vid c = do {
     _ \<leftarrow> settingss c s;
     (case c_malloc c of
        (None, c) \<Rightarrow> c_ret_ptr None c
      | (Some n, c) \<Rightarrow>
          let c = c\<lparr>nets := (nets c)(n \<mapsto>
                \<lparr>ne_state = LSDN_STATE_NEW, ne_pending_free = False, ne_settings = s, vnet_id = vid, virt_list = [],
                 attached_list = [], virt_names = lsdn_names_init\<rparr>)\<rparr>;
              c = upd_settings s (\<lambda>x. x\<lparr>setting_users_list := n # setting_users_list x\<rparr>) c
          in c_ret_ptr (Some n) (c\<lparr>networks_list := n # networks_list c\<rparr>))
   }"

definition net_do_free :: "ptr \<Rightarrow> lsdn_context \<Rightarrow> lsdn_context option" where
  "net_do_free n c = do {
     x \<leftarrow> nets c n;
     c_assert (attached_list x = []);
     c_assert (virt_list x = []);
     let c = c\<lparr>networks_list := remove1 n (networks_list c)\<rparr>;
     let c = upd_settings (ne_settings x) (\<lambda>s. s\<lparr>setting_users_list := remove1 n (setting_users_list s)\<rparr>) c;
     let c = c\<lparr>net_names := lsdn_name_free n (net_names c)\<rparr>;
     Some (c\<lparr>nets := (nets c)(n := None)\<rparr>)
   }"

definition lsdn_net_free :: "ptr \<Rightarrow> lsdn_context \<Rightarrow> lsdn_context option" where
  "lsdn_net_free n c = do {
     x \<leftarrow> nets c n;
     c \<leftarrow> foldM lsdn_virt_free (virt_list x) c;
     x \<leftarrow> nets c n;
     c \<leftarrow> foldM phys_detach_by_pa (attached_list x) c;
     x \<leftarrow> nets c n;
     (case free_helper (ne_state x) of
        Free_now \<Rightarrow> net_do_free n c
      | Mark_deleted \<Rightarrow> Some (upd_net n (\<lambda>x. x\<lparr>ne_pending_free := True, ne_state := LSDN_STATE_DELETE\<rparr>) c))
   }"

section \<open>Physes\<close>

definition lsdn_phys_new :: "lsdn_context \<Rightarrow> (ptr option \<times> lsdn_context) option" where
  "lsdn_phys_new c =
     (case c_malloc c of
        (None, c) \<Rightarrow> c_ret_ptr None c
      | (Some p, c) \<Rightarrow>
          (case lsdn_mk_name ''phys'' c of (name, c) \<Rightarrow>
             (case c_name_set p (Some name) (phys_names c) c of (err, tab, c) \<Rightarrow> do {
                c_assert (err \<noteq> LSDNE_DUPLICATE);
                if err = LSDNE_NOMEM then c_ret_ptr None c
                else
                  let c = c\<lparr>phys_names := tab, physes := (physes c)(p \<mapsto>
                        \<lparr>ph_state = LSDN_STATE_NEW, ph_pending_free = False, attached_to_list = [], is_local = False,
                         committed_as_local = False, attr_iface = None, attr_ip = None\<rparr>),
                        phys_list := p # phys_list c\<rparr>
                  in c_ret_ptr (Some p) c
              })))"

definition phys_do_free :: "ptr \<Rightarrow> lsdn_context \<Rightarrow> lsdn_context option" where
  "phys_do_free p c = do {
     _ \<leftarrow> physes c p;
     Some (c\<lparr>phys_list := remove1 p (phys_list c), phys_names := lsdn_name_free p (phys_names c),
             physes := (physes c)(p := None)\<rparr>)
   }"

definition lsdn_phys_free :: "ptr \<Rightarrow> lsdn_context \<Rightarrow> lsdn_context option" where
  "lsdn_phys_free p c = do {
     x \<leftarrow> physes c p;
     c \<leftarrow> foldM (\<lambda>a c. do {
         y \<leftarrow> pas c a;
         c \<leftarrow> foldM lsdn_virt_disconnect (connected_virt_list y) c;
         phys_detach_by_pa a c
       }) (attached_to_list x) c;
     x \<leftarrow> physes c p;
     (case free_helper (ph_state x) of
        Free_now \<Rightarrow> phys_do_free p c
      | Mark_deleted \<Rightarrow> Some (upd_phys p (\<lambda>x. x\<lparr>ph_pending_free := True, ph_state := LSDN_STATE_DELETE\<rparr>) c))
   }"

definition lsdn_phys_set_iface :: "ptr \<Rightarrow> string \<Rightarrow> lsdn_context \<Rightarrow> (lsdn_err_t \<times> lsdn_context) option" where
  "lsdn_phys_set_iface p iface c = do {
     x \<leftarrow> physes c p;
     (case c_alloc c of
        (False, c) \<Rightarrow> c_ret_err LSDNE_NOMEM c
      | (True, c) \<Rightarrow> do {
          c \<leftarrow> (if attr_iface x \<noteq> Some iface then renew_phys p c else Some c);
          c_ret_err LSDNE_OK (upd_phys p (\<lambda>x. x\<lparr>attr_iface := Some iface\<rparr>) c)
        })
   }"

definition lsdn_phys_clear_iface :: "ptr \<Rightarrow> lsdn_context \<Rightarrow> lsdn_context option" where
  "lsdn_phys_clear_iface p c = do {
     x \<leftarrow> physes c p;
     c \<leftarrow> (if attr_iface x \<noteq> None then renew_phys p c else Some c);
     Some (upd_phys p (\<lambda>x. x\<lparr>attr_iface := None\<rparr>) c)
   }"

definition lsnd_phys_get_iface :: "ptr \<Rightarrow> lsdn_context \<Rightarrow> string option option" where
  "lsnd_phys_get_iface p c = map_option attr_iface (physes c p)"

definition lsdn_phys_set_ip :: "ptr \<Rightarrow> lsdn_ip_t \<Rightarrow> lsdn_context \<Rightarrow> (lsdn_err_t \<times> lsdn_context) option" where
  "lsdn_phys_set_ip p ip c = do {
     x \<leftarrow> physes c p;
     (case c_alloc c of
        (False, c) \<Rightarrow> c_ret_err LSDNE_NOMEM c
      | (True, c) \<Rightarrow> do {
          c \<leftarrow> (if (case attr_ip x of None \<Rightarrow> True | Some old \<Rightarrow> \<not> lsdn_ip_eq ip old) then renew_phys p c else Some c);
          c_ret_err LSDNE_OK (upd_phys p (\<lambda>x. x\<lparr>attr_ip := Some ip\<rparr>) c)
        })
   }"

definition lsdn_phys_clear_ip :: "ptr \<Rightarrow> lsdn_context \<Rightarrow> lsdn_context option" where
  "lsdn_phys_clear_ip p c = do {
     x \<leftarrow> physes c p;
     c \<leftarrow> (if attr_ip x \<noteq> None then renew_phys p c else Some c);
     Some (upd_phys p (\<lambda>x. x\<lparr>attr_ip := None\<rparr>) c)
   }"

definition lsdn_phys_get_ip :: "ptr \<Rightarrow> lsdn_context \<Rightarrow> lsdn_ip_t option option" where
  "lsdn_phys_get_ip p c = map_option attr_ip (physes c p)"

definition lsdn_phys_claim_local :: "ptr \<Rightarrow> lsdn_context \<Rightarrow> (lsdn_err_t \<times> lsdn_context) option" where
  "lsdn_phys_claim_local p c = do {
     x \<leftarrow> physes c p;
     if \<not> is_local x then do {
       c \<leftarrow> renew_phys p c;
       Some (LSDNE_OK, upd_phys p (\<lambda>x. x\<lparr>is_local := True\<rparr>) c)
     }
     else Some (LSDNE_OK, c)
   }"

definition lsdn_phys_unclaim_local :: "ptr \<Rightarrow> lsdn_context \<Rightarrow> (lsdn_err_t \<times> lsdn_context) option" where
  "lsdn_phys_unclaim_local p c = do {
     x \<leftarrow> physes c p;
     if is_local x then do {
       c \<leftarrow> renew_phys p c;
       Some (LSDNE_OK, upd_phys p (\<lambda>x. x\<lparr>is_local := False\<rparr>) c)
     }
     else Some (LSDNE_OK, c)
   }"

section \<open>Settings\<close>

text \<open>
  \<^verbatim>\<open>lsdn_settings_init_common\<close> fills in a structure that the constructor of the back-end has allocated. It does
  not set \<^verbatim>\<open>pending_free\<close>; the flag is read only in the state \<^verbatim>\<open>DELETE\<close>, which
  \<^verbatim>\<open>lsdn_settings_free\<close> sets together with it. The constructors set the remaining fields.
\<close>

definition lsdn_settings_init_common :: "ptr \<Rightarrow> lsdn_settings \<Rightarrow> lsdn_context \<Rightarrow> lsdn_err_t \<times> lsdn_context" where
  "lsdn_settings_init_common s flds c =
     (case lsdn_mk_name ''settings'' c of (name, c) \<Rightarrow>
        (case c_name_set s (Some name) (setting_names c) c of (err, tab, c) \<Rightarrow>
           if err \<noteq> LSDNE_OK then (err, c)
           else (LSDNE_OK, c\<lparr>setting_names := tab, settingss := (settingss c)(s \<mapsto>
                   flds\<lparr>se_state := LSDN_STATE_NEW, setting_users_list := [], startup_hook := None\<rparr>),
                   settings_list := s # settings_list c\<rparr>)))"

text \<open>What the constructors of all back-ends do: allocate, initialise, fill in their own fields.\<close>

definition settings_new :: "lsdn_settings \<Rightarrow> lsdn_context \<Rightarrow> (ptr option \<times> lsdn_context) option" where
  "settings_new flds c =
     (case c_malloc c of
        (None, c) \<Rightarrow> c_ret_ptr None c
      | (Some s, c) \<Rightarrow>
          (case lsdn_settings_init_common s flds c of (err, c) \<Rightarrow> do {
             c_assert (err \<noteq> LSDNE_DUPLICATE);
             if err = LSDNE_NOMEM then c_ret_ptr None c else Some (Some s, c)
           }))"

definition lsdn_settings_register_user_hooks :: "ptr \<Rightarrow> ptr option \<Rightarrow> lsdn_context \<Rightarrow> lsdn_context" where
  "lsdn_settings_register_user_hooks s hook c = upd_settings s (\<lambda>x. x\<lparr>startup_hook := hook\<rparr>) c"

definition settings_do_free :: "ptr \<Rightarrow> lsdn_context \<Rightarrow> lsdn_context option" where
  "settings_do_free s c = do {
     x \<leftarrow> settingss c s;
     c_assert (setting_users_list x = []);
     Some (c\<lparr>settings_list := remove1 s (settings_list c), setting_names := lsdn_name_free s (setting_names c),
             settingss := (settingss c)(s := None)\<rparr>)
   }"

definition lsdn_settings_free :: "ptr \<Rightarrow> lsdn_context \<Rightarrow> lsdn_context option" where
  "lsdn_settings_free s c = do {
     x \<leftarrow> settingss c s;
     c \<leftarrow> foldM lsdn_net_free (setting_users_list x) c;
     x \<leftarrow> settingss c s;
     (case free_helper (se_state x) of
        Free_now \<Rightarrow> settings_do_free s c
      | Mark_deleted \<Rightarrow> Some (upd_settings s (\<lambda>x. x\<lparr>se_pending_free := True, se_state := LSDN_STATE_DELETE\<rparr>) c))
   }"

text \<open>
  The constructors of the back-ends. The members of the union that a constructor leaves alone are not read by
  its back-end; they get a fixed value here.
\<close>

definition settings_of :: "ops_ptr \<Rightarrow> lsdn_nettype \<Rightarrow> lsdn_switch \<Rightarrow> u16 \<Rightarrow> lsdn_ip_t \<Rightarrow> lsdn_settings" where
  "settings_of ops nt sw port ip =
     \<lparr>se_state = LSDN_STATE_NEW, se_pending_free = False, setting_users_list = [], se_ops = ops, nettype = nt,
      switch_type = sw, se_port = port, se_mcast_ip = ip, startup_hook = None\<rparr>"

definition no_ip :: lsdn_ip_t where "no_ip = IP4 [0, 0, 0, 0]"

definition lsdn_settings_new_direct :: "lsdn_context \<Rightarrow> (ptr option \<times> lsdn_context) option" where
  "lsdn_settings_new_direct c = settings_new (settings_of OPS_direct LSDN_NET_DIRECT LSDN_LEARNING 0 no_ip) c"

definition lsdn_settings_new_vlan :: "lsdn_context \<Rightarrow> (ptr option \<times> lsdn_context) option" where
  "lsdn_settings_new_vlan c = settings_new (settings_of OPS_vlan LSDN_NET_VLAN LSDN_LEARNING 0 no_ip) c"

definition lsdn_settings_new_vxlan_mcast ::
    "lsdn_ip_t \<Rightarrow> u16 \<Rightarrow> lsdn_context \<Rightarrow> (ptr option \<times> lsdn_context) option" where
  "lsdn_settings_new_vxlan_mcast mcast_ip port c =
     settings_new (settings_of OPS_vxlan_mcast LSDN_NET_VXLAN LSDN_LEARNING (if port = 0 then 4789 else port) mcast_ip) c"

definition lsdn_settings_new_vxlan_e2e :: "u16 \<Rightarrow> lsdn_context \<Rightarrow> (ptr option \<times> lsdn_context) option" where
  "lsdn_settings_new_vxlan_e2e port c =
     settings_new (settings_of OPS_vxlan_e2e LSDN_NET_VXLAN LSDN_LEARNING_E2E port no_ip) c"

definition lsdn_settings_new_vxlan_static :: "u16 \<Rightarrow> lsdn_context \<Rightarrow> (ptr option \<times> lsdn_context) option" where
  "lsdn_settings_new_vxlan_static port c =
     settings_new (settings_of OPS_vxlan_static LSDN_NET_VXLAN LSDN_STATIC_E2E port no_ip) c"

definition lsdn_settings_new_geneve :: "u16 \<Rightarrow> lsdn_context \<Rightarrow> (ptr option \<times> lsdn_context) option" where
  "lsdn_settings_new_geneve port c =
     settings_new (settings_of OPS_geneve LSDN_NET_GENEVE LSDN_STATIC_E2E port no_ip) c"

definition lsdn_settings_new_geneve_e2e :: "u16 \<Rightarrow> lsdn_context \<Rightarrow> (ptr option \<times> lsdn_context) option" where
  "lsdn_settings_new_geneve_e2e port c =
     settings_new (settings_of OPS_geneve_e2e LSDN_NET_GENEVE LSDN_LEARNING_E2E port no_ip) c"

end
