(* ===== verification/Ownership.thy ===== *)
theory Ownership
  imports Prelude
begin

text \<open>
  Lists of children kept by their owners. In \<^verbatim>\<open>netmodel/private/lsdn.h\<close> every list is of
  this kind: the owner has the head of the list, the members point back to the owner. \<open>owns\<close>
  says that both agree: the list of each owner has exactly the children that point to it,
  each once, and every owner pointed to is alive.
\<close>

definition owns ::
    "('k \<Rightarrow> 'a option) \<Rightarrow> ('a \<Rightarrow> ptr list) \<Rightarrow> (ptr \<Rightarrow> 'b option) \<Rightarrow> ('b \<Rightarrow> 'k option) \<Rightarrow> bool" where
  "owns H lst K own \<longleftrightarrow>
     (\<forall>p x. H p = Some x \<longrightarrow> distinct (lst x) \<and> (\<forall>q. q \<in> set (lst x) \<longleftrightarrow> (\<exists>y. K q = Some y \<and> own y = Some p))) \<and>
     (\<forall>q y p. K q = Some y \<longrightarrow> own y = Some p \<longrightarrow> H p \<noteq> None)"

lemma owns_member: "owns H lst K own \<Longrightarrow> H p = Some x \<Longrightarrow> q \<in> set (lst x) \<longleftrightarrow> (\<exists>y. K q = Some y \<and> own y = Some p)"
  by (simp add: owns_def)

lemma owns_memberD:
  assumes "owns H lst K own" "H p = Some x" "q \<in> set (lst x)"
  obtains y where "K q = Some y" "own y = Some p"
  using assms by (auto simp: owns_member)

lemma owns_distinct: "owns H lst K own \<Longrightarrow> H p = Some x \<Longrightarrow> distinct (lst x)"
  by (simp add: owns_def)

lemma owns_owner:
  assumes "owns H lst K own" "K q = Some y" "own y = Some p"
  obtains x where "H p = Some x" "q \<in> set (lst x)"
proof -
  obtain x where "H p = Some x" using assms unfolding owns_def by blast
  moreover then have "q \<in> set (lst x)" using assms by (auto simp: owns_member)
  ultimately show thesis by (rule that)
qed

lemma owns_none:
  assumes "owns H lst K own" "H p = Some x" "\<And>q y. K q = Some y \<Longrightarrow> own y \<noteq> Some p"
  shows "lst x = []"
  using owns_member [OF assms(1,2)] assms(3) by (cases "lst x") auto

lemma owns_empty: "owns Map.empty lst Map.empty own"
  by (simp add: owns_def)

lemma owns_new_owner:
  assumes "owns H lst K own" "H p = None" "lst x = []"
  shows "owns (H(p \<mapsto> x)) lst K own"
proof -
  have "own y \<noteq> Some p" if "K q = Some y" for q y
    using assms(1,2) that unfolding owns_def by fastforce
  then show ?thesis using assms unfolding owns_def by auto
qed

lemma owns_free_owner:
  assumes "owns H lst K own" "H p = Some x" "lst x = []"
  shows "owns (H(p := None)) lst K own"
proof -
  have "own y \<noteq> Some p" if "K q = Some y" for q y
    using owns_member [OF assms(1,2), of q] assms(3) that by auto
  then show ?thesis using assms(1) unfolding owns_def by auto
qed

text \<open>Updates of an owner or a child that do not touch the link.\<close>

lemma owns_upd_owner:
  assumes "owns H lst K own" and "\<And>x. H p = Some x \<Longrightarrow> lst (f x) = lst x"
  shows "owns (H(p := map_option f (H p))) lst K own"
  using assms unfolding owns_def by (auto split: if_splits)

lemma owns_upd_child:
  assumes "owns H lst K own" and "\<And>y. K q = Some y \<Longrightarrow> own (f y) = own y"
  shows "owns H lst (K(q := map_option f (K q))) own"
  using assms unfolding owns_def by (auto split: if_splits)

text \<open>A new child at the head of its owner's list, and a child that leaves.\<close>

lemma owns_new_child:
  assumes "owns H lst K own" "K q = None" "own y = Some p" "H p \<noteq> None"
    and "\<And>x. H p = Some x \<Longrightarrow> lst (f x) = q # lst x"
  shows "owns (H(p := map_option f (H p))) lst (K(q \<mapsto> y)) own"
  using assms unfolding owns_def by (auto split: if_splits)

lemma owns_new_orphan:
  assumes "owns H lst K own" "K q = None" "own y = None"
  shows "owns H lst (K(q \<mapsto> y)) own"
  using assms unfolding owns_def by auto

lemma owns_free_child:
  assumes "owns H lst K own" "K q = Some y" "own y = Some p"
    and "\<And>x. H p = Some x \<Longrightarrow> lst (f x) = remove1 q (lst x)"
  shows "owns (H(p := map_option f (H p))) lst (K(q := None)) own"
proof -
  have "q \<notin> set (lst x)" if "p' \<noteq> p" "H p' = Some x" for p' x
    using owns_member [OF assms(1) that(2), of q] assms(2,3) that(1) by auto
  then show ?thesis
    using assms unfolding owns_def by (auto split: if_splits) 
qed

lemma owns_free_orphan:
  assumes "owns H lst K own" "K q = Some y" "own y = None"
  shows "owns H lst (K(q := None)) own"
  using assms unfolding owns_def by (auto split: if_splits)

text \<open>A child that is linked, or unlinked, without being created or freed.\<close>

lemma owns_link:
  assumes "owns H lst K own" "K q = Some y" "own y = None" "H p \<noteq> None"
    and "\<And>x. H p = Some x \<Longrightarrow> lst (f x) = q # lst x" and "\<And>y. K q = Some y \<Longrightarrow> own (g y) = Some p"
  shows "owns (H(p := map_option f (H p))) lst (K(q := map_option g (K q))) own"
  using assms unfolding owns_def by (auto split: if_splits)

lemma owns_unlink:
  assumes "owns H lst K own" "K q = Some y" "own y = Some p"
    and "\<And>x. H p = Some x \<Longrightarrow> lst (f x) = remove1 q (lst x)" and "\<And>y. K q = Some y \<Longrightarrow> own (g y) = None"
  shows "owns (H(p := map_option f (H p))) lst (K(q := map_option g (K q))) own"
proof -
  have "q \<notin> set (lst x)" if "p' \<noteq> p" "H p' = Some x" for p' x
    using owns_member [OF assms(1) that(2), of q] assms(2,3) that(1) by auto
  then show ?thesis
    using assms unfolding owns_def by (auto split: if_splits) 
qed

text \<open>The lists the context itself keeps.\<close>

definition lists_all :: "ptr list \<Rightarrow> (ptr \<Rightarrow> 'a option) \<Rightarrow> bool" where
  "lists_all xs H \<longleftrightarrow> distinct xs \<and> set xs = dom H"

lemma lists_all_empty [simp]: "lists_all [] Map.empty"
  by (simp add: lists_all_def)

lemma lists_all_new: "lists_all xs H \<Longrightarrow> H p = None \<Longrightarrow> lists_all (p # xs) (H(p \<mapsto> x))"
  by (auto simp: lists_all_def dom_def)

lemma lists_all_free: "lists_all xs H \<Longrightarrow> lists_all (remove1 p xs) (H(p := None))"
  by (auto simp: lists_all_def)

lemma lists_all_upd: "lists_all xs H \<Longrightarrow> lists_all xs (H(p := map_option f (H p)))"
  by (auto simp: lists_all_def dom_def split: if_splits)

lemma lists_all_mem: "lists_all xs H \<Longrightarrow> p \<in> set xs \<longleftrightarrow> (\<exists>x. H p = Some x)"
  by (auto simp: lists_all_def)

end
