(* ===== verification/ModelInv.thy ===== *)
theory ModelInv
  imports Model Ownership
begin

text \<open>
  The invariant of the network model, and that every operation of the interface keeps it: lists and back pointers
  agree, pointers lead to live objects, a phys is attached to a network at most once, names
  are unique, an object waits for deletion exactly in the state \<^verbatim>\<open>DELETE\<close>.
\<close>

section \<open>The invariant\<close>

text \<open>The priorities of the rule tables of all virts as one heap, and the link of a rule to it.\<close>

definition vr_tab :: "(ptr \<Rightarrow> lsdn_virt option) \<Rightarrow> ptr \<times> lsdn_direction \<times> u16 \<Rightarrow> vr_prio option" where
  "vr_tab h k = (case k of (v, d, n) \<Rightarrow> do { x \<leftarrow> h v; find_vr_prio n (ht_rules d x) })"

definition names_inv :: "lsdn_names \<Rightarrow> ptr set \<Rightarrow> bool" where
  "names_inv tab live \<longleftrightarrow> names_wf tab \<and> fst ` set tab \<subseteq> live"

definition vr_inv :: "lsdn_context \<Rightarrow> bool" where
  "vr_inv c \<longleftrightarrow> owns (vr_tab (virts c)) rules_list (vrs c) (Some \<circ> vr_home) \<and>
     (\<forall>v x d. virts c v = Some x \<longrightarrow> distinct (map vr_prio_num (ht_rules d x)))"

definition lists_inv :: "lsdn_context \<Rightarrow> bool" where
  "lists_inv c \<longleftrightarrow> lists_all (networks_list c) (nets c) \<and> lists_all (settings_list c) (settingss c) \<and>
     lists_all (phys_list c) (physes c)"

definition owners_inv :: "lsdn_context \<Rightarrow> bool" where
  "owners_inv c \<longleftrightarrow>
     owns (settingss c) setting_users_list (nets c) (Some \<circ> ne_settings) \<and>
     owns (nets c) virt_list (virts c) (Some \<circ> network) \<and>
     owns (nets c) attached_list (pas c) (Some \<circ> pa_net) \<and>
     owns (physes c) attached_to_list (pas c) (Some \<circ> pa_phys) \<and>
     owns (pas c) connected_virt_list (virts c) connected_through"

definition pa_unique :: "(ptr \<Rightarrow> lsdn_phys_attachment option) \<Rightarrow> bool" where
  "pa_unique h \<longleftrightarrow> (\<forall>a b x y. h a = Some x \<longrightarrow> h b = Some y \<longrightarrow> pa_phys x = pa_phys y \<longrightarrow> pa_net x = pa_net y \<longrightarrow> a = b)"

definition connected_ok :: "(ptr \<Rightarrow> lsdn_virt option) \<Rightarrow> (ptr \<Rightarrow> lsdn_phys_attachment option) \<Rightarrow> bool" where
  "connected_ok h k \<longleftrightarrow> (\<forall>v x a y. h v = Some x \<longrightarrow> connected_through x = Some a \<longrightarrow> k a = Some y \<longrightarrow> pa_net y = network x)"

definition attach_inv :: "lsdn_context \<Rightarrow> bool" where
  "attach_inv c \<longleftrightarrow> pa_unique (pas c) \<and> connected_ok (virts c) (pas c)"

definition all_names_inv :: "lsdn_context \<Rightarrow> bool" where
  "all_names_inv c \<longleftrightarrow> names_inv (phys_names c) (dom (physes c)) \<and> names_inv (net_names c) (dom (nets c)) \<and>
     names_inv (setting_names c) (dom (settingss c)) \<and>
     (\<forall>n x. nets c n = Some x \<longrightarrow> names_inv (virt_names x) (set (virt_list x)))"

definition fresh_inv :: "lsdn_context \<Rightarrow> bool" where
  "fresh_inv c \<longleftrightarrow> (\<forall>p\<ge>next_ptr c. settingss c p = None \<and> physes c p = None \<and> nets c p = None \<and> pas c p = None \<and>
     virts c p = None \<and> vrs c p = None \<and> rpas c p = None \<and> rvirts c p = None)"

text \<open>The views of remote attachments and virts that commits create.\<close>

definition views_inv :: "lsdn_context \<Rightarrow> bool" where
  "views_inv c \<longleftrightarrow>
     owns (pas c) remote_pa_list (rpas c) (Some \<circ> rp_local) \<and> owns (pas c) pa_view_list (rpas c) (Some \<circ> rp_remote) \<and>
     owns (rpas c) remote_virt_list (rvirts c) (Some \<circ> rv_pa) \<and> owns (virts c) virt_view_list (rvirts c) (Some \<circ> rv_virt)"

text \<open>What holds at every moment, in the middle of a commit too.\<close>

definition core_inv :: "lsdn_context \<Rightarrow> bool" where
  "core_inv c \<longleftrightarrow> lists_inv c \<and> owners_inv c \<and> attach_inv c \<and> vr_inv c \<and> all_names_inv c \<and> fresh_inv c \<and> views_inv c"

lemmas core_inv_defs = core_inv_def lists_inv_def owners_inv_def attach_inv_def vr_inv_def all_names_inv_def
  fresh_inv_def views_inv_def

text \<open>
  What holds of the states between the calls of the interface: an object waits for deletion exactly in the state
  \<^verbatim>\<open>DELETE\<close>, the children of a new object are new, and a new object has no views,
  so that freeing it at once leaves nothing behind.
\<close>

definition delete_inv :: "lsdn_context \<Rightarrow> bool" where
  "delete_inv c \<longleftrightarrow>
     (\<forall>p x. settingss c p = Some x \<longrightarrow> (se_state x = LSDN_STATE_DELETE \<longrightarrow> se_pending_free x)) \<and>
     (\<forall>p x. physes c p = Some x \<longrightarrow> (ph_pending_free x \<longleftrightarrow> ph_state x = LSDN_STATE_DELETE)) \<and>
     (\<forall>p x. nets c p = Some x \<longrightarrow> (ne_pending_free x \<longleftrightarrow> ne_state x = LSDN_STATE_DELETE)) \<and>
     (\<forall>p x. pas c p = Some x \<longrightarrow> (pa_pending_free x \<longleftrightarrow> pa_state x = LSDN_STATE_DELETE)) \<and>
     (\<forall>p x. virts c p = Some x \<longrightarrow> (vi_pending_free x \<longleftrightarrow> vi_state x = LSDN_STATE_DELETE)) \<and>
     (\<forall>p x. vrs c p = Some x \<longrightarrow> (vr_pending_free x \<longleftrightarrow> vr_state x = LSDN_STATE_DELETE))"

definition new_inv :: "lsdn_context \<Rightarrow> bool" where
  "new_inv c \<longleftrightarrow>
     (\<forall>n x y. nets c n = Some x \<longrightarrow> settingss c (ne_settings x) = Some y \<longrightarrow> se_state y = LSDN_STATE_NEW \<longrightarrow> ne_state x = LSDN_STATE_NEW) \<and>
     (\<forall>v x y. virts c v = Some x \<longrightarrow> nets c (network x) = Some y \<longrightarrow> ne_state y = LSDN_STATE_NEW \<longrightarrow> vi_state x = LSDN_STATE_NEW) \<and>
     (\<forall>a x y. pas c a = Some x \<longrightarrow> nets c (pa_net x) = Some y \<longrightarrow> ne_state y = LSDN_STATE_NEW \<longrightarrow> pa_state x = LSDN_STATE_NEW) \<and>
     (\<forall>a x y. pas c a = Some x \<longrightarrow> physes c (pa_phys x) = Some y \<longrightarrow> ph_state y = LSDN_STATE_NEW \<longrightarrow> pa_state x = LSDN_STATE_NEW)"

definition clean_inv :: "lsdn_context \<Rightarrow> bool" where
  "clean_inv c \<longleftrightarrow>
     (\<forall>a x. pas c a = Some x \<longrightarrow> pa_state x = LSDN_STATE_NEW \<longrightarrow> remote_pa_list x = [] \<and> pa_view_list x = []) \<and>
     (\<forall>v x. virts c v = Some x \<longrightarrow> vi_state x = LSDN_STATE_NEW \<longrightarrow> virt_view_list x = [])"

text \<open>
  \<^verbatim>\<open>ERR\<close> exists only in the middle of a commit, \<^verbatim>\<open>FAIL\<close> only after a commit that reported a problem.
\<close>

definition failed_state :: "lsdn_state \<Rightarrow> bool" where
  "failed_state s \<longleftrightarrow> s = LSDN_STATE_ERR \<or> s = LSDN_STATE_FAIL"

lemma failed_state_simps [simp]:
  "\<not> failed_state LSDN_STATE_NEW" "\<not> failed_state LSDN_STATE_RENEW" "\<not> failed_state LSDN_STATE_DELETE"
  "\<not> failed_state LSDN_STATE_OK" "failed_state LSDN_STATE_ERR" "failed_state LSDN_STATE_FAIL"
  by (simp_all add: failed_state_def)

definition noerr_inv :: "lsdn_context \<Rightarrow> bool" where
  "noerr_inv c \<longleftrightarrow>
     (\<forall>p x. settingss c p = Some x \<longrightarrow> \<not> failed_state (se_state x)) \<and> (\<forall>p x. physes c p = Some x \<longrightarrow> \<not> failed_state (ph_state x)) \<and>
     (\<forall>p x. nets c p = Some x \<longrightarrow> \<not> failed_state (ne_state x)) \<and> (\<forall>p x. pas c p = Some x \<longrightarrow> \<not> failed_state (pa_state x)) \<and>
     (\<forall>p x. virts c p = Some x \<longrightarrow> \<not> failed_state (vi_state x))"

text \<open>The attachments of a phys that waits for deletion wait for it too.\<close>

definition doomed_inv :: "lsdn_context \<Rightarrow> bool" where
  "doomed_inv c \<longleftrightarrow> (\<forall>a x p. pas c a = Some x \<longrightarrow> physes c (pa_phys x) = Some p \<longrightarrow> ph_state p = LSDN_STATE_DELETE \<longrightarrow> pa_state x = LSDN_STATE_DELETE)"

definition phase_inv :: "lsdn_context \<Rightarrow> bool" where
  "phase_inv c \<longleftrightarrow> delete_inv c \<and> new_inv c \<and> clean_inv c \<and> noerr_inv c \<and> doomed_inv c"

definition model_inv :: "lsdn_context \<Rightarrow> bool" where
  "model_inv c \<longleftrightarrow> core_inv c \<and> phase_inv c"

section \<open>Updates that keep the links\<close>

definition virt_links :: "lsdn_virt \<Rightarrow> lsdn_virt \<Rightarrow> bool" where
  "virt_links x x' \<longleftrightarrow> network x' = network x \<and> connected_through x' = connected_through x \<and>
     virt_view_list x' = virt_view_list x \<and> ht_in_rules x' = ht_in_rules x \<and> ht_out_rules x' = ht_out_rules x"

definition pa_links :: "lsdn_phys_attachment \<Rightarrow> lsdn_phys_attachment \<Rightarrow> bool" where
  "pa_links x x' \<longleftrightarrow> pa_net x' = pa_net x \<and> pa_phys x' = pa_phys x \<and> connected_virt_list x' = connected_virt_list x \<and>
     remote_pa_list x' = remote_pa_list x \<and> pa_view_list x' = pa_view_list x"

definition phys_links :: "lsdn_phys \<Rightarrow> lsdn_phys \<Rightarrow> bool" where
  "phys_links x x' \<longleftrightarrow> attached_to_list x' = attached_to_list x"

definition net_links :: "lsdn_net \<Rightarrow> lsdn_net \<Rightarrow> bool" where
  "net_links x x' \<longleftrightarrow> ne_settings x' = ne_settings x \<and> virt_list x' = virt_list x \<and> attached_list x' = attached_list x \<and>
     (names_inv (virt_names x) (set (virt_list x)) \<longrightarrow> names_inv (virt_names x') (set (virt_list x)))"

definition settings_links :: "lsdn_settings \<Rightarrow> lsdn_settings \<Rightarrow> bool" where
  "settings_links x x' \<longleftrightarrow> setting_users_list x' = setting_users_list x"

lemmas links_defs = virt_links_def pa_links_def phys_links_def net_links_def settings_links_def

declare dom_fun_upd [simp del]

lemma dom_new [simp]: "dom (h(p \<mapsto> x)) = insert p (dom h)" "dom (h(p := None)) = dom h - {p}"
  by (auto simp: dom_def split: if_splits)

lemma dom_upd [simp]: "dom (h(p := map_option f (h p))) = dom h"
  by (auto simp: dom_def)

lemma vr_tab_upd:
  assumes "\<And>x d. h v = Some x \<Longrightarrow> ht_rules d (f x) = ht_rules d x"
  shows "vr_tab (h(v := map_option f (h v))) = vr_tab h"
proof (rule ext)
  fix k
  show "vr_tab (h(v := map_option f (h v))) k = vr_tab h k"
    using assms by (cases k; cases "h v") (auto simp: vr_tab_def)
qed

lemma core_inv_set_rules [simp]: "core_inv (set_rules st c) = core_inv c"
  by (simp add: core_inv_defs set_rules_def)

lemma core_inv_set_nl [simp]: "core_inv (set_nl nl c) = core_inv c"
  by (simp add: set_nl_def)

lemma core_inv_irrelevant [simp]:
  "core_inv (c\<lparr>run := r\<rparr>) = core_inv c" "core_inv (c\<lparr>rep := p\<rparr>) = core_inv c"
  "core_inv (c\<lparr>hook_log := l\<rparr>) = core_inv c" "core_inv (c\<lparr>nlsock := b, sockets := s\<rparr>) = core_inv c"
  "core_inv (c\<lparr>sockets := s\<rparr>) = core_inv c" "core_inv (c\<lparr>overwrite := b\<rparr>) = core_inv c"
  "core_inv (c\<lparr>nomem_cb := cb\<rparr>) = core_inv c"
  by (simp_all add: core_inv_defs)

lemma pa_unique_upd:
  assumes "pa_unique h" and "\<And>x. h p = Some x \<Longrightarrow> pa_phys (f x) = pa_phys x \<and> pa_net (f x) = pa_net x"
  shows "pa_unique (h(p := map_option f (h p)))"
  unfolding pa_unique_def
proof (intro allI impI)
  fix a b x y
  assume x: "(h(p := map_option f (h p))) a = Some x" and y: "(h(p := map_option f (h p))) b = Some y"
    and eq: "pa_phys x = pa_phys y" "pa_net x = pa_net y"
  have "\<exists>z. h q = Some z \<and> pa_phys z = pa_phys w \<and> pa_net z = pa_net w"
    if "(h(p := map_option f (h p))) q = Some w" for q w
    using that assms(2) by (auto split: if_splits)
  from this [OF x] this [OF y] show "a = b" using assms(1) eq unfolding pa_unique_def by metis
qed

lemma connected_ok_upd_virt:
  assumes "connected_ok h k" and "\<And>x. h p = Some x \<Longrightarrow> network (f x) = network x \<and> connected_through (f x) = connected_through x"
  shows "connected_ok (h(p := map_option f (h p))) k"
  unfolding connected_ok_def
proof (intro allI impI)
  fix v x a y
  assume "(h(p := map_option f (h p))) v = Some x" "connected_through x = Some a" "k a = Some y"
  moreover from this(1,2) obtain z where "h v = Some z" "connected_through z = Some a" "network z = network x"
    using assms(2) by (auto split: if_splits)
  ultimately show "pa_net y = network x" using assms(1) unfolding connected_ok_def by metis
qed

lemma connected_ok_upd_pa:
  assumes "connected_ok h k" and "\<And>x. k p = Some x \<Longrightarrow> pa_net (f x) = pa_net x"
  shows "connected_ok h (k(p := map_option f (k p)))"
  using assms unfolding connected_ok_def by auto

lemma core_invD:
  assumes "core_inv c"
  shows "lists_inv c" "owners_inv c" "attach_inv c" "vr_inv c" "all_names_inv c" "fresh_inv c" "views_inv c"
  using assms by (simp_all add: core_inv_def)

lemmas owns_upd_simps = owns_upd_owner owns_upd_child

lemma core_inv_upd_virt:
  assumes inv: "core_inv c" and keep: "\<And>x. virts c v = Some x \<Longrightarrow> virt_links x (f x)"
  shows "core_inv (upd_virt v f c)"
proof -
  note k = keep [unfolded virt_links_def]
  have ht: "ht_rules d (f x) = ht_rules d x" if "virts c v = Some x" for d x
    using k [OF that] by (simp add: ht_rules_def)
  then have tab: "vr_tab ((virts c)(v := map_option f (virts c v))) = vr_tab (virts c)" by (rule vr_tab_upd)
  have "lists_inv (upd_virt v f c)" "all_names_inv (upd_virt v f c)" "fresh_inv (upd_virt v f c)"
    using core_invD(1,5,6) [OF inv] unfolding lists_inv_def all_names_inv_def fresh_inv_def upd_virt_def by simp_all
  moreover have "owners_inv (upd_virt v f c)"
    using core_invD(2) [OF inv] k unfolding owners_inv_def upd_virt_def by (simp add: owns_upd_simps)
  moreover have "attach_inv (upd_virt v f c)"
    using core_invD(3) [OF inv] k unfolding attach_inv_def upd_virt_def by (simp add: connected_ok_upd_virt)
  moreover have "vr_inv (upd_virt v f c)"
    using core_invD(4) [OF inv] ht unfolding vr_inv_def upd_virt_def by (auto simp: tab)
  moreover have "views_inv (upd_virt v f c)"
    using core_invD(7) [OF inv] k unfolding views_inv_def upd_virt_def by (auto simp: owns_upd_simps)
  ultimately show ?thesis unfolding core_inv_def by simp
qed

lemma core_inv_upd_pa:
  assumes inv: "core_inv c" and keep: "\<And>x. pas c v = Some x \<Longrightarrow> pa_links x (f x)"
  shows "core_inv (upd_pa v f c)"
proof -
  note k = keep [unfolded pa_links_def]
  have "lists_inv (upd_pa v f c)" "all_names_inv (upd_pa v f c)" "fresh_inv (upd_pa v f c)" "vr_inv (upd_pa v f c)"
    using core_invD(1,4,5,6) [OF inv] unfolding lists_inv_def all_names_inv_def fresh_inv_def vr_inv_def upd_pa_def by simp_all
  moreover have "owners_inv (upd_pa v f c)"
    using core_invD(2) [OF inv] k unfolding owners_inv_def upd_pa_def by (simp add: owns_upd_simps)
  moreover have "attach_inv (upd_pa v f c)"
    using core_invD(3) [OF inv] k unfolding attach_inv_def upd_pa_def by (simp add: connected_ok_upd_pa pa_unique_upd)
  moreover have "views_inv (upd_pa v f c)"
    using core_invD(7) [OF inv] k unfolding views_inv_def upd_pa_def by (auto simp: owns_upd_simps)
  ultimately show ?thesis unfolding core_inv_def by simp
qed

lemma core_inv_upd_phys:
  assumes inv: "core_inv c" and keep: "\<And>x. physes c v = Some x \<Longrightarrow> phys_links x (f x)"
  shows "core_inv (upd_phys v f c)"
proof -
  note k = keep [unfolded phys_links_def]
  have "all_names_inv (upd_phys v f c)" "fresh_inv (upd_phys v f c)" "vr_inv (upd_phys v f c)" "views_inv (upd_phys v f c)"
    "attach_inv (upd_phys v f c)" "lists_inv (upd_phys v f c)"
    using core_invD(1,3,4,5,6,7) [OF inv] 
    unfolding all_names_inv_def fresh_inv_def vr_inv_def views_inv_def attach_inv_def lists_inv_def upd_phys_def
    by (simp_all add: lists_all_upd)
  moreover have "owners_inv (upd_phys v f c)"
    using core_invD(2) [OF inv] k unfolding owners_inv_def upd_phys_def by (simp add: owns_upd_simps)
  ultimately show ?thesis unfolding core_inv_def by simp
qed

lemma core_inv_upd_net:
  assumes inv: "core_inv c" and keep: "\<And>x. nets c v = Some x \<Longrightarrow> net_links x (f x)"
  shows "core_inv (upd_net v f c)"
proof -
  note k = keep [unfolded net_links_def]
  have "fresh_inv (upd_net v f c)" "vr_inv (upd_net v f c)" "views_inv (upd_net v f c)" "attach_inv (upd_net v f c)" 
    "lists_inv (upd_net v f c)"
    using core_invD(1,3,4,6,7) [OF inv] 
    unfolding fresh_inv_def vr_inv_def views_inv_def attach_inv_def lists_inv_def upd_net_def
    by (simp_all add: lists_all_upd)
  moreover have "owners_inv (upd_net v f c)"
    using core_invD(2) [OF inv] k unfolding owners_inv_def upd_net_def by (simp add: owns_upd_simps)
  moreover have "all_names_inv (upd_net v f c)"
    using core_invD(5) [OF inv] k unfolding all_names_inv_def upd_net_def by auto
  ultimately show ?thesis unfolding core_inv_def by simp
qed

lemma core_inv_upd_settings:
  assumes inv: "core_inv c" and keep: "\<And>x. settingss c v = Some x \<Longrightarrow> settings_links x (f x)"
  shows "core_inv (upd_settings v f c)"
proof -
  note k = keep [unfolded settings_links_def]
  have "all_names_inv (upd_settings v f c)" "fresh_inv (upd_settings v f c)" "vr_inv (upd_settings v f c)"
    "views_inv (upd_settings v f c)" "attach_inv (upd_settings v f c)" "lists_inv (upd_settings v f c)"
    using core_invD(1,3,4,5,6,7) [OF inv] 
    unfolding all_names_inv_def fresh_inv_def vr_inv_def views_inv_def attach_inv_def lists_inv_def upd_settings_def
    by (simp_all add: lists_all_upd)
  moreover have "owners_inv (upd_settings v f c)"
    using core_invD(2) [OF inv] k unfolding owners_inv_def upd_settings_def by (simp add: owns_upd_simps)
  ultimately show ?thesis unfolding core_inv_def by simp
qed

section \<open>Updates of the states\<close>

definition virt_phase :: "lsdn_virt \<Rightarrow> lsdn_virt \<Rightarrow> bool" where
  "virt_phase x x' \<longleftrightarrow> network x' = network x \<and> virt_view_list x' = virt_view_list x \<and>
     (vi_state x' = LSDN_STATE_NEW \<longleftrightarrow> vi_state x = LSDN_STATE_NEW) \<and> (failed_state (vi_state x') \<longrightarrow> failed_state (vi_state x)) \<and>
     ((vi_pending_free x \<longleftrightarrow> vi_state x = LSDN_STATE_DELETE) \<longrightarrow> (vi_pending_free x' \<longleftrightarrow> vi_state x' = LSDN_STATE_DELETE))"

definition pa_phase :: "lsdn_phys_attachment \<Rightarrow> lsdn_phys_attachment \<Rightarrow> bool" where
  "pa_phase x x' \<longleftrightarrow> pa_net x' = pa_net x \<and> pa_phys x' = pa_phys x \<and>
     remote_pa_list x' = remote_pa_list x \<and> pa_view_list x' = pa_view_list x \<and>
     (pa_state x' = LSDN_STATE_NEW \<longleftrightarrow> pa_state x = LSDN_STATE_NEW) \<and> (failed_state (pa_state x') \<longrightarrow> failed_state (pa_state x)) \<and>
     (pa_state x = LSDN_STATE_DELETE \<longrightarrow> pa_state x' = LSDN_STATE_DELETE) \<and>
     ((pa_pending_free x \<longleftrightarrow> pa_state x = LSDN_STATE_DELETE) \<longrightarrow> (pa_pending_free x' \<longleftrightarrow> pa_state x' = LSDN_STATE_DELETE))"

definition phys_phase :: "lsdn_phys \<Rightarrow> lsdn_phys \<Rightarrow> bool" where
  "phys_phase x x' \<longleftrightarrow> (ph_state x' = LSDN_STATE_NEW \<longleftrightarrow> ph_state x = LSDN_STATE_NEW) \<and> (failed_state (ph_state x') \<longrightarrow> failed_state (ph_state x)) \<and>
     (ph_state x' = LSDN_STATE_DELETE \<longrightarrow> ph_state x = LSDN_STATE_DELETE) \<and>
     ((ph_pending_free x \<longleftrightarrow> ph_state x = LSDN_STATE_DELETE) \<longrightarrow> (ph_pending_free x' \<longleftrightarrow> ph_state x' = LSDN_STATE_DELETE))"

definition net_phase :: "lsdn_net \<Rightarrow> lsdn_net \<Rightarrow> bool" where
  "net_phase x x' \<longleftrightarrow> ne_settings x' = ne_settings x \<and> (ne_state x' = LSDN_STATE_NEW \<longleftrightarrow> ne_state x = LSDN_STATE_NEW) \<and> (failed_state (ne_state x') \<longrightarrow> failed_state (ne_state x)) \<and>
     ((ne_pending_free x \<longleftrightarrow> ne_state x = LSDN_STATE_DELETE) \<longrightarrow> (ne_pending_free x' \<longleftrightarrow> ne_state x' = LSDN_STATE_DELETE))"

definition settings_phase :: "lsdn_settings \<Rightarrow> lsdn_settings \<Rightarrow> bool" where
  "settings_phase x x' \<longleftrightarrow> (se_state x' = LSDN_STATE_NEW \<longleftrightarrow> se_state x = LSDN_STATE_NEW) \<and> (failed_state (se_state x') \<longrightarrow> failed_state (se_state x)) \<and>
     ((se_state x = LSDN_STATE_DELETE \<longrightarrow> se_pending_free x) \<longrightarrow> (se_state x' = LSDN_STATE_DELETE \<longrightarrow> se_pending_free x'))"

lemmas phase_defs = virt_phase_def pa_phase_def phys_phase_def net_phase_def settings_phase_def

lemma upd_SomeE:
  assumes "(h(p := map_option f (h p))) q = Some x"
  obtains "q \<noteq> p" "h q = Some x" | y where "q = p" "h p = Some y" "x = f y"
  using assms by (auto split: if_splits)

lemma phase_inv_irrelevant [simp]:
  "phase_inv (set_rules st c) = phase_inv c" "phase_inv (set_nl nl c) = phase_inv c"
  "phase_inv (c\<lparr>run := r\<rparr>) = phase_inv c" "phase_inv (c\<lparr>rep := p\<rparr>) = phase_inv c"
  "phase_inv (c\<lparr>hook_log := l\<rparr>) = phase_inv c" "phase_inv (c\<lparr>nlsock := b, sockets := s\<rparr>) = phase_inv c"
  "phase_inv (c\<lparr>sockets := s\<rparr>) = phase_inv c" "phase_inv (c\<lparr>overwrite := b\<rparr>) = phase_inv c"
  "phase_inv (c\<lparr>nomem_cb := cb\<rparr>) = phase_inv c" "phase_inv (c\<lparr>next_ptr := q\<rparr>) = phase_inv c"
  "phase_inv (c\<lparr>phys_names := ns\<rparr>) = phase_inv c" "phase_inv (c\<lparr>net_names := ns\<rparr>) = phase_inv c"
  "phase_inv (c\<lparr>setting_names := ns\<rparr>) = phase_inv c"
  by (simp_all add: phase_inv_def delete_inv_def new_inv_def clean_inv_def noerr_inv_def doomed_inv_def set_nl_def set_rules_def)

section \<open>Evolution\<close>

text \<open>
  A state evolves into another when no object was created and the objects that are left kept their place and
  became new or doomed only as the invariant allows. The operations that change or free objects are such
  evolutions, so their loops are too.
\<close>

definition vr_phase :: "lsdn_vr \<Rightarrow> lsdn_vr \<Rightarrow> bool" where
  "vr_phase x x' \<longleftrightarrow> ((vr_pending_free x \<longleftrightarrow> vr_state x = LSDN_STATE_DELETE) \<longrightarrow> (vr_pending_free x' \<longleftrightarrow> vr_state x' = LSDN_STATE_DELETE))"

definition le_heap :: "('a \<Rightarrow> 'a \<Rightarrow> bool) \<Rightarrow> (ptr \<Rightarrow> 'a option) \<Rightarrow> (ptr \<Rightarrow> 'a option) \<Rightarrow> bool" where
  "le_heap R h h' \<longleftrightarrow> (\<forall>p x'. h' p = Some x' \<longrightarrow> (\<exists>x. h p = Some x \<and> R x x'))"

definition evolves :: "lsdn_context \<Rightarrow> lsdn_context \<Rightarrow> bool" where
  "evolves c c' \<longleftrightarrow> le_heap settings_phase (settingss c) (settingss c') \<and> le_heap phys_phase (physes c) (physes c') \<and>
     le_heap net_phase (nets c) (nets c') \<and> le_heap pa_phase (pas c) (pas c') \<and>
     le_heap virt_phase (virts c) (virts c') \<and> le_heap vr_phase (vrs c) (vrs c')"

lemma le_heapD: "le_heap R h h' \<Longrightarrow> h' p = Some x' \<Longrightarrow> \<exists>x. h p = Some x \<and> R x x'"
  by (simp add: le_heap_def)

lemma le_heap_trans:
  assumes "le_heap R h h'" "le_heap R h' h''" "\<And>x y z. R x y \<Longrightarrow> R y z \<Longrightarrow> R x z"
  shows "le_heap R h h''"
  using assms unfolding le_heap_def by blast

lemma le_heap_None: "le_heap R h h' \<Longrightarrow> h p = None \<Longrightarrow> h' p = None"
  unfolding le_heap_def by (metis not_None_eq)

lemma phase_refl [simp]: "virt_phase x x" "pa_phase y y" "phys_phase p p" "net_phase n n" "settings_phase s s" "vr_phase r r"
  by (simp_all add: phase_defs vr_phase_def)

lemma le_heap_refl [simp]: "(\<And>x. R x x) \<Longrightarrow> le_heap R h h"
  by (simp add: le_heap_def)

lemma le_heap_upd: "(\<And>x. R x x) \<Longrightarrow> (\<And>x. h p = Some x \<Longrightarrow> R x (f x)) \<Longrightarrow> le_heap R h (h(p := map_option f (h p)))"
  by (auto simp: le_heap_def)

lemma le_heap_free: "(\<And>x. R x x) \<Longrightarrow> le_heap R h (h(p := None))"
  by (auto simp: le_heap_def)

lemma evolves_refl [simp]: "evolves c c"
  by (simp add: evolves_def)

lemma phase_trans:
  "virt_phase x y \<Longrightarrow> virt_phase y z \<Longrightarrow> virt_phase x z"
  "pa_phase a b \<Longrightarrow> pa_phase b d \<Longrightarrow> pa_phase a d"
  "phys_phase p q \<Longrightarrow> phys_phase q r \<Longrightarrow> phys_phase p r"
  "net_phase l m \<Longrightarrow> net_phase m n \<Longrightarrow> net_phase l n"
  "settings_phase s t \<Longrightarrow> settings_phase t u \<Longrightarrow> settings_phase s u"
  "vr_phase f g \<Longrightarrow> vr_phase g h \<Longrightarrow> vr_phase f h"
  unfolding phase_defs vr_phase_def by metis+

lemma evolves_trans:
  assumes "evolves c c'" "evolves c' c''"
  shows "evolves c c''"
  using assms unfolding evolves_def
  by (elim conjE, intro conjI) (erule (1) le_heap_trans, erule (1) phase_trans)+

lemma evolves_irrelevant [simp]:
  "evolves c (set_rules st c') = evolves c c'" "evolves c (set_nl nl c') = evolves c c'"
  "evolves c (c'\<lparr>rep := p\<rparr>) = evolves c c'" "evolves c (c'\<lparr>run := r\<rparr>) = evolves c c'"
  "evolves c (c'\<lparr>phys_names := ns\<rparr>) = evolves c c'" "evolves c (c'\<lparr>net_names := ns\<rparr>) = evolves c c'"
  "evolves c (c'\<lparr>setting_names := ns\<rparr>) = evolves c c'" "evolves c (c'\<lparr>networks_list := ls\<rparr>) = evolves c c'"
  "evolves c (c'\<lparr>settings_list := ls\<rparr>) = evolves c c'" "evolves c (c'\<lparr>phys_list := ls\<rparr>) = evolves c c'"
  by (simp_all add: evolves_def set_nl_def set_rules_def)

lemma evolves_parts:
  assumes e: "evolves c c'"
  shows "delete_inv c \<Longrightarrow> delete_inv c'" "new_inv c \<Longrightarrow> new_inv c'" "clean_inv c \<Longrightarrow> clean_inv c'" "noerr_inv c \<Longrightarrow> noerr_inv c'"
    "doomed_inv c \<Longrightarrow> doomed_inv c'"
proof -
  have le: "le_heap settings_phase (settingss c) (settingss c')" "le_heap phys_phase (physes c) (physes c')"
    "le_heap net_phase (nets c) (nets c')" "le_heap pa_phase (pas c) (pas c')" "le_heap virt_phase (virts c) (virts c')"
    "le_heap vr_phase (vrs c) (vrs c')" using e by (simp_all add: evolves_def)
  note leD = le_heapD [OF le(1)] le_heapD [OF le(2)] le_heapD [OF le(3)] le_heapD [OF le(4)] le_heapD [OF le(5)]
  show "delete_inv c \<Longrightarrow> delete_inv c'"
    unfolding delete_inv_def by (auto dest!: leD le_heapD [OF le(6)] simp: phase_defs vr_phase_def)
  show "new_inv c \<Longrightarrow> new_inv c'" unfolding new_inv_def by (auto dest!: leD simp: phase_defs)
  show "clean_inv c \<Longrightarrow> clean_inv c'" unfolding clean_inv_def by (auto dest!: leD simp: phase_defs)
  show "noerr_inv c \<Longrightarrow> noerr_inv c'" unfolding noerr_inv_def by (auto dest!: leD simp: phase_defs)
  show "doomed_inv c \<Longrightarrow> doomed_inv c'" unfolding doomed_inv_def by (auto dest!: leD simp: phase_defs)
qed

lemma evolves_phase_inv: "evolves c c' \<Longrightarrow> phase_inv c \<Longrightarrow> phase_inv c'"
  by (simp add: phase_inv_def evolves_parts)

lemma evolves_upd:
  "(\<And>x. virts c v = Some x \<Longrightarrow> virt_phase x (f1 x)) \<Longrightarrow> evolves c (upd_virt v f1 c)"
  "(\<And>x. pas c v = Some x \<Longrightarrow> pa_phase x (f2 x)) \<Longrightarrow> evolves c (upd_pa v f2 c)"
  "(\<And>x. physes c v = Some x \<Longrightarrow> phys_phase x (f3 x)) \<Longrightarrow> evolves c (upd_phys v f3 c)"
  "(\<And>x. nets c v = Some x \<Longrightarrow> net_phase x (f4 x)) \<Longrightarrow> evolves c (upd_net v f4 c)"
  "(\<And>x. settingss c v = Some x \<Longrightarrow> settings_phase x (f5 x)) \<Longrightarrow> evolves c (upd_settings v f5 c)"
  "(\<And>x. vrs c v = Some x \<Longrightarrow> vr_phase x (f6 x)) \<Longrightarrow> evolves c (upd_vr v f6 c)"
  by (simp_all add: evolves_def upd_defs le_heap_upd)

lemma evolves_free:
  "evolves c (c\<lparr>virts := (virts c)(p := None)\<rparr>)" "evolves c (c\<lparr>pas := (pas c)(p := None)\<rparr>)"
  "evolves c (c\<lparr>physes := (physes c)(p := None)\<rparr>)" "evolves c (c\<lparr>nets := (nets c)(p := None)\<rparr>)"
  "evolves c (c\<lparr>settingss := (settingss c)(p := None)\<rparr>)" "evolves c (c\<lparr>vrs := (vrs c)(p := None)\<rparr>)"
  by (simp_all add: evolves_def le_heap_free)

end
