(* ===== verification/ModelOps.thy ===== *)
theory ModelOps
  imports ModelInv
begin

text \<open>Every operation of the interface keeps the invariant of the network model.\<close>

section \<open>Creating objects\<close>

definition fresh :: "ptr \<Rightarrow> lsdn_context \<Rightarrow> bool" where
  "fresh p c \<longleftrightarrow> p < next_ptr c \<and> settingss c p = None \<and> physes c p = None \<and> nets c p = None \<and> pas c p = None \<and>
     virts c p = None \<and> vrs c p = None \<and> rpas c p = None \<and> rvirts c p = None"

lemma c_alloc_cases:
  obtains ok nl where "c_alloc c = (ok, set_nl nl c)"
  by (cases "nl_malloc (c_nl c)") (auto simp: c_alloc_def)

lemma c_malloc_cases:
  assumes "c_malloc c = (r, c')"
  obtains (fail) nl where "r = None" "c' = set_nl nl c"
  | (ok) nl where "r = Some (next_ptr c)" "c' = set_nl nl (c\<lparr>next_ptr := next_ptr c + 1\<rparr>)"
proof -
  obtain b nl where "c_alloc c = (b, set_nl nl c)" by (rule c_alloc_cases)
  then have "b \<and> r = Some (next_ptr c) \<and> c' = set_nl nl (c\<lparr>next_ptr := next_ptr c + 1\<rparr>) \<or> r = None \<and> c' = set_nl nl c"
    using assms by (cases b) (auto simp: c_malloc_def set_nl_def set_rules_def)
  then show thesis using fail ok by blast
qed

lemma c_malloc_inv:
  assumes inv: "core_inv c" and m: "c_malloc c = (r, c')"
  shows "core_inv c'" and "r = Some p \<Longrightarrow> fresh p c'"
proof -
  have "core_inv (c\<lparr>next_ptr := next_ptr c + 1\<rparr>)" using inv by (simp add: core_inv_defs)
  with m inv show "core_inv c'" by (auto elim: c_malloc_cases)
  show "fresh p c'" if "r = Some p"
    using m that core_invD(6) [OF inv]
    by (auto elim!: c_malloc_cases simp: fresh_def fresh_inv_def set_nl_def set_rules_def)
qed

lemma vr_tab_new:
  assumes "h v = None" and "\<And>d. ht_rules d x = []"
  shows "vr_tab (h(v \<mapsto> x)) = vr_tab h"
  using assms by (auto simp: vr_tab_def find_vr_prio_def intro!: ext)

lemma names_inv_mono: "names_inv tab live \<Longrightarrow> live \<subseteq> live' \<Longrightarrow> names_inv tab live'"
  by (auto simp: names_inv_def)

lemma names_inv_insert: "names_inv tab live \<Longrightarrow> names_inv tab (insert p live)"
  by (auto simp: names_inv_def)

lemma names_inv_init: "names_inv lsdn_names_init live"
  by (simp add: names_inv_def) (simp add: lsdn_names_init_def)

lemma inv_add_virt:
  assumes inv: "core_inv c" and fr: "fresh v c" and net: "nets c n \<noteq> None" and x: "network x = n" "connected_through x = None"
    "virt_view_list x = []" "ht_in_rules x = []" "ht_out_rules x = []"
  shows "core_inv (upd_net n (\<lambda>n. n\<lparr>virt_list := v # virt_list n\<rparr>) (c\<lparr>virts := (virts c)(v \<mapsto> x)\<rparr>))" (is "core_inv ?c")
proof -
  have v: "virts c v = None" "v < next_ptr c" using fr by (auto simp: fresh_def)
  have tab: "vr_tab ((virts c)(v \<mapsto> x)) = vr_tab (virts c)" using v x by (intro vr_tab_new) (auto simp: ht_rules_def)
  have "lists_inv ?c"
    using core_invD(1) [OF inv] unfolding lists_inv_def upd_net_def by (simp add: lists_all_upd)
  moreover have "owners_inv ?c"
    using core_invD(2) [OF inv] v x net unfolding owners_inv_def upd_net_def
    by (simp add: owns_upd_simps owns_new_child owns_new_orphan)
  moreover have "attach_inv ?c"
    using core_invD(3) [OF inv] x unfolding attach_inv_def connected_ok_def upd_net_def by simp
  moreover have "vr_inv ?c"
    using core_invD(4) [OF inv] x unfolding vr_inv_def upd_net_def by (simp add: tab ht_rules_def)
  moreover have "all_names_inv ?c"
    using core_invD(5) [OF inv] unfolding all_names_inv_def upd_net_def
    by (auto intro!: names_inv_insert)
  moreover have "fresh_inv ?c"
    using core_invD(6) [OF inv] v x unfolding fresh_inv_def upd_net_def by auto
  moreover have "views_inv ?c"
    using core_invD(7) [OF inv] v x unfolding views_inv_def upd_net_def by (simp add: owns_new_owner)
  ultimately show ?thesis unfolding core_inv_def by simp
qed

lemma inv_add_net:
  assumes inv: "core_inv c" and fr: "fresh n c" and s: "settingss c s \<noteq> None" and x: "ne_settings x = s" "virt_list x = []"
    "attached_list x = []" "virt_names x = lsdn_names_init"
  shows "core_inv ((upd_settings s (\<lambda>x. x\<lparr>setting_users_list := n # setting_users_list x\<rparr>) (c\<lparr>nets := (nets c)(n \<mapsto> x)\<rparr>))
    \<lparr>networks_list := n # networks_list c\<rparr>)" (is "core_inv ?c")
proof -
  have n: "nets c n = None" "n < next_ptr c" using fr by (auto simp: fresh_def)
  have "lists_inv ?c" 
    using core_invD(1) [OF inv] n unfolding lists_inv_def upd_settings_def by (simp add: lists_all_upd lists_all_new)
  moreover have "owners_inv ?c" 
    using core_invD(2) [OF inv] n x s unfolding owners_inv_def upd_settings_def
    by (simp add: owns_new_child owns_new_owner)
  moreover have "attach_inv ?c" "vr_inv ?c" "views_inv ?c"
    using core_invD(3,4,7) [OF inv] unfolding attach_inv_def vr_inv_def views_inv_def upd_settings_def by simp_all
  moreover have "all_names_inv ?c"
    using core_invD(5) [OF inv] n x unfolding all_names_inv_def upd_settings_def
    by (auto simp: names_inv_init intro!: names_inv_insert)
  moreover have "fresh_inv ?c"
    using core_invD(6) [OF inv] n x unfolding fresh_inv_def upd_settings_def by auto
  ultimately show ?thesis unfolding core_inv_def by simp
qed

lemma pa_unique_new:
  assumes "pa_unique h" and "\<And>b y. h b = Some y \<Longrightarrow> \<not> (pa_phys y = pa_phys x \<and> pa_net y = pa_net x)"
  shows "pa_unique (h(a \<mapsto> x))"
  using assms unfolding pa_unique_def by (simp split: if_splits) (metis (no_types))

lemma connected_ok_new_pa:
  assumes "connected_ok h k" and "\<And>v y. h v = Some y \<Longrightarrow> connected_through y \<noteq> Some a"
  shows "connected_ok h (k(a \<mapsto> x))"
  using assms unfolding connected_ok_def by auto

lemma inv_add_pa:
  assumes inv: "core_inv c" and fr: "fresh a c" and net: "nets c n \<noteq> None" and phys: "physes c p = Some px"
    and none: "\<And>b y. b \<in> set (attached_to_list px) \<Longrightarrow> pas c b = Some y \<Longrightarrow> pa_net y \<noteq> n"
    and x: "pa_net x = n" "pa_phys x = p" "connected_virt_list x = []" "pa_view_list x = []" "remote_pa_list x = []"
  shows "core_inv (upd_phys p (\<lambda>p. p\<lparr>attached_to_list := a # attached_to_list p\<rparr>)
    (upd_net n (\<lambda>n. n\<lparr>attached_list := a # attached_list n\<rparr>) (c\<lparr>pas := (pas c)(a \<mapsto> x)\<rparr>)))" (is "core_inv ?c")
proof -
  have a: "pas c a = None" "a < next_ptr c" using fr by (auto simp: fresh_def)
  have p: "physes c p \<noteq> None" using phys by simp
  have own: "owns (physes c) attached_to_list (pas c) (Some \<circ> pa_phys)" using core_invD(2) [OF inv] by (simp add: owners_inv_def)
  have uniq: "\<not> (pa_phys y = p \<and> pa_net y = n)" if "pas c b = Some y" for b y
    using none [of b y] owns_member [OF own phys, of b] that by auto
  have conn: "connected_through y \<noteq> Some a" if "virts c v = Some y" for v y
    using core_invD(2) [OF inv] a that unfolding owners_inv_def by (auto elim: owns_owner)
  have "lists_inv ?c"
    using core_invD(1) [OF inv] unfolding lists_inv_def upd_net_def upd_phys_def by (simp add: lists_all_upd)
  moreover have "owners_inv ?c"
    using core_invD(2) [OF inv] a x net p unfolding owners_inv_def upd_net_def upd_phys_def
    by (simp add: owns_upd_simps owns_new_child owns_new_owner)
  moreover have "attach_inv ?c"
    using core_invD(3) [OF inv] uniq x conn unfolding attach_inv_def upd_net_def upd_phys_def
    by (simp add: pa_unique_new connected_ok_new_pa)
  moreover have "vr_inv ?c"
    using core_invD(4) [OF inv] unfolding vr_inv_def upd_net_def upd_phys_def by simp
  moreover have "all_names_inv ?c"
    using core_invD(5) [OF inv] unfolding all_names_inv_def upd_net_def upd_phys_def by auto
  moreover have "fresh_inv ?c"
    using core_invD(6) [OF inv] a x unfolding fresh_inv_def upd_net_def upd_phys_def by auto
  moreover have "views_inv ?c"
    using core_invD(7) [OF inv] a x unfolding views_inv_def upd_net_def upd_phys_def by (simp add: owns_new_owner)
  ultimately show ?thesis unfolding core_inv_def by simp
qed

lemma inv_add_phys:
  assumes inv: "core_inv c" and fr: "fresh p c" and tab: "names_inv tab (insert p (dom (physes c)))"
    and x: "attached_to_list x = []"
  shows "core_inv (c\<lparr>phys_names := tab, physes := (physes c)(p \<mapsto> x), phys_list := p # phys_list c\<rparr>)" (is "core_inv ?c")
proof -
  have p: "physes c p = None" "p < next_ptr c" using fr by (auto simp: fresh_def)
  have "lists_inv ?c" using core_invD(1) [OF inv] p unfolding lists_inv_def by (simp add: lists_all_new)
  moreover have "owners_inv ?c" using core_invD(2) [OF inv] p x unfolding owners_inv_def by (simp add: owns_new_owner)
  moreover have "attach_inv ?c" "vr_inv ?c" "views_inv ?c"
    using core_invD(3,4,7) [OF inv] unfolding attach_inv_def vr_inv_def views_inv_def by simp_all
  moreover have "all_names_inv ?c" using core_invD(5) [OF inv] tab unfolding all_names_inv_def by simp
  moreover have "fresh_inv ?c" using core_invD(6) [OF inv] p x unfolding fresh_inv_def by auto
  ultimately show ?thesis unfolding core_inv_def by simp
qed

lemma inv_add_settings:
  assumes inv: "core_inv c" and fr: "fresh p c" and tab: "names_inv tab (insert p (dom (settingss c)))"
    and x: "setting_users_list x = []"
  shows "core_inv (c\<lparr>setting_names := tab, settingss := (settingss c)(p \<mapsto> x), settings_list := p # settings_list c\<rparr>)"
    (is "core_inv ?c")
proof -
  have p: "settingss c p = None" "p < next_ptr c" using fr by (auto simp: fresh_def)
  have "lists_inv ?c" using core_invD(1) [OF inv] p unfolding lists_inv_def by (simp add: lists_all_new)
  moreover have "owners_inv ?c" using core_invD(2) [OF inv] p x unfolding owners_inv_def by (simp add: owns_new_owner)
  moreover have "attach_inv ?c" "vr_inv ?c" "views_inv ?c"
    using core_invD(3,4,7) [OF inv] unfolding attach_inv_def vr_inv_def views_inv_def by simp_all
  moreover have "all_names_inv ?c" using core_invD(5) [OF inv] tab unfolding all_names_inv_def by simp
  moreover have "fresh_inv ?c" using core_invD(6) [OF inv] p x unfolding fresh_inv_def by auto
  ultimately show ?thesis unfolding core_inv_def by simp
qed

section \<open>Freeing objects\<close>

lemma names_inv_free: "names_inv tab live \<Longrightarrow> names_inv (lsdn_name_free p tab) (live - {p})"
  unfolding names_inv_def by (auto simp: set_lsdn_name_free intro: names_wf_free)

lemma pa_unique_free: "pa_unique h \<Longrightarrow> pa_unique (h(a := None))"
  unfolding pa_unique_def by (simp split: if_splits)

lemma connected_ok_free: "connected_ok h k \<Longrightarrow> connected_ok (h(v := None)) k" "connected_ok h k \<Longrightarrow> connected_ok h (k(a := None))"
  unfolding connected_ok_def by (simp_all split: if_splits)

lemma settings_do_free_inv:
  assumes inv: "core_inv c" and free: "settings_do_free s c = Some c'"
  shows "core_inv c'"
proof -
  from free obtain x where x: "settingss c s = Some x" "setting_users_list x = []"
    and c': "c' = c\<lparr>settings_list := remove1 s (settings_list c), setting_names := lsdn_name_free s (setting_names c),
             settingss := (settingss c)(s := None)\<rparr>"
    by (auto simp: settings_do_free_def bind_eq_Some_conv)
  have "lists_inv c'" using core_invD(1) [OF inv] unfolding lists_inv_def c' by (simp add: lists_all_free)
  moreover have "owners_inv c'" using core_invD(2) [OF inv] x unfolding owners_inv_def c' by (simp add: owns_free_owner)
  moreover have "attach_inv c'" "vr_inv c'" "views_inv c'"
    using core_invD(3,4,7) [OF inv] unfolding attach_inv_def vr_inv_def views_inv_def c' by simp_all
  moreover have "all_names_inv c'" using core_invD(5) [OF inv] unfolding all_names_inv_def c' by (simp add: names_inv_free)
  moreover have "fresh_inv c'" using core_invD(6) [OF inv] unfolding fresh_inv_def c' by auto
  ultimately show ?thesis unfolding core_inv_def by simp
qed

text \<open>Freeing a phys that is still attached leaves the attachments without an owner: the code relies on its callers here.\<close>

lemma phys_do_free_inv:
  assumes inv: "core_inv c" and free: "phys_do_free p c = Some c'" and x: "physes c p = Some x" "attached_to_list x = []"
  shows "core_inv c'"
proof -
  have c': "c' = c\<lparr>phys_list := remove1 p (phys_list c), phys_names := lsdn_name_free p (phys_names c),
             physes := (physes c)(p := None)\<rparr>"
    using free by (auto simp: phys_do_free_def bind_eq_Some_conv)
  have "lists_inv c'" using core_invD(1) [OF inv] unfolding lists_inv_def c' by (simp add: lists_all_free)
  moreover have "owners_inv c'" using core_invD(2) [OF inv] x unfolding owners_inv_def c' by (simp add: owns_free_owner)
  moreover have "attach_inv c'" "vr_inv c'" "views_inv c'"
    using core_invD(3,4,7) [OF inv] unfolding attach_inv_def vr_inv_def views_inv_def c' by simp_all
  moreover have "all_names_inv c'" using core_invD(5) [OF inv] unfolding all_names_inv_def c' by (simp add: names_inv_free)
  moreover have "fresh_inv c'" using core_invD(6) [OF inv] unfolding fresh_inv_def c' by auto
  ultimately show ?thesis unfolding core_inv_def by simp
qed

lemma net_do_free_inv:
  assumes inv: "core_inv c" and free: "net_do_free n c = Some c'"
  shows "core_inv c'"
proof -
  from free obtain x where x: "nets c n = Some x" "attached_list x = []" "virt_list x = []"
    and c': "c' = (upd_settings (ne_settings x) (\<lambda>s. s\<lparr>setting_users_list := remove1 n (setting_users_list s)\<rparr>)
       (c\<lparr>networks_list := remove1 n (networks_list c)\<rparr>))
         \<lparr>net_names := lsdn_name_free n (net_names c), nets := (nets c)(n := None)\<rparr>"
    by (auto simp: net_do_free_def bind_eq_Some_conv Let_def upd_settings_def)
  have "lists_inv c'"
    using core_invD(1) [OF inv] unfolding lists_inv_def c' upd_settings_def by (simp add: lists_all_free lists_all_upd)
  moreover have "owners_inv c'"
    using core_invD(2) [OF inv] x unfolding owners_inv_def c' upd_settings_def
    by (simp add: owns_free_owner owns_free_child [where y = x])
  moreover have "attach_inv c'" "vr_inv c'" "views_inv c'"
    using core_invD(3,4,7) [OF inv] unfolding attach_inv_def vr_inv_def views_inv_def c' upd_settings_def by simp_all
  moreover have "all_names_inv c'"
    using core_invD(5) [OF inv] unfolding all_names_inv_def c' upd_settings_def by (simp add: names_inv_free)
  moreover have "fresh_inv c'"
    using core_invD(6) [OF inv] unfolding fresh_inv_def c' upd_settings_def by auto
  ultimately show ?thesis unfolding core_inv_def by simp
qed

lemma pa_do_free_inv:
  assumes inv: "core_inv c" and free: "pa_do_free a c = Some c'" and views: "pas c a = Some x"
    "remote_pa_list x = []" "pa_view_list x = []"
  shows "core_inv c'"
proof -
  from free views have x: "connected_virt_list x = []" "\<not> explicitly_attached x"
    and c': "c' = (upd_phys (pa_phys x) (\<lambda>p. p\<lparr>attached_to_list := remove1 a (attached_to_list p)\<rparr>)
       (upd_net (pa_net x) (\<lambda>n. n\<lparr>attached_list := remove1 a (attached_list n)\<rparr>) c))\<lparr>pas := (pas c)(a := None)\<rparr>"
    by (auto simp: pa_do_free_def bind_eq_Some_conv Let_def upd_defs)
  have "lists_inv c'"
    using core_invD(1) [OF inv] unfolding lists_inv_def c' upd_phys_def upd_net_def by (simp add: lists_all_upd)
  moreover have "owners_inv c'"
    using core_invD(2) [OF inv] x views unfolding owners_inv_def c' upd_phys_def upd_net_def
    by (simp add: owns_upd_simps owns_free_owner owns_free_child [where y = x])
  moreover have "attach_inv c'"
    using core_invD(3) [OF inv] unfolding attach_inv_def c' upd_phys_def upd_net_def
    by (simp add: pa_unique_free connected_ok_free)
  moreover have "vr_inv c'" using core_invD(4) [OF inv] unfolding vr_inv_def c' upd_phys_def upd_net_def by simp
  moreover have "views_inv c'"
    using core_invD(7) [OF inv] views unfolding views_inv_def c' upd_phys_def upd_net_def by (simp add: owns_free_owner)
  moreover have "all_names_inv c'"
    using core_invD(5) [OF inv] unfolding all_names_inv_def c' upd_phys_def upd_net_def by auto
  moreover have "fresh_inv c'"
    using core_invD(6) [OF inv] unfolding fresh_inv_def c' upd_phys_def upd_net_def by auto
  ultimately show ?thesis unfolding core_inv_def by simp
qed

section \<open>Rules of virts\<close>

lemma ht_rules_upd_ht [simp]: "ht_rules d' (upd_ht d f x) = (if d' = d then f (ht_rules d x) else ht_rules d' x)"
  by (cases d; cases d') (simp_all add: ht_rules_def upd_ht_def)

lemma upd_ht_fields [simp]:
  "network (upd_ht d f x) = network x" "connected_through (upd_ht d f x) = connected_through x"
  "virt_view_list (upd_ht d f x) = virt_view_list x" "vi_state (upd_ht d f x) = vi_state x"
  "vi_pending_free (upd_ht d f x) = vi_pending_free x" "committed_to (upd_ht d f x) = committed_to x"
  by (simp_all add: upd_ht_def)

lemma find_vr_prio_upd:
  assumes "\<And>pr. vr_prio_num (f pr) = vr_prio_num pr"
  shows "find_vr_prio m (upd_vr_prio n f ht) = (if m = n then map_option f (find_vr_prio m ht) else find_vr_prio m ht)"
  using assms by (induction ht) (auto simp: find_vr_prio_def upd_vr_prio_def)

lemma find_vr_prio_append: "find_vr_prio m (ht @ [pr]) =
    (case find_vr_prio m ht of None \<Rightarrow> if vr_prio_num pr = m then Some pr else None | r \<Rightarrow> r)"
  by (auto simp: find_vr_prio_def find_append split: option.splits)

lemma find_vr_prio_filter:
  "find_vr_prio m (filter (\<lambda>pr. vr_prio_num pr \<noteq> n) ht) = (if m = n then None else find_vr_prio m ht)"
  by (induction ht) (auto simp: find_vr_prio_def)

lemma vr_tab_upd_prio:
  assumes "\<And>pr. vr_prio_num (f pr) = vr_prio_num pr"
  shows "vr_tab (h(v := map_option (upd_ht d (upd_vr_prio n f)) (h v))) =
    (vr_tab h)((v, d, n) := map_option f (vr_tab h (v, d, n)))"
proof
  fix k show "vr_tab (h(v := map_option (upd_ht d (upd_vr_prio n f)) (h v))) k =
      ((vr_tab h)((v, d, n) := map_option f (vr_tab h (v, d, n)))) k"
    using assms by (cases k; cases "h v") (auto simp: vr_tab_def find_vr_prio_upd)
qed

lemma vr_tab_append_prio:
  assumes "h v = Some x" "find_vr_prio (vr_prio_num pr) (ht_rules d x) = None"
  shows "vr_tab (h(v := map_option (upd_ht d (\<lambda>ht. ht @ [pr])) (h v))) = (vr_tab h)((v, d, vr_prio_num pr) \<mapsto> pr)"
proof
  fix k show "vr_tab (h(v := map_option (upd_ht d (\<lambda>ht. ht @ [pr])) (h v))) k = ((vr_tab h)((v, d, vr_prio_num pr) \<mapsto> pr)) k"
    using assms by (cases k) (auto simp: vr_tab_def find_vr_prio_append split: option.splits)
qed

lemma vr_tab_filter_prio:
  "vr_tab (h(v := map_option (upd_ht d (filter (\<lambda>pr. vr_prio_num pr \<noteq> n))) (h v))) = (vr_tab h)((v, d, n) := None)"
proof
  fix k show "vr_tab (h(v := map_option (upd_ht d (filter (\<lambda>pr. vr_prio_num pr \<noteq> n))) (h v))) k = ((vr_tab h)((v, d, n) := None)) k"
    by (cases k; cases "h v") (auto simp: vr_tab_def find_vr_prio_filter)
qed

lemma map_vr_prio_num_upd [simp]:
  "(\<And>pr. vr_prio_num (f pr) = vr_prio_num pr) \<Longrightarrow> map vr_prio_num (upd_vr_prio n f ht) = map vr_prio_num ht"
  by (simp add: upd_vr_prio_def)

lemma core_inv_upd_virt_ht:
  assumes inv: "core_inv c" and vr: "vr_inv (upd_virt v (upd_ht d f) c)"
  shows "core_inv (upd_virt v (upd_ht d f) c)" (is "core_inv ?c")
proof -
  have "lists_inv ?c" "all_names_inv ?c" "fresh_inv ?c"
    using core_invD(1,5,6) [OF inv] unfolding lists_inv_def all_names_inv_def fresh_inv_def upd_virt_def by simp_all
  moreover have "owners_inv ?c" using core_invD(2) [OF inv] unfolding owners_inv_def upd_virt_def by (simp add: owns_upd_simps)
  moreover have "attach_inv ?c"
    using core_invD(3) [OF inv] unfolding attach_inv_def upd_virt_def by (simp add: connected_ok_upd_virt)
  moreover have "views_inv ?c" using core_invD(7) [OF inv] unfolding views_inv_def upd_virt_def by (simp add: owns_upd_simps)
  ultimately show ?thesis using vr unfolding core_inv_def by simp
qed

lemma vr_inv_upd_prio:
  assumes "vr_inv c" and "\<And>pr. vr_prio_num (f pr) = vr_prio_num pr" "\<And>pr. rules_list (f pr) = rules_list pr"
  shows "vr_inv (upd_virt v (upd_ht d (upd_vr_prio n f)) c)"
proof -
  have "owns ((vr_tab (virts c))((v, d, n) := map_option f (vr_tab (virts c) (v, d, n)))) rules_list (vrs c) (Some \<circ> vr_home)"
    using assms by (intro owns_upd_owner) (auto simp: vr_inv_def)
  then show ?thesis using assms unfolding vr_inv_def upd_virt_def by (auto simp: vr_tab_upd_prio)
qed

lemma vr_inv_append_prio:
  assumes "vr_inv c" "virts c v = Some x" "find_vr_prio (vr_prio_num pr) (ht_rules d x) = None" "rules_list pr = []"
  shows "vr_inv (upd_virt v (upd_ht d (\<lambda>ht. ht @ [pr])) c)"
proof -
  have "vr_tab (virts c) (v, d, vr_prio_num pr) = None" using assms(2,3) by (simp add: vr_tab_def)
  then have "owns ((vr_tab (virts c))((v, d, vr_prio_num pr) \<mapsto> pr)) rules_list (vrs c) (Some \<circ> vr_home)"
    using assms by (intro owns_new_owner) (auto simp: vr_inv_def)
  moreover have "vr_prio_num pr \<notin> vr_prio_num ` set (ht_rules d x)"
    using assms(3) by (auto simp: find_vr_prio_def find_None_iff)
  ultimately show ?thesis
    using assms vr_tab_append_prio [of "virts c", OF assms(2,3)] unfolding vr_inv_def upd_virt_def by (auto split: if_splits)
qed

lemma vr_inv_filter_prio:
  assumes "vr_inv c" "vr_tab (virts c) (v, d, n) = Some pr" "rules_list pr = []"
  shows "vr_inv (upd_virt v (upd_ht d (filter (\<lambda>pr. vr_prio_num pr \<noteq> n))) c)"
proof -
  have "owns ((vr_tab (virts c))((v, d, n) := None)) rules_list (vrs c) (Some \<circ> vr_home)"
    using assms by (intro owns_free_owner) (auto simp: vr_inv_def)
  then show ?thesis
    using assms unfolding vr_inv_def upd_virt_def
    by (auto simp: vr_tab_filter_prio distinct_map_filter simp del: fun_upd_apply elim!: upd_SomeE)
qed

lemma core_inv_add_vr:
  assumes inv: "core_inv c" and fr: "fresh r c" and tab: "vr_tab (virts c) (v, d, n) \<noteq> None" and y: "vr_home y = (v, d, n)"
  shows "core_inv (upd_virt v (upd_ht d (upd_vr_prio n (\<lambda>pr. pr\<lparr>rules_list := r # rules_list pr\<rparr>)))
    (c\<lparr>vrs := (vrs c)(r \<mapsto> y)\<rparr>))" (is "core_inv (upd_virt v (upd_ht d (upd_vr_prio n ?f)) ?c)")
proof -
  have r: "vrs c r = None" "r < next_ptr c" using fr by (auto simp: fresh_def)
  have "owns ((vr_tab (virts c))((v, d, n) := map_option ?f (vr_tab (virts c) (v, d, n)))) rules_list ((vrs c)(r \<mapsto> y)) (Some \<circ> vr_home)"
    using core_invD(4) [OF inv] r tab y by (intro owns_new_child) (auto simp: vr_inv_def)
  then have vr: "vr_inv (upd_virt v (upd_ht d (upd_vr_prio n ?f)) ?c)"
    using core_invD(4) [OF inv] unfolding vr_inv_def upd_virt_def by (auto simp: vr_tab_upd_prio)
  moreover have "owners_inv (upd_virt v (upd_ht d (upd_vr_prio n ?f)) ?c)"
    using core_invD(2) [OF inv] unfolding owners_inv_def upd_virt_def by (simp add: owns_upd_simps)
  moreover have "attach_inv (upd_virt v (upd_ht d (upd_vr_prio n ?f)) ?c)"
    using core_invD(3) [OF inv] unfolding attach_inv_def upd_virt_def by (simp add: connected_ok_upd_virt)
  moreover have "views_inv (upd_virt v (upd_ht d (upd_vr_prio n ?f)) ?c)"
    using core_invD(7) [OF inv] unfolding views_inv_def upd_virt_def by (simp add: owns_upd_simps)
  ultimately show ?thesis
    using core_invD(1,5,6) [OF inv] r
    unfolding core_inv_def lists_inv_def all_names_inv_def fresh_inv_def upd_virt_def by simp
qed

text \<open>What freeing rules leaves alone: everything but the two tables of the virt, the rules, and the rule engine.\<close>

definition vr_frame :: "ptr \<Rightarrow> lsdn_context \<Rightarrow> lsdn_context \<Rightarrow> bool" where
  "vr_frame v c c' \<longleftrightarrow> (\<exists>hi ho vs r. c' = (upd_virt v (\<lambda>x. x\<lparr>ht_in_rules := hi, ht_out_rules := ho\<rparr>) c)\<lparr>vrs := vs, run := r\<rparr> \<and>
     nl_log (r_nl (c_rules r)) = nl_log (c_nl c) \<and> le_heap vr_phase (vrs c) vs)"

lemma vr_phase_trans: "le_heap vr_phase h h' \<Longrightarrow> le_heap vr_phase h' h'' \<Longrightarrow> le_heap vr_phase h h''"
  by (erule le_heap_trans) (simp_all add: vr_phase_def)

lemma vr_frame_refl: "vr_frame v c c"
proof (cases "virts c v")
  case None
  then have "upd_virt v f c = c" for f by (simp add: upd_virt_def fun_upd_idem)
  then have "c = (upd_virt v (\<lambda>x. x\<lparr>ht_in_rules := [], ht_out_rules := []\<rparr>) c)\<lparr>vrs := vrs c, run := run c\<rparr>" by simp
  then show ?thesis unfolding vr_frame_def by (metis le_heap_refl phase_refl(6))
next
  case (Some x)
  then have "c = (upd_virt v (\<lambda>y. y\<lparr>ht_in_rules := ht_in_rules x, ht_out_rules := ht_out_rules x\<rparr>) c)\<lparr>vrs := vrs c, run := run c\<rparr>"
    by (simp add: upd_virt_def fun_upd_idem)
  then show ?thesis unfolding vr_frame_def by (metis le_heap_refl phase_refl(6))
qed

lemma vr_frame_trans: "vr_frame v c c' \<Longrightarrow> vr_frame v c' c'' \<Longrightarrow> vr_frame v c c''"
  unfolding vr_frame_def upd_virt_def
  by (clarsimp simp: option.map_comp comp_def) (use vr_phase_trans in blast)

lemma vr_frame_fields:
  assumes "vr_frame v c c'"
  shows "nets c' = nets c" "pas c' = pas c" "physes c' = physes c" "settingss c' = settingss c" "rpas c' = rpas c" "rvirts c' = rvirts c"
    "networks_list c' = networks_list c" "settings_list c' = settings_list c" "phys_list c' = phys_list c" "next_ptr c' = next_ptr c"
    "nomem_cb c' = nomem_cb c" "nl_log (c_nl c') = nl_log (c_nl c)"
  using assms by (auto simp: vr_frame_def upd_virt_def)

lemma vr_frame_evolves: "vr_frame v c c' \<Longrightarrow> evolves c c'"
  by (auto simp: vr_frame_def upd_virt_def evolves_def intro!: le_heap_upd) (simp_all add: phase_defs)

lemma vr_frame_virt:
  assumes "vr_frame v c c'" "virts c v = Some x"
  obtains hi ho where "virts c' = (virts c)(v \<mapsto> x\<lparr>ht_in_rules := hi, ht_out_rules := ho\<rparr>)"
  using assms by (auto simp: vr_frame_def upd_virt_def)

lemma vr_frame_live:
  assumes "vr_frame v c c'" "virts c v = Some x"
  shows "\<exists>y. virts c' v = Some y \<and> network y = network x \<and> connected_through y = connected_through x \<and>
    virt_view_list y = virt_view_list x \<and> vi_state y = vi_state x \<and> vi_pending_free y = vi_pending_free x"
  using assms by (auto simp: vr_frame_def upd_virt_def)

lemma vr_frame_others: "vr_frame v c c' \<Longrightarrow> w \<noteq> v \<Longrightarrow> virts c' w = virts c w"
  by (auto simp: vr_frame_def upd_virt_def)

lemma do_free_vr_frame:
  assumes inv: "core_inv c" and r: "vrs c r = Some y" "vr_home y = (v, d, n)"
  obtains c' where "do_free_vr r c = Some c'" "core_inv c'" "vr_frame v c c'" "vrs c' = (vrs c)(r := None)"
    "virts c' = (virts c)(v := map_option (upd_ht d (upd_vr_prio n (\<lambda>pr. pr\<lparr>rules_list := remove1 r (rules_list pr)\<rparr>))) (virts c v))"
proof -
  let ?f = "\<lambda>pr. pr\<lparr>rules_list := remove1 r (rules_list pr)\<rparr>"
  let ?c = "upd_virt v (upd_ht d (upd_vr_prio n ?f)) (c\<lparr>vrs := (vrs c)(r := None)\<rparr>)"
  let ?st = "c_rules (run c)"
  let ?c' = "set_rules (?st\<lparr>r_rules := (r_rules ?st)(R_vr r := None)\<rparr>) ?c"
  have eq: "do_free_vr r c = Some ?c'" using r by (cases c) (simp add: do_free_vr_def upd_virt_def set_rules_def Let_def)
  have "owns ((vr_tab (virts c))((v, d, n) := map_option ?f (vr_tab (virts c) (v, d, n)))) rules_list ((vrs c)(r := None)) (Some \<circ> vr_home)"
    using core_invD(4) [OF inv] r by (intro owns_free_child [where y = y]) (auto simp: vr_inv_def)
  then have "vr_inv ?c"
    using core_invD(4) [OF inv] unfolding vr_inv_def upd_virt_def by (auto simp: vr_tab_upd_prio)
  moreover have "owners_inv ?c" using core_invD(2) [OF inv] unfolding owners_inv_def upd_virt_def by (simp add: owns_upd_simps)
  moreover have "attach_inv ?c" using core_invD(3) [OF inv] unfolding attach_inv_def upd_virt_def by (simp add: connected_ok_upd_virt)
  moreover have "views_inv ?c" using core_invD(7) [OF inv] unfolding views_inv_def upd_virt_def by (simp add: owns_upd_simps)
  ultimately have "core_inv ?c"
    using core_invD(1,5,6) [OF inv] unfolding core_inv_def lists_inv_def all_names_inv_def fresh_inv_def upd_virt_def by simp
  then have core: "core_inv ?c'" by simp
  obtain x where x: "virts c v = Some x"
    using core_invD(4) [OF inv] r unfolding vr_inv_def by (auto elim!: owns_owner simp: vr_tab_def bind_eq_Some_conv)
  have "upd_ht d (upd_vr_prio n ?f) x = x\<lparr>ht_in_rules := ht_in_rules (upd_ht d (upd_vr_prio n ?f) x),
      ht_out_rules := ht_out_rules (upd_ht d (upd_vr_prio n ?f) x)\<rparr>" by (simp add: upd_ht_def)
  then have frame: "vr_frame v c ?c'"
    unfolding vr_frame_def using x
    by (intro exI [of _ "ht_in_rules (upd_ht d (upd_vr_prio n ?f) x)"] exI [of _ "ht_out_rules (upd_ht d (upd_vr_prio n ?f) x)"]
        exI [of _ "vrs ?c'"] exI [of _ "run ?c'"]) (cases c, simp add: upd_virt_def set_rules_def le_heap_free)
  show thesis
    by (rule that [OF eq core frame]) (simp_all add: set_rules_def upd_virt_def)
qed

lemma vr_tab_mem:
  assumes "vr_inv c" "virts c v = Some x" "pr \<in> set (ht_rules d x)"
  shows "vr_tab (virts c) (v, d, vr_prio_num pr) = Some pr"
proof -
  have "distinct (map vr_prio_num (ht_rules d x))" using assms(1,2) by (simp add: vr_inv_def)
  then have "find_vr_prio (vr_prio_num pr) (ht_rules d x) = Some pr"
    unfolding find_vr_prio_def using assms(3) by (intro find_unique) (auto simp: distinct_map inj_on_def)
  then show ?thesis using assms(2) by (simp add: vr_tab_def)
qed

lemma vr_listed:
  assumes "vr_inv c" "virts c v = Some x" "pr \<in> set (ht_rules d x)"
  shows "distinct (rules_list pr)"
    and "r \<in> set (rules_list pr) \<Longrightarrow> \<exists>y. vrs c r = Some y \<and> vr_home y = (v, d, vr_prio_num pr)"
  using vr_tab_mem [OF assms] assms(1) unfolding vr_inv_def
  by (auto simp: owns_member dest: owns_distinct)

lemma upd_vr_prio_twice: "(\<And>pr. vr_prio_num (g pr) = vr_prio_num pr) \<Longrightarrow>
    upd_vr_prio n f (upd_vr_prio n g ht) = upd_vr_prio n (f \<circ> g) ht"
  by (simp add: upd_vr_prio_def)

lemma filter_upd_vr_prio: "(\<And>pr. vr_prio_num (g pr) = vr_prio_num pr) \<Longrightarrow>
    filter (\<lambda>pr. vr_prio_num pr \<noteq> n) (upd_vr_prio n g ht) = filter (\<lambda>pr. vr_prio_num pr \<noteq> n) ht"
  by (induction ht) (auto simp: upd_vr_prio_def)

text \<open>The state while the rules of a priority are freed one after the other.\<close>

definition freeing :: "ptr \<Rightarrow> lsdn_direction \<Rightarrow> u16 \<Rightarrow> ptr list \<Rightarrow> ptr set \<Rightarrow> lsdn_virt \<Rightarrow> lsdn_context \<Rightarrow> lsdn_context \<Rightarrow> bool" where
  "freeing v d n rest gone x c s \<longleftrightarrow> core_inv s \<and> vr_frame v c s \<and> vrs s = (\<lambda>r. if r \<in> gone then None else vrs c r) \<and>
     (\<exists>y. virts s v = Some y \<and> ht_rules d y = upd_vr_prio n (\<lambda>pr. pr\<lparr>rules_list := rest\<rparr>) (ht_rules d x) \<and>
        (\<forall>d'. d' \<noteq> d \<longrightarrow> ht_rules d' y = ht_rules d' x))"

lemma freeing_step:
  assumes f: "freeing v d n (r # rest) gone x c s" and r: "vrs c r = Some y" "vr_home y = (v, d, n)" "r \<notin> gone"
  shows "\<exists>s'. do_free_vr r s = Some s' \<and> freeing v d n rest (insert r gone) x c s'"
proof -
  let ?rm = "\<lambda>pr. pr\<lparr>rules_list := remove1 r (rules_list pr)\<rparr>"
  from f obtain z where z: "virts s v = Some z" "ht_rules d z = upd_vr_prio n (\<lambda>pr. pr\<lparr>rules_list := r # rest\<rparr>) (ht_rules d x)"
    "\<And>d'. d' \<noteq> d \<Longrightarrow> ht_rules d' z = ht_rules d' x" unfolding freeing_def by auto
  from f have s: "core_inv s" "vr_frame v c s" "vrs s = (\<lambda>r. if r \<in> gone then None else vrs c r)" by (simp_all add: freeing_def)
  have sr: "vrs s r = Some y" using r s(3) by simp
  obtain s' where s': "do_free_vr r s = Some s'" "core_inv s'" "vr_frame v s s'" "vrs s' = (vrs s)(r := None)"
    "virts s' = (virts s)(v := map_option (upd_ht d (upd_vr_prio n ?rm)) (virts s v))"
    by (rule do_free_vr_frame [OF s(1) sr r(2)])
  have "virts s' v = Some (upd_ht d (upd_vr_prio n ?rm) z)" using s'(5) z(1) by simp
  moreover have "upd_vr_prio n ?rm (ht_rules d z) = upd_vr_prio n (\<lambda>pr. pr\<lparr>rules_list := rest\<rparr>) (ht_rules d x)"
    using z(2) by (simp add: upd_vr_prio_twice comp_def)
  ultimately have "freeing v d n rest (insert r gone) x c s'"
    unfolding freeing_def using s'(2,4) vr_frame_trans [OF s(2) s'(3)] s(3) z(3) by auto
  then show ?thesis using s'(1) by blast
qed

lemma do_free_vr_prio_total:
  assumes inv: "core_inv c" and x: "virts c v = Some x" and pr: "pr \<in> set (ht_rules d x)"
  obtains c' y where "do_free_vr_prio v d pr c = Some c'" "core_inv c'" "vr_frame v c c'" "virts c' v = Some y"
    "ht_rules d y = filter (\<lambda>p. vr_prio_num p \<noteq> vr_prio_num pr) (ht_rules d x)"
    "\<And>d'. d' \<noteq> d \<Longrightarrow> ht_rules d' y = ht_rules d' x"
proof -
  let ?n = "vr_prio_num pr"
  note vr = core_invD(4) [OF inv]
  note listed = vr_listed [OF vr x pr]
  have uniq: "p = pr" if "p \<in> set (ht_rules d x)" "vr_prio_num p = ?n" for p
    using vr_tab_mem [OF vr x pr] vr_tab_mem [OF vr x that(1)] that(2) by simp
  have "upd_vr_prio ?n (\<lambda>p. p\<lparr>rules_list := rules_list pr\<rparr>) (ht_rules d x) = ht_rules d x"
    unfolding upd_vr_prio_def by (rule map_idI) (auto dest: uniq)
  then have start: "freeing v d ?n (rules_list pr) {} x c c" using inv x by (simp add: freeing_def vr_frame_refl)
  have "\<exists>s. foldM do_free_vr (rules_list pr) c = Some s \<and> freeing v d ?n (drop (length (rules_list pr)) (rules_list pr)) (set (rules_list pr)) x c s"
  proof (rule foldM_total_prefix [where I = "\<lambda>pre. freeing v d ?n (drop (length pre) (rules_list pr)) (set pre) x c"])
    show "freeing v d ?n (drop (length ([] :: ptr list)) (rules_list pr)) (set []) x c c" using start by simp
  next
    fix pre r rest s
    assume split: "rules_list pr = pre @ r # rest" and "freeing v d ?n (drop (length pre) (rules_list pr)) (set pre) x c s"
    moreover from split obtain y where "vrs c r = Some y" "vr_home y = (v, d, ?n)" using listed(2) [of r] by auto
    moreover have "r \<notin> set pre" using listed(1) split by auto
    ultimately show "\<exists>s'. do_free_vr r s = Some s' \<and> freeing v d ?n (drop (length (pre @ [r])) (rules_list pr)) (set (pre @ [r])) x c s'"
      using freeing_step [of v d ?n r rest "set pre" x c s y] by simp
  qed
  then obtain s z where s: "foldM do_free_vr (rules_list pr) c = Some s" "core_inv s" "vr_frame v c s" "virts s v = Some z"
    "ht_rules d z = upd_vr_prio ?n (\<lambda>p. p\<lparr>rules_list := []\<rparr>) (ht_rules d x)" "\<And>d'. d' \<noteq> d \<Longrightarrow> ht_rules d' z = ht_rules d' x"
    unfolding freeing_def by auto
  let ?del = "upd_ht d (filter (\<lambda>p. vr_prio_num p \<noteq> ?n))"
  have tab: "vr_tab (virts s) (v, d, ?n) = Some (pr\<lparr>rules_list := []\<rparr>)"
    using s(4,5) vr_tab_mem [OF vr x pr] x by (simp add: vr_tab_def find_vr_prio_upd)
  have "core_inv (upd_virt v ?del s)"
    by (rule core_inv_upd_virt_ht [OF s(2)], rule vr_inv_filter_prio [OF core_invD(4) [OF s(2)] tab]) simp
  moreover have "vr_frame v s (upd_virt v ?del s)"
    unfolding vr_frame_def using s(4)
    by (intro exI [of _ "ht_in_rules (?del z)"] exI [of _ "ht_out_rules (?del z)"] exI [of _ "vrs s"] exI [of _ "run s"])
      (simp add: upd_virt_def upd_ht_def)
  moreover have "virts (upd_virt v ?del s) v = Some (?del z)" using s(4) by (simp add: upd_virt_def)
  ultimately show thesis
    using that [of "upd_virt v ?del s" "?del z"] s vr_frame_trans [OF s(3)]
    by (simp add: do_free_vr_prio_def filter_upd_vr_prio)
qed

lemma free_prios_total:
  assumes inv: "core_inv c" and x: "virts c v = Some x"
  obtains c' y where "foldM (do_free_vr_prio v d) (ht_rules d x) c = Some c'" "core_inv c'" "vr_frame v c c'" "virts c' v = Some y"
    "ht_rules d y = []" "\<And>d'. d' \<noteq> d \<Longrightarrow> ht_rules d' y = ht_rules d' x"
proof -
  let ?ps = "ht_rules d x"
  let ?I = "\<lambda>pre s. core_inv s \<and> vr_frame v c s \<and> (\<exists>y. virts s v = Some y \<and> ht_rules d y = drop (length pre) ?ps \<and>
    (\<forall>d'. d' \<noteq> d \<longrightarrow> ht_rules d' y = ht_rules d' x))"
  have "\<exists>s. foldM (do_free_vr_prio v d) ?ps c = Some s \<and> ?I ?ps s"
  proof (rule foldM_total_prefix [where I = ?I])
    show "?I [] c" using inv x by (simp add: vr_frame_refl)
  next
    fix pre p rest s
    assume split: "?ps = pre @ p # rest" and "?I pre s"
    then obtain y where s: "core_inv s" "vr_frame v c s" "virts s v = Some y" "ht_rules d y = p # rest"
      "\<And>d'. d' \<noteq> d \<Longrightarrow> ht_rules d' y = ht_rules d' x" by auto
    have "distinct (map vr_prio_num (p # rest))" using core_invD(4) [OF s(1)] s(3,4) unfolding vr_inv_def by metis
    then have rest: "filter (\<lambda>q. vr_prio_num q \<noteq> vr_prio_num p) (p # rest) = rest" by (simp add: filter_id_conv) (metis image_eqI)
    obtain s' z where s': "do_free_vr_prio v d p s = Some s'" "core_inv s'" "vr_frame v s s'" "virts s' v = Some z"
      "ht_rules d z = filter (\<lambda>q. vr_prio_num q \<noteq> vr_prio_num p) (ht_rules d y)"
      "\<And>d'. d' \<noteq> d \<Longrightarrow> ht_rules d' z = ht_rules d' y"
      using do_free_vr_prio_total [OF s(1,3), of p d] s(4) by auto
    then show "\<exists>s'. do_free_vr_prio v d p s = Some s' \<and> ?I (pre @ [p]) s'"
      using s vr_frame_trans [OF s(2) s'(3)] split rest by auto
  qed
  then show thesis using that by auto
qed

lemma lsdn_vr_do_free_all_rules_total:
  assumes inv: "core_inv c" and x: "virts c v = Some x"
  obtains c' y where "lsdn_vr_do_free_all_rules v c = Some c'" "core_inv c'" "vr_frame v c c'" "virts c' v = Some y"
    "ht_in_rules y = []" "ht_out_rules y = []"
proof -
  obtain c1 y1 where 1: "foldM (do_free_vr_prio v LSDN_IN) (ht_rules LSDN_IN x) c = Some c1" "core_inv c1" "vr_frame v c c1"
    "virts c1 v = Some y1" "ht_rules LSDN_IN y1 = []"
    by (rule free_prios_total [OF inv x, where d = LSDN_IN])
  obtain c2 y2 where 2: "foldM (do_free_vr_prio v LSDN_OUT) (ht_rules LSDN_OUT y1) c1 = Some c2" "core_inv c2" "vr_frame v c1 c2"
    "virts c2 v = Some y2" "ht_rules LSDN_OUT y2 = []" "\<And>d'. d' \<noteq> LSDN_OUT \<Longrightarrow> ht_rules d' y2 = ht_rules d' y1"
    by (rule free_prios_total [OF 1(2,4), where d = LSDN_OUT]) blast
  show thesis
    using that [of c2 y2] 1 2 vr_frame_trans [OF 1(3) 2(3)] 2(6) [of LSDN_IN] x
    by (simp add: lsdn_vr_do_free_all_rules_def ht_rules_def c_assert_def)
qed

end
