(* ===== verification/Api.thy ===== *)
theory Api
  imports ModelOps
begin

text \<open>
  Every call of the interface of the network model keeps the invariant: the operations that free or change
  objects are evolutions that never abort except where stated, and the reachable states satisfy the invariant.
\<close>

section \<open>Links between virts and attachments\<close>

lemma ht_rules_connected [simp]: "ht_rules d (x\<lparr>connected_through := a\<rparr>) = ht_rules d x"
  by (simp add: ht_rules_def)

lemma connected_ok_change:
  assumes "connected_ok h k" and "\<And>x a y. h v = Some x \<Longrightarrow> connected_through (f x) = Some a \<Longrightarrow> k a = Some y \<Longrightarrow> pa_net y = network (f x)"
  shows "connected_ok (h(v := map_option f (h v))) k"
  using assms unfolding connected_ok_def by (auto split: if_splits)

lemma connected_okD:
  "connected_ok h k \<Longrightarrow> h v = Some x \<Longrightarrow> connected_through x = Some a \<Longrightarrow> k a = Some y \<Longrightarrow> pa_net y = network x"
  by (simp add: connected_ok_def)

lemma core_inv_unlink_virt:
  assumes inv: "core_inv c" and x: "virts c v = Some x" "connected_through x = Some a"
  shows "core_inv (upd_virt v (\<lambda>x. x\<lparr>connected_through := None\<rparr>)
    (upd_pa a (\<lambda>y. y\<lparr>connected_virt_list := remove1 v (connected_virt_list y)\<rparr>) c))" (is "core_inv ?c")
proof -
  have "lists_inv ?c" "all_names_inv ?c" "fresh_inv ?c"
    using core_invD(1,5,6) [OF inv] unfolding lists_inv_def all_names_inv_def fresh_inv_def upd_virt_def upd_pa_def by simp_all
  moreover have "owners_inv ?c"
    using core_invD(2) [OF inv] owns_unlink [of "pas c" connected_virt_list "virts c" connected_through, OF _ x]
    unfolding owners_inv_def upd_virt_def upd_pa_def by (simp add: owns_upd_simps)
  moreover have "attach_inv ?c"
    using core_invD(3) [OF inv] unfolding attach_inv_def upd_virt_def upd_pa_def
    by (auto simp del: fun_upd_apply intro!: pa_unique_upd connected_ok_upd_pa connected_ok_change)
  moreover have "vr_inv ?c"
    using core_invD(4) [OF inv] unfolding vr_inv_def upd_virt_def upd_pa_def by (auto simp: vr_tab_upd)
  moreover have "views_inv ?c"
    using core_invD(7) [OF inv] unfolding views_inv_def upd_virt_def upd_pa_def by (auto simp: owns_upd_simps)
  ultimately show ?thesis unfolding core_inv_def by simp
qed

lemma core_inv_link_virt:
  assumes inv: "core_inv c" and x: "virts c v = Some x" "connected_through x = None"
    and a: "pas c a = Some y" "pa_net y = network x"
  shows "core_inv (upd_pa a (\<lambda>y. y\<lparr>connected_virt_list := v # connected_virt_list y\<rparr>)
    (upd_virt v (\<lambda>x. x\<lparr>connected_through := Some a\<rparr>) c))" (is "core_inv ?c")
proof -
  have live: "pas c a \<noteq> None" using a by simp
  have conn: "connected_ok ((virts c)(v := map_option (\<lambda>x. x\<lparr>connected_through := Some a\<rparr>) (virts c v))) (pas c)"
    using core_invD(3) [OF inv] x(1) a by (intro connected_ok_change) (auto simp: attach_inv_def)
  have "lists_inv ?c" "all_names_inv ?c" "fresh_inv ?c"
    using core_invD(1,5,6) [OF inv] unfolding lists_inv_def all_names_inv_def fresh_inv_def upd_virt_def upd_pa_def by simp_all
  moreover have "owners_inv ?c"
    using core_invD(2) [OF inv] owns_link [of "pas c" connected_virt_list "virts c" connected_through, OF _ x live]
    unfolding owners_inv_def upd_virt_def upd_pa_def by (simp add: owns_upd_simps del: fun_upd_apply)
  moreover have "attach_inv ?c"
    using core_invD(3) [OF inv] conn
    unfolding attach_inv_def by (simp add: pa_unique_upd connected_ok_upd_pa upd_virt_def upd_pa_def del: fun_upd_apply)
  moreover have "vr_inv ?c"
    using core_invD(4) [OF inv] unfolding vr_inv_def upd_virt_def upd_pa_def by (auto simp: vr_tab_upd)
  moreover have "views_inv ?c"
    using core_invD(7) [OF inv] unfolding views_inv_def upd_virt_def upd_pa_def by (auto simp: owns_upd_simps)
  ultimately show ?thesis unfolding core_inv_def by simp
qed

lemma vr_tab_free:
  assumes "h v = Some x" and "\<And>d. ht_rules d x = []"
  shows "vr_tab (h(v := None)) = vr_tab h"
  using assms by (auto simp: vr_tab_def find_vr_prio_def intro!: ext)

lemma core_inv_free_virt:
  assumes inv: "core_inv c" and x: "virts c v = Some x" "connected_through x = None" "virt_view_list x = []"
    "ht_in_rules x = []" "ht_out_rules x = []"
  shows "core_inv ((upd_net (network x) (\<lambda>n. n\<lparr>virt_list := remove1 v (virt_list n), virt_names := lsdn_name_free v (virt_names n)\<rparr>) c)
    \<lparr>virts := (virts c)(v := None)\<rparr>)" (is "core_inv ?c")
proof -
  have tab: "vr_tab ((virts c)(v := None)) = vr_tab (virts c)" using x by (intro vr_tab_free) (auto simp: ht_rules_def)
  have "lists_inv ?c" "fresh_inv ?c" "vr_inv ?c"
    using core_invD(1,4,6) [OF inv] unfolding lists_inv_def fresh_inv_def vr_inv_def upd_net_def by (auto simp: lists_all_upd tab)
  moreover have "owners_inv ?c"
    using core_invD(2) [OF inv] x unfolding owners_inv_def upd_net_def
    by (simp add: owns_upd_simps owns_free_child [of "nets c" _ "virts c", where y = x] owns_free_orphan [of "pas c" _ "virts c", where y = x])
  moreover have "attach_inv ?c" using core_invD(3) [OF inv] unfolding attach_inv_def upd_net_def by (simp add: connected_ok_free)
  moreover have "views_inv ?c"
    using core_invD(7) [OF inv] x unfolding views_inv_def upd_net_def by (simp add: owns_free_owner)
  moreover have "all_names_inv ?c"
    using core_invD(2,5) [OF inv] unfolding all_names_inv_def owners_inv_def upd_net_def
    by (auto simp: names_inv_free owns_distinct)
  ultimately show ?thesis unfolding core_inv_def by simp
qed

section \<open>Freeing attachments\<close>

lemma pa_do_free_evolves: "pa_do_free a c = Some c' \<Longrightarrow> evolves c c'"
  unfolding pa_do_free_def
  by (auto simp: bind_eq_Some_conv evolves_def upd_defs le_heap_free intro!: le_heap_upd) (simp_all add: phase_defs)

text \<open>What freeing one attachment leaves alone.\<close>

definition pa_frame :: "ptr \<Rightarrow> lsdn_context \<Rightarrow> lsdn_context \<Rightarrow> bool" where
  "pa_frame a c c' \<longleftrightarrow> evolves c c' \<and> virts c' = virts c \<and> settingss c' = settingss c \<and> vrs c' = vrs c \<and>
     dom (nets c') = dom (nets c) \<and> dom (physes c') = dom (physes c) \<and> (\<forall>b. b \<noteq> a \<longrightarrow> pas c' b = pas c b)"

lemma pa_frame_trans: "pa_frame a c c' \<Longrightarrow> pa_frame a c' c'' \<Longrightarrow> pa_frame a c c''"
  unfolding pa_frame_def using evolves_trans by auto

lemma free_pa_if_possible_total:
  assumes inv: "core_inv c" and a: "pas c a = Some x"
    and clean: "pa_state x = LSDN_STATE_NEW \<Longrightarrow> remote_pa_list x = [] \<and> pa_view_list x = []"
  obtains c' where "free_pa_if_possible a c = Some c'" "core_inv c'" "pa_frame a c c'"
    "pa_state x = LSDN_STATE_NEW \<Longrightarrow> connected_virt_list x = [] \<Longrightarrow> \<not> explicitly_attached x \<Longrightarrow> pas c' a = None"
    "connected_virt_list x = [] \<Longrightarrow> \<not> explicitly_attached x \<Longrightarrow> pas c' a = None \<or> (\<exists>y. pas c' a = Some y \<and> pa_state y = LSDN_STATE_DELETE)"
proof (cases "connected_virt_list x = [] \<and> \<not> explicitly_attached x")
  case False
  then have "free_pa_if_possible a c = Some c" using a by (auto simp: free_pa_if_possible_def)
  then show thesis by (rule that) (use inv False in \<open>auto simp: pa_frame_def\<close>)
next
  case True
  show thesis
  proof (cases "pa_state x = LSDN_STATE_NEW")
    case new: True
    let ?c = "(upd_phys (pa_phys x) (\<lambda>p. p\<lparr>attached_to_list := remove1 a (attached_to_list p)\<rparr>)
       (upd_net (pa_net x) (\<lambda>n. n\<lparr>attached_list := remove1 a (attached_list n)\<rparr>) c))\<lparr>pas := (pas c)(a := None)\<rparr>"
    have free: "pa_do_free a c = Some ?c" using a True by (simp add: pa_do_free_def c_assert_def Let_def upd_defs)
    moreover have "free_pa_if_possible a c = pa_do_free a c" using new True a by (simp add: free_pa_if_possible_def free_helper_def)
    ultimately show thesis
      using pa_do_free_inv [OF inv free a] clean [OF new] pa_do_free_evolves [OF free]
      by (intro that [of ?c]) (simp_all add: pa_frame_def, simp_all add: upd_phys_def upd_net_def)
  next
    case old: False
    have "core_inv (upd_pa a (\<lambda>x. x\<lparr>pa_pending_free := True, pa_state := LSDN_STATE_DELETE\<rparr>) c)"
      by (rule core_inv_upd_pa [OF inv]) (simp add: pa_links_def)
    moreover have "evolves c (upd_pa a (\<lambda>x. x\<lparr>pa_pending_free := True, pa_state := LSDN_STATE_DELETE\<rparr>) c)"
      by (rule evolves_upd) (use old a in \<open>simp add: pa_phase_def\<close>)
    ultimately show thesis using a True old
      by (intro that [of "upd_pa a (\<lambda>x. x\<lparr>pa_pending_free := True, pa_state := LSDN_STATE_DELETE\<rparr>) c"])
        (auto simp: free_pa_if_possible_def free_helper_def pa_frame_def, simp_all add: upd_pa_def)
  qed
qed

lemma phys_detach_by_pa_total:
  assumes inv: "core_inv c" "phase_inv c" and a: "pas c a = Some x"
  obtains c' where "phys_detach_by_pa a c = Some c'" "core_inv c'" "pa_frame a c c'"
    "pa_state x = LSDN_STATE_NEW \<Longrightarrow> connected_virt_list x = [] \<Longrightarrow> pas c' a = None"
    "connected_virt_list x = [] \<Longrightarrow> pas c' a = None \<or> (\<exists>y. pas c' a = Some y \<and> pa_state y = LSDN_STATE_DELETE)"
proof -
  let ?c = "upd_pa a (\<lambda>x. x\<lparr>explicitly_attached := False\<rparr>) c"
  have core: "core_inv ?c" by (rule core_inv_upd_pa [OF inv(1)]) (simp add: pa_links_def)
  have "evolves c ?c" by (rule evolves_upd) (simp add: pa_phase_def)
  then have frame: "pa_frame a c ?c" by (simp add: pa_frame_def) (simp add: upd_pa_def)
  have x: "pas ?c a = Some (x\<lparr>explicitly_attached := False\<rparr>)" using a by (simp add: upd_pa_def)
  have clean: "pa_state x = LSDN_STATE_NEW \<Longrightarrow> remote_pa_list x = [] \<and> pa_view_list x = []"
    using inv(2) a by (simp add: phase_inv_def clean_inv_def)
  obtain c' where c': "free_pa_if_possible a ?c = Some c'" "core_inv c'" "pa_frame a ?c c'"
    "pa_state x = LSDN_STATE_NEW \<Longrightarrow> connected_virt_list x = [] \<Longrightarrow> pas c' a = None"
    "connected_virt_list x = [] \<Longrightarrow> pas c' a = None \<or> (\<exists>y. pas c' a = Some y \<and> pa_state y = LSDN_STATE_DELETE)"
    by (rule free_pa_if_possible_total [OF core x]) (simp_all add: clean)
  show thesis
    using that [of c'] c' pa_frame_trans [OF frame c'(3)] by (simp add: phys_detach_by_pa_def)
qed

section \<open>Freeing the rules of a virt\<close>

lemma core_inv_upd_vr:
  assumes inv: "core_inv c" and keep: "\<And>y. vrs c r = Some y \<Longrightarrow> vr_home (f y) = vr_home y"
  shows "core_inv (upd_vr r f c)"
proof -
  have "vr_inv (upd_vr r f c)"
    using core_invD(4) [OF inv] keep unfolding vr_inv_def upd_vr_def by (simp add: owns_upd_child)
  then show ?thesis
    using core_invD [OF inv]
    unfolding core_inv_def lists_inv_def owners_inv_def attach_inv_def all_names_inv_def fresh_inv_def views_inv_def upd_vr_def
    by simp
qed

lemma vr_frame_upd_vr:
  assumes "\<And>y. vrs c r = Some y \<Longrightarrow> vr_phase y (f y)"
  shows "vr_frame v c (upd_vr r f c)"
proof -
  obtain hi ho vs rn where "c = (upd_virt v (\<lambda>x. x\<lparr>ht_in_rules := hi, ht_out_rules := ho\<rparr>) c)\<lparr>vrs := vs, run := rn\<rparr>"
    using vr_frame_refl [of v c] by (auto simp: vr_frame_def)
  then have eq: "upd_vr r f c = (upd_virt v (\<lambda>x. x\<lparr>ht_in_rules := hi, ht_out_rules := ho\<rparr>) c)
      \<lparr>vrs := (vrs c)(r := map_option f (vrs c r)), run := run c\<rparr>"
    by (cases c) (simp add: upd_vr_def upd_virt_def)
  show ?thesis unfolding vr_frame_def by (intro exI conjI, rule eq) (use assms in \<open>simp_all add: le_heap_upd\<close>)
qed

lemma lsdn_vr_free_total:
  assumes inv: "core_inv c" and r: "vrs c r = Some y" "vr_home y = (v, d, n)"
  obtains c' where "lsdn_vr_free r c = Some c'" "core_inv c'" "vr_frame v c c'" "\<And>q. q \<noteq> r \<Longrightarrow> vrs c' q = vrs c q"
proof (cases "vr_state y = LSDN_STATE_NEW")
  case True
  obtain c' where c': "do_free_vr r c = Some c'" "core_inv c'" "vr_frame v c c'" "vrs c' = (vrs c)(r := None)"
    using do_free_vr_frame [OF inv r] by blast
  then show thesis using True r by (intro that [of c']) (auto simp: lsdn_vr_free_def free_helper_def)
next
  case False
  let ?c = "upd_vr r (\<lambda>r. r\<lparr>vr_pending_free := True, vr_state := LSDN_STATE_DELETE\<rparr>) c"
  have "core_inv ?c" by (rule core_inv_upd_vr [OF inv]) simp
  moreover have "vr_frame v c ?c" by (rule vr_frame_upd_vr) (simp add: vr_phase_def)
  ultimately show thesis using False r by (intro that [of ?c]) (auto simp: lsdn_vr_free_def free_helper_def upd_vr_def)
qed

lemma vr_free_list_total:
  assumes inv: "core_inv c" and d: "distinct rs" and alive: "\<And>r. r \<in> set rs \<Longrightarrow> \<exists>y d n. vrs c r = Some y \<and> vr_home y = (v, d, n)"
  obtains c' where "foldM lsdn_vr_free rs c = Some c'" "core_inv c'" "vr_frame v c c'" "\<And>q. q \<notin> set rs \<Longrightarrow> vrs c' q = vrs c q"
proof -
  let ?I = "\<lambda>pre s. core_inv s \<and> vr_frame v c s \<and> (\<forall>q. q \<notin> set pre \<longrightarrow> vrs s q = vrs c q)"
  have "\<exists>s. foldM lsdn_vr_free rs c = Some s \<and> ?I rs s"
  proof (rule foldM_total_prefix [where I = ?I])
    show "?I [] c" using inv by (simp add: vr_frame_refl)
  next
    fix pre r rest s
    assume split: "rs = pre @ r # rest" and I: "?I pre s"
    then have "vrs s r = vrs c r" using d by auto
    then obtain y d n where y: "vrs s r = Some y" "vr_home y = (v, d, n)" using alive [of r] split by auto
    obtain s' where s': "lsdn_vr_free r s = Some s'" "core_inv s'" "vr_frame v s s'" "\<And>q. q \<noteq> r \<Longrightarrow> vrs s' q = vrs s q"
      using lsdn_vr_free_total [OF _ y] I by blast
    then show "\<exists>s'. lsdn_vr_free r s = Some s' \<and> ?I (pre @ [r]) s'"
      using I vr_frame_trans [of v c s s'] by auto
  qed
  then show thesis using that by blast
qed

lemma vr_free_prios_total:
  assumes inv: "core_inv c" and x: "virts c v = Some x"
  obtains c' where "foldM (\<lambda>prio. foldM lsdn_vr_free (rules_list prio)) (ht_rules d x) c = Some c'" "core_inv c'" "vr_frame v c c'"
proof -
  let ?ps = "ht_rules d x"
  let ?I = "\<lambda>pre s. core_inv s \<and> vr_frame v c s \<and>
    (\<forall>q y. vrs c q = Some y \<longrightarrow> vr_home y \<notin> (\<lambda>p. (v, d, vr_prio_num p)) ` set pre \<longrightarrow> vrs s q = vrs c q)"
  note vr = core_invD(4) [OF inv]
  have dist: "distinct (map vr_prio_num ?ps)" using vr x by (simp add: vr_inv_def)
  have "\<exists>s. foldM (\<lambda>prio. foldM lsdn_vr_free (rules_list prio)) ?ps c = Some s \<and> ?I ?ps s"
  proof (rule foldM_total_prefix [where I = ?I])
    show "?I [] c" using inv by (simp add: vr_frame_refl)
  next
    fix pre p rest s
    assume split: "?ps = pre @ p # rest" and I: "?I pre s"
    have p: "p \<in> set ?ps" "vr_prio_num p \<notin> vr_prio_num ` set pre" using split dist by auto
    note listed = vr_listed [OF vr x p(1)]
    have home: "\<exists>y. vrs c q = Some y \<and> vrs s q = Some y \<and> vr_home y = (v, d, vr_prio_num p)" if q: "q \<in> set (rules_list p)" for q
    proof -
      obtain y where y: "vrs c q = Some y" "vr_home y = (v, d, vr_prio_num p)" using listed(2) [OF q] by blast
      have "vrs s q = vrs c q" using I y p(2) by (auto simp: image_iff)
      then show ?thesis using y by simp
    qed
    have alive: "\<exists>y d n. vrs s q = Some y \<and> vr_home y = (v, d, n)" if "q \<in> set (rules_list p)" for q using home [OF that] by blast
    have core: "core_inv s" using I by blast
    obtain s' where s': "foldM lsdn_vr_free (rules_list p) s = Some s'" "core_inv s'" "vr_frame v s s'"
      "\<And>q. q \<notin> set (rules_list p) \<Longrightarrow> vrs s' q = vrs s q"
      using vr_free_list_total [OF core listed(1) alive] by blast
    have "vrs s' q = vrs c q" if "vrs c q = Some y" "vr_home y \<notin> (\<lambda>p. (v, d, vr_prio_num p)) ` set (pre @ [p])" for q y
    proof -
      have "q \<notin> set (rules_list p)" using home [of q] that by auto
      then show ?thesis using that I s'(4) by auto
    qed
    then show "\<exists>s'. foldM lsdn_vr_free (rules_list p) s = Some s' \<and> ?I (pre @ [p]) s'"
      using I s' vr_frame_trans [of v c s s'] by blast
  qed
  then show thesis using that by blast
qed

lemma lsdn_vrs_free_all_total:
  assumes inv: "core_inv c" and x: "virts c v = Some x"
  obtains c' where "lsdn_vrs_free_all v c = Some c'" "core_inv c'" "vr_frame v c c'"
proof -
  obtain c1 where 1: "foldM (\<lambda>prio. foldM lsdn_vr_free (rules_list prio)) (ht_rules LSDN_IN x) c = Some c1" "core_inv c1" "vr_frame v c c1"
    by (rule vr_free_prios_total [OF inv x, where d = LSDN_IN])
  obtain y where y: "virts c1 v = Some y" using vr_frame_live [OF 1(3) x] by blast
  obtain c2 where 2: "foldM (\<lambda>prio. foldM lsdn_vr_free (rules_list prio)) (ht_rules LSDN_OUT y) c1 = Some c2" "core_inv c2" "vr_frame v c1 c2"
    by (rule vr_free_prios_total [OF 1(2) y, where d = LSDN_OUT])
  show thesis using 1 2 x y vr_frame_trans [OF 1(3) 2(3)] by (intro that [of c2]) (auto simp: lsdn_vrs_free_all_def ht_rules_def)
qed

section \<open>Freeing virts\<close>

lemma free_pa_if_possible_upd_virt:
  "free_pa_if_possible a (upd_virt v f c) = map_option (upd_virt v f) (free_pa_if_possible a c)"
  by (cases "pas c a") (auto simp: free_pa_if_possible_def pa_do_free_def c_assert_def upd_defs Let_def free_helper_def)

text \<open>What freeing one virt leaves alone.\<close>

definition virt_frame :: "ptr \<Rightarrow> lsdn_context \<Rightarrow> lsdn_context \<Rightarrow> bool" where
  "virt_frame v c c' \<longleftrightarrow> evolves c c' \<and> settingss c' = settingss c \<and> dom (nets c') = dom (nets c) \<and>
     dom (physes c') = dom (physes c) \<and> (\<forall>w. w \<noteq> v \<longrightarrow> virts c' w = virts c w)"

lemma virt_frame_trans: "virt_frame v c c' \<Longrightarrow> virt_frame v c' c'' \<Longrightarrow> virt_frame v c c''"
  unfolding virt_frame_def using evolves_trans by auto

lemma vr_frame_virt_frame:
  assumes "vr_frame v c c'"
  shows "virt_frame v c c'"
  using vr_frame_evolves [OF assms] vr_frame_others [OF assms] by (simp add: virt_frame_def vr_frame_fields [OF assms])

lemma virt_unlink_total:
  assumes inv: "core_inv c" and x: "virts c v = Some x"
    and clean: "\<And>a y. connected_through x = Some a \<Longrightarrow> pas c a = Some y \<Longrightarrow> pa_state y = LSDN_STATE_NEW \<Longrightarrow>
      remote_pa_list y = [] \<and> pa_view_list y = []"
  obtains c' where
    "(case connected_through x of
          None \<Rightarrow> Some c
        | Some a \<Rightarrow> do {
            let c = upd_pa a (\<lambda>y. y\<lparr>connected_virt_list := remove1 v (connected_virt_list y)\<rparr>) c;
            c \<leftarrow> free_pa_if_possible a c;
            Some (upd_virt v (\<lambda>x. x\<lparr>connected_through := None\<rparr>) c)
          }) = Some c'"
    "core_inv c'" "virt_frame v c c'" "virts c' v = Some (x\<lparr>connected_through := None\<rparr>)"
proof (cases "connected_through x")
  case None
  then show thesis using that [of c] inv x by (simp add: virt_frame_def)
next
  case (Some a)
  obtain y where y: "pas c a = Some y" using core_invD(2) [OF inv] x Some by (auto simp: owners_inv_def elim: owns_owner)
  let ?rm = "\<lambda>y. y\<lparr>connected_virt_list := remove1 v (connected_virt_list y)\<rparr>"
  let ?un = "\<lambda>x. x\<lparr>connected_through := None\<rparr>"
  let ?c = "upd_virt v ?un (upd_pa a ?rm c)"
  have "evolves (upd_pa a ?rm c) ?c" "evolves c (upd_pa a ?rm c)"
    by (rule evolves_upd, simp add: phase_defs)+
  then have ev: "evolves c ?c" by (blast intro: evolves_trans)
  have core: "core_inv ?c" by (rule core_inv_unlink_virt [OF inv x Some])
  have pa: "pas ?c a = Some (?rm y)" using y by (simp add: upd_virt_def upd_pa_def)
  obtain c' where c': "free_pa_if_possible a ?c = Some c'" "core_inv c'" "pa_frame a ?c c'"
    by (rule free_pa_if_possible_total [OF core pa]) (use clean [OF Some y] in simp_all)
  from c'(1) obtain c0 where c0: "free_pa_if_possible a (upd_pa a ?rm c) = Some c0" "c' = upd_virt v ?un c0"
    by (auto simp: free_pa_if_possible_upd_virt)
  have "virt_frame v c c'"
    using c'(3) evolves_trans [OF ev] by (simp add: virt_frame_def pa_frame_def) (simp add: upd_virt_def upd_pa_def)
  then show thesis
    using that [of c'] c'(2,3) c0 Some x by (simp add: Let_def pa_frame_def) (simp add: upd_virt_def upd_pa_def)
qed

lemma virt_do_free_total:
  assumes inv: "core_inv c" and x: "virts c v = Some x" "virt_view_list x = []"
    and clean: "\<And>a y. connected_through x = Some a \<Longrightarrow> pas c a = Some y \<Longrightarrow> pa_state y = LSDN_STATE_NEW \<Longrightarrow>
      remote_pa_list y = [] \<and> pa_view_list y = []"
  obtains c' where "virt_do_free v c = Some c'" "core_inv c'" "virt_frame v c c'" "virts c' v = None"
proof -
  obtain c1 y where 1: "lsdn_vr_do_free_all_rules v c = Some c1" "core_inv c1" "vr_frame v c c1" "virts c1 v = Some y"
    "ht_in_rules y = []" "ht_out_rules y = []" by (rule lsdn_vr_do_free_all_rules_total [OF inv x(1)])
  have y: "connected_through y = connected_through x" "virt_view_list y = []"
    using vr_frame_live [OF 1(3) x(1)] 1(4) x(2) by auto
  have cl: "remote_pa_list z = [] \<and> pa_view_list z = []"
    if "connected_through y = Some a" "pas c1 a = Some z" "pa_state z = LSDN_STATE_NEW" for a z
    using that y clean vr_frame_fields(2) [OF 1(3)] by simp
  let ?rel = "case connected_through y of
          None \<Rightarrow> Some c1
        | Some a \<Rightarrow> do {
            let c = upd_pa a (\<lambda>y. y\<lparr>connected_virt_list := remove1 v (connected_virt_list y)\<rparr>) c1;
            c \<leftarrow> free_pa_if_possible a c;
            Some (upd_virt v (\<lambda>x. x\<lparr>connected_through := None\<rparr>) c)
          }"
  obtain c2 where 2: "?rel = Some c2" "core_inv c2" "virt_frame v c1 c2" "virts c2 v = Some (y\<lparr>connected_through := None\<rparr>)"
    by (rule virt_unlink_total [OF 1(2,4) cl])
  let ?c3 = "(upd_net (network y) (\<lambda>n. n\<lparr>virt_list := remove1 v (virt_list n), virt_names := lsdn_name_free v (virt_names n)\<rparr>) c2)
    \<lparr>virts := (virts c2)(v := None)\<rparr>"
  let ?st = "c_rules (run c2)"
  let ?c4 = "set_rules (?st\<lparr>r_rules := (r_rules ?st)(R_policing_in v := None, R_policing_out v := None)\<rparr>) ?c3"
  have eq: "virt_do_free v c = Some ?c4"
    using 1(1,4) 2(1) by (simp add: virt_do_free_def Let_def upd_net_def)
  have "core_inv ?c3" using core_inv_free_virt [OF 2(2,4)] 1(5,6) y by simp
  moreover have "virt_frame v c2 ?c3"
    unfolding virt_frame_def evolves_def by (auto simp: upd_net_def le_heap_free intro!: le_heap_upd) (simp add: phase_defs)
  ultimately have "core_inv ?c4" "virt_frame v c2 ?c4" by (simp_all add: virt_frame_def) (simp_all add: set_rules_def)
  then show thesis
    using that [OF eq] virt_frame_trans [OF virt_frame_trans [OF vr_frame_virt_frame [OF 1(3)] 2(3)]] by (simp add: set_rules_def)
qed

lemma model_invD: "model_inv c \<Longrightarrow> core_inv c" "model_inv c \<Longrightarrow> phase_inv c"
  by (simp_all add: model_inv_def)

lemma model_inv_evolves: "model_inv c \<Longrightarrow> core_inv c' \<Longrightarrow> evolves c c' \<Longrightarrow> model_inv c'"
  by (auto simp: model_inv_def dest: evolves_phase_inv)

lemma lsdn_virt_free_total:
  assumes inv: "model_inv c" and x: "virts c v = Some x"
  shows "\<exists>c'. lsdn_virt_free v c = Some c' \<and> model_inv c' \<and> virt_frame v c c' \<and> (vi_state x = LSDN_STATE_NEW \<longrightarrow> virts c' v = None)"
proof -
  note core = model_invD(1) [OF inv] and phase = model_invD(2) [OF inv]
  obtain c1 where 1: "lsdn_vrs_free_all v c = Some c1" "core_inv c1" "vr_frame v c c1"
    by (rule lsdn_vrs_free_all_total [OF core x])
  obtain y where y: "virts c1 v = Some y" "vi_state y = vi_state x" "virt_view_list y = virt_view_list x"
    using vr_frame_live [OF 1(3) x] by blast
  note m1 = model_inv_evolves [OF inv 1(2) vr_frame_evolves [OF 1(3)]]
  show ?thesis
  proof (cases "vi_state x = LSDN_STATE_NEW")
    case True
    have "virt_view_list y = []" using phase x y(3) True by (simp add: phase_inv_def clean_inv_def)
    moreover have "remote_pa_list z = [] \<and> pa_view_list z = []" if "pas c1 a = Some z" "pa_state z = LSDN_STATE_NEW" for a z
      using model_invD(2) [OF m1] that by (simp add: phase_inv_def clean_inv_def)
    ultimately obtain c2 where 2: "virt_do_free v c1 = Some c2" "core_inv c2" "virt_frame v c1 c2" "virts c2 v = None"
      using virt_do_free_total [OF 1(2) y(1)] by blast
    have "virt_frame v c c2" by (rule virt_frame_trans [OF vr_frame_virt_frame [OF 1(3)] 2(3)])
    then show ?thesis
      using 1(1) y 2 True model_inv_evolves [OF inv 2(2)] by (simp add: lsdn_virt_free_def free_helper_def virt_frame_def)
  next
    case False
    let ?c = "upd_virt v (\<lambda>x. x\<lparr>vi_pending_free := True, vi_state := LSDN_STATE_DELETE\<rparr>) c1"
    have "core_inv ?c" by (rule core_inv_upd_virt [OF 1(2)]) (simp add: virt_links_def)
    moreover have ev: "evolves c1 ?c" by (rule evolves_upd) (use y False in \<open>simp add: virt_phase_def\<close>)
    moreover have "virt_frame v c1 ?c" using ev by (simp add: virt_frame_def) (simp add: upd_virt_def)
    ultimately show ?thesis
      using 1(1) y False model_inv_evolves [OF m1] virt_frame_trans [OF vr_frame_virt_frame [OF 1(3)]]
      by (simp add: lsdn_virt_free_def free_helper_def)
  qed
qed

section \<open>Freeing networks and settings\<close>

lemma evolves_new_iff:
  assumes "evolves c c'"
  shows "virts c' p = Some x' \<Longrightarrow> \<exists>x. virts c p = Some x \<and> network x' = network x \<and> (vi_state x' = LSDN_STATE_NEW \<longleftrightarrow> vi_state x = LSDN_STATE_NEW)"
    and "pas c' p = Some y' \<Longrightarrow> \<exists>y. pas c p = Some y \<and> pa_net y' = pa_net y \<and> pa_phys y' = pa_phys y \<and> (pa_state y' = LSDN_STATE_NEW \<longleftrightarrow> pa_state y = LSDN_STATE_NEW)"
    and "nets c' p = Some n' \<Longrightarrow> \<exists>n. nets c p = Some n \<and> ne_settings n' = ne_settings n \<and> (ne_state n' = LSDN_STATE_NEW \<longleftrightarrow> ne_state n = LSDN_STATE_NEW)"
    and "physes c' p = Some h' \<Longrightarrow> \<exists>h. physes c p = Some h \<and> (ph_state h' = LSDN_STATE_NEW \<longleftrightarrow> ph_state h = LSDN_STATE_NEW)"
    and "settingss c' p = Some s' \<Longrightarrow> \<exists>s. settingss c p = Some s \<and> (se_state s' = LSDN_STATE_NEW \<longleftrightarrow> se_state s = LSDN_STATE_NEW)"
  using assms by (auto simp: evolves_def phase_defs dest: le_heapD)

lemma free_virts_total:
  assumes inv: "model_inv c" and vs: "distinct vs" "set vs \<subseteq> dom (virts c)"
  shows "\<exists>c'. foldM lsdn_virt_free vs c = Some c' \<and> model_inv c' \<and> evolves c c' \<and> settingss c' = settingss c \<and>
    dom (nets c') = dom (nets c) \<and> dom (physes c') = dom (physes c) \<and>
    (\<forall>v x. v \<in> set vs \<longrightarrow> virts c v = Some x \<longrightarrow> vi_state x = LSDN_STATE_NEW \<longrightarrow> virts c' v = None)"
proof -
  let ?I = "\<lambda>pre s. model_inv s \<and> evolves c s \<and> settingss s = settingss c \<and> dom (nets s) = dom (nets c) \<and> dom (physes s) = dom (physes c) \<and>
    (\<forall>v x. v \<in> set pre \<longrightarrow> virts c v = Some x \<longrightarrow> vi_state x = LSDN_STATE_NEW \<longrightarrow> virts s v = None) \<and>
    (\<forall>v. v \<notin> set pre \<longrightarrow> virts s v = virts c v)"
  have "\<exists>s. foldM lsdn_virt_free vs c = Some s \<and> ?I vs s"
  proof (rule foldM_total_prefix [where I = ?I])
    show "?I [] c" using inv by simp
  next
    fix pre v rest s
    assume split: "vs = pre @ v # rest" and I: "?I pre s"
    then have "virts s v = virts c v" using vs(1) by simp
    then obtain x where x: "virts c v = Some x" "virts s v = Some x" using vs(2) split by auto
    have m: "model_inv s" using I by blast
    obtain s' where s': "lsdn_virt_free v s = Some s'" "model_inv s'" "virt_frame v s s'" "vi_state x = LSDN_STATE_NEW \<longrightarrow> virts s' v = None"
      using lsdn_virt_free_total [OF m x(2)] by blast
    have "\<forall>w\<in>set pre. w \<noteq> v" using vs(1) split by auto
    then have "?I (pre @ [v]) s'" using I s'(2-4) x(1) unfolding virt_frame_def by (auto intro: evolves_trans)
    then show "\<exists>s'. lsdn_virt_free v s = Some s' \<and> ?I (pre @ [v]) s'" using s'(1) by blast
  qed
  then show ?thesis by blast
qed

lemma detach_pas_total:
  assumes inv: "model_inv c" and as: "distinct as" "set as \<subseteq> dom (pas c)"
  shows "\<exists>c'. foldM phys_detach_by_pa as c = Some c' \<and> model_inv c' \<and> evolves c c' \<and> settingss c' = settingss c \<and>
    dom (nets c') = dom (nets c) \<and> dom (physes c') = dom (physes c) \<and> virts c' = virts c \<and>
    (\<forall>a x. a \<in> set as \<longrightarrow> pas c a = Some x \<longrightarrow> pa_state x = LSDN_STATE_NEW \<longrightarrow> connected_virt_list x = [] \<longrightarrow> pas c' a = None)"
proof -
  let ?I = "\<lambda>pre s. model_inv s \<and> evolves c s \<and> settingss s = settingss c \<and> dom (nets s) = dom (nets c) \<and> dom (physes s) = dom (physes c) \<and>
    virts s = virts c \<and>
    (\<forall>a x. a \<in> set pre \<longrightarrow> pas c a = Some x \<longrightarrow> pa_state x = LSDN_STATE_NEW \<longrightarrow> connected_virt_list x = [] \<longrightarrow> pas s a = None) \<and>
    (\<forall>a. a \<notin> set pre \<longrightarrow> pas s a = pas c a)"
  have "\<exists>s. foldM phys_detach_by_pa as c = Some s \<and> ?I as s"
  proof (rule foldM_total_prefix [where I = ?I])
    show "?I [] c" using inv by simp
  next
    fix pre a rest s
    assume split: "as = pre @ a # rest" and I: "?I pre s"
    then have "pas s a = pas c a" using as(1) by simp
    then obtain x where x: "pas c a = Some x" "pas s a = Some x" using as(2) split by auto
    have m: "core_inv s" "phase_inv s" using I by (auto dest: model_invD)
    obtain s' where s': "phys_detach_by_pa a s = Some s'" "core_inv s'" "pa_frame a s s'"
      "pa_state x = LSDN_STATE_NEW \<Longrightarrow> connected_virt_list x = [] \<Longrightarrow> pas s' a = None"
      by (rule phys_detach_by_pa_total [OF m x(2)]) blast
    have "model_inv s'" using I s'(2,3) model_inv_evolves unfolding pa_frame_def by blast
    moreover have "\<forall>b\<in>set pre. b \<noteq> a" using as(1) split by auto
    ultimately have "?I (pre @ [a]) s'" using I s'(3,4) x(1) unfolding pa_frame_def by (auto intro: evolves_trans)
    then show "\<exists>s'. phys_detach_by_pa a s = Some s' \<and> ?I (pre @ [a]) s'" using s'(1) by blast
  qed
  then show ?thesis by blast
qed

lemma net_do_free_total:
  assumes inv: "core_inv c" and n: "nets c n = Some x" "attached_list x = []" "virt_list x = []"
  shows "\<exists>c'. net_do_free n c = Some c' \<and> core_inv c' \<and> evolves c c' \<and> dom (settingss c') = dom (settingss c) \<and>
    physes c' = physes c \<and> nets c' = (nets c)(n := None)"
proof -
  let ?c = "(upd_settings (ne_settings x) (\<lambda>s. s\<lparr>setting_users_list := remove1 n (setting_users_list s)\<rparr>)
       (c\<lparr>networks_list := remove1 n (networks_list c)\<rparr>))\<lparr>net_names := lsdn_name_free n (net_names c), nets := (nets c)(n := None)\<rparr>"
  have free: "net_do_free n c = Some ?c" using n by (simp add: net_do_free_def Let_def upd_settings_def)
  have "evolves c ?c"
    unfolding evolves_def by (auto simp: upd_settings_def le_heap_free intro!: le_heap_upd) (simp add: phase_defs)
  then show ?thesis using net_do_free_inv [OF inv free] free by (simp add: upd_settings_def)
qed

lemma net_virts_free:
  assumes inv: "model_inv c" and n: "nets c n = Some x"
  shows "\<exists>c'. foldM lsdn_virt_free (virt_list x) c = Some c' \<and> model_inv c' \<and> evolves c c' \<and> settingss c' = settingss c \<and>
    dom (nets c') = dom (nets c) \<and> dom (physes c') = dom (physes c) \<and>
    (ne_state x = LSDN_STATE_NEW \<longrightarrow> (\<forall>v y. virts c' v = Some y \<longrightarrow> network y \<noteq> n))"
proof -
  have own: "owns (nets c) virt_list (virts c) (Some \<circ> network)" using model_invD(1) [OF inv] by (simp add: core_inv_def owners_inv_def)
  have vs: "distinct (virt_list x)" "set (virt_list x) \<subseteq> dom (virts c)"
    using owns_distinct [OF own n] owns_member [OF own n] by auto
  obtain c' where c': "foldM lsdn_virt_free (virt_list x) c = Some c'" "model_inv c'" "evolves c c'" "settingss c' = settingss c"
    "dom (nets c') = dom (nets c)" "dom (physes c') = dom (physes c)"
    "\<And>v y. v \<in> set (virt_list x) \<Longrightarrow> virts c v = Some y \<Longrightarrow> vi_state y = LSDN_STATE_NEW \<Longrightarrow> virts c' v = None"
    using free_virts_total [OF inv vs] by blast
  have "network y \<noteq> n" if new: "ne_state x = LSDN_STATE_NEW" and y: "virts c' v = Some y" for v y
  proof
    assume "network y = n"
    then obtain z where z: "virts c v = Some z" "network z = n" using evolves_new_iff(1) [OF c'(3) y] by auto
    then have "vi_state z = LSDN_STATE_NEW" using model_invD(2) [OF inv] n new by (auto simp: phase_inv_def new_inv_def)
    moreover have "v \<in> set (virt_list x)" using owns_member [OF own n] z by auto
    ultimately show False using c'(7) z(1) y by auto
  qed
  then show ?thesis using c'(1-6) by blast
qed

lemma net_pas_detach:
  assumes inv: "model_inv c" and n: "nets c n = Some x"
  shows "\<exists>c'. foldM phys_detach_by_pa (attached_list x) c = Some c' \<and> model_inv c' \<and> evolves c c' \<and> settingss c' = settingss c \<and>
    dom (nets c') = dom (nets c) \<and> dom (physes c') = dom (physes c) \<and> virts c' = virts c \<and>
    (ne_state x = LSDN_STATE_NEW \<longrightarrow> (\<forall>v y. virts c v = Some y \<longrightarrow> network y \<noteq> n) \<longrightarrow> (\<forall>a y. pas c' a = Some y \<longrightarrow> pa_net y \<noteq> n))"
proof -
  have own: "owns (nets c) attached_list (pas c) (Some \<circ> pa_net)" "owns (pas c) connected_virt_list (virts c) connected_through"
    using model_invD(1) [OF inv] by (simp_all add: core_inv_def owners_inv_def)
  have as: "distinct (attached_list x)" "set (attached_list x) \<subseteq> dom (pas c)"
    using owns_distinct [OF own(1) n] owns_member [OF own(1) n] by auto
  obtain c' where c': "foldM phys_detach_by_pa (attached_list x) c = Some c'" "model_inv c'" "evolves c c'" "settingss c' = settingss c"
    "dom (nets c') = dom (nets c)" "dom (physes c') = dom (physes c)" "virts c' = virts c"
    "\<And>a y. a \<in> set (attached_list x) \<Longrightarrow> pas c a = Some y \<Longrightarrow> pa_state y = LSDN_STATE_NEW \<Longrightarrow> connected_virt_list y = [] \<Longrightarrow> pas c' a = None"
    using detach_pas_total [OF inv as] by blast
  have "pa_net y \<noteq> n" if new: "ne_state x = LSDN_STATE_NEW" and gone: "\<And>v y. virts c v = Some y \<Longrightarrow> network y \<noteq> n"
    and y: "pas c' a = Some y" for a y
  proof
    assume "pa_net y = n"
    then obtain z where z: "pas c a = Some z" "pa_net z = n" using evolves_new_iff(2) [OF c'(3) y] by auto
    then have a: "a \<in> set (attached_list x)" using owns_member [OF own(1) n] by auto
    have "pa_state z = LSDN_STATE_NEW" using model_invD(2) [OF inv] n z new by (auto simp: phase_inv_def new_inv_def)
    moreover have "connected_virt_list z = []"
    proof (rule owns_none [OF own(2) z(1)])
      fix v w assume w: "virts c v = Some w"
      show "connected_through w \<noteq> Some a"
        using core_invD(3) [OF model_invD(1) [OF inv]] z w gone [OF w] by (auto simp: attach_inv_def dest: connected_okD)
    qed
    ultimately show False using c'(8) [OF a z(1)] y by simp
  qed
  then show ?thesis using c'(1-7) by blast
qed

lemma lsdn_net_free_total:
  assumes inv: "model_inv c" and n: "nets c n = Some x"
  shows "\<exists>c'. lsdn_net_free n c = Some c' \<and> model_inv c' \<and> evolves c c' \<and> dom (settingss c') = dom (settingss c) \<and>
    dom (physes c') = dom (physes c) \<and> dom (nets c') - {n} = dom (nets c) - {n} \<and> (ne_state x = LSDN_STATE_NEW \<longrightarrow> nets c' n = None)"
proof -
  obtain c1 where 1: "foldM lsdn_virt_free (virt_list x) c = Some c1" "model_inv c1" "evolves c c1" "settingss c1 = settingss c"
    "dom (nets c1) = dom (nets c)" "dom (physes c1) = dom (physes c)"
    "ne_state x = LSDN_STATE_NEW \<Longrightarrow> \<forall>v y. virts c1 v = Some y \<longrightarrow> network y \<noteq> n"
    using net_virts_free [OF inv n] by blast
  obtain x1 where x1: "nets c1 n = Some x1" using n 1(5) by (metis domD domI)
  obtain c2 where 2: "foldM phys_detach_by_pa (attached_list x1) c1 = Some c2" "model_inv c2" "evolves c1 c2" "settingss c2 = settingss c1"
    "dom (nets c2) = dom (nets c1)" "dom (physes c2) = dom (physes c1)" "virts c2 = virts c1"
    "ne_state x1 = LSDN_STATE_NEW \<Longrightarrow> \<forall>v y. virts c1 v = Some y \<longrightarrow> network y \<noteq> n \<Longrightarrow> \<forall>a y. pas c2 a = Some y \<longrightarrow> pa_net y \<noteq> n"
    using net_pas_detach [OF 1(2) x1] by blast
  obtain x2 where x2: "nets c2 n = Some x2" using x1 2(5) by (metis domD domI)
  note ev = evolves_trans [OF 1(3) 2(3)]
  have new: "ne_state x2 = LSDN_STATE_NEW \<longleftrightarrow> ne_state x = LSDN_STATE_NEW" "ne_state x1 = LSDN_STATE_NEW \<longleftrightarrow> ne_state x = LSDN_STATE_NEW"
    using evolves_new_iff(3) [OF ev x2] evolves_new_iff(3) [OF 1(3) x1] n by auto
  have eq: "lsdn_net_free n c = (case free_helper (ne_state x2) of Free_now \<Rightarrow> net_do_free n c2
      | Mark_deleted \<Rightarrow> Some (upd_net n (\<lambda>x. x\<lparr>ne_pending_free := True, ne_state := LSDN_STATE_DELETE\<rparr>) c2))"
    using n 1(1) x1 2(1) x2 by (simp add: lsdn_net_free_def)
  have own2: "owns (nets c2) attached_list (pas c2) (Some \<circ> pa_net)" "owns (nets c2) virt_list (virts c2) (Some \<circ> network)"
    using model_invD(1) [OF 2(2)] by (simp_all add: core_inv_def owners_inv_def)
  show ?thesis
  proof (cases "ne_state x = LSDN_STATE_NEW")
    case True
    have "attached_list x2 = []" by (rule owns_none [OF own2(1) x2]) (use 2(8) 1(7) True new in auto)
    moreover have "virt_list x2 = []" by (rule owns_none [OF own2(2) x2]) (use 1(7) 2(7) True in auto)
    ultimately obtain c3 where 3: "net_do_free n c2 = Some c3" "core_inv c3" "evolves c2 c3" "dom (settingss c3) = dom (settingss c2)"
      "physes c3 = physes c2" "nets c3 = (nets c2)(n := None)"
      using net_do_free_total [OF model_invD(1) [OF 2(2)] x2] by blast
    have "lsdn_net_free n c = Some c3" using eq 3(1) new True by (simp add: free_helper_def)
    then show ?thesis
      using model_inv_evolves [OF 2(2) 3(2,3)] evolves_trans [OF ev 3(3)] 3(4-6) 1(4-6) 2(4-6) by simp
  next
    case False
    let ?c3 = "upd_net n (\<lambda>x. x\<lparr>ne_pending_free := True, ne_state := LSDN_STATE_DELETE\<rparr>) c2"
    have "core_inv ?c3" by (rule core_inv_upd_net [OF model_invD(1) [OF 2(2)]]) (simp add: net_links_def)
    moreover have "evolves c2 ?c3" by (rule evolves_upd) (use x2 new False in \<open>simp add: net_phase_def\<close>)
    ultimately have "model_inv ?c3" "evolves c ?c3" using model_inv_evolves [OF 2(2)] evolves_trans [OF ev] by blast+
    then show ?thesis using eq new False 1(4-6) 2(4-6) by (simp add: free_helper_def) (simp add: upd_net_def)
  qed
qed

lemma free_nets_total:
  assumes inv: "model_inv c" and ns: "distinct ns" "set ns \<subseteq> dom (nets c)"
  shows "\<exists>c'. foldM lsdn_net_free ns c = Some c' \<and> model_inv c' \<and> evolves c c' \<and> dom (settingss c') = dom (settingss c) \<and>
    dom (physes c') = dom (physes c) \<and>
    (\<forall>n x. n \<in> set ns \<longrightarrow> nets c n = Some x \<longrightarrow> ne_state x = LSDN_STATE_NEW \<longrightarrow> nets c' n = None)"
proof -
  let ?I = "\<lambda>pre s. model_inv s \<and> evolves c s \<and> dom (settingss s) = dom (settingss c) \<and> dom (physes s) = dom (physes c) \<and>
    (\<forall>n x. n \<in> set pre \<longrightarrow> nets c n = Some x \<longrightarrow> ne_state x = LSDN_STATE_NEW \<longrightarrow> nets s n = None) \<and>
    dom (nets s) - set pre = dom (nets c) - set pre"
  have "\<exists>s. foldM lsdn_net_free ns c = Some s \<and> ?I ns s"
  proof (rule foldM_total_prefix [where I = ?I])
    show "?I [] c" using inv by simp
  next
    fix pre n rest s
    assume split: "ns = pre @ n # rest" and I: "?I pre s"
    have "n \<in> dom (nets c) - set pre" using ns split by auto
    then obtain x y where xy: "nets c n = Some x" "nets s n = Some y" using I by blast
    have ev: "evolves c s" and m: "model_inv s" using I by blast+
    have new: "ne_state x = LSDN_STATE_NEW \<Longrightarrow> ne_state y = LSDN_STATE_NEW" using evolves_new_iff(3) [OF ev xy(2)] xy(1) by auto
    obtain s' where s': "lsdn_net_free n s = Some s'" "model_inv s'" "evolves s s'" "dom (settingss s') = dom (settingss s)"
      "dom (physes s') = dom (physes s)" "dom (nets s') - {n} = dom (nets s) - {n}" "ne_state y = LSDN_STATE_NEW \<longrightarrow> nets s' n = None"
      using lsdn_net_free_total [OF m xy(2)] by (elim exE conjE) (rule that)
    have "nets s' m = None" if "m \<in> set (pre @ [n])" "nets c m = Some z" "ne_state z = LSDN_STATE_NEW" for m z
    proof (cases "m = n")
      case True
      then show ?thesis using that s'(7) new xy by simp
    next
      case False
      then have "nets s m = None" using I that by auto
      then show ?thesis using evolves_new_iff(3) [OF s'(3), of m] by (cases "nets s' m") auto
    qed
    moreover have "dom (nets s') - set (pre @ [n]) = dom (nets c) - set (pre @ [n])"
    proof -
      have "dom (nets s') - set (pre @ [n]) = (dom (nets s') - {n}) - set pre" by auto
      also have "\<dots> = (dom (nets s) - set pre) - {n}" using s'(6) by auto
      also have "\<dots> = (dom (nets c) - set pre) - {n}" using I by simp
      finally show ?thesis by auto
    qed
    moreover have "dom (settingss s') = dom (settingss c)" "dom (physes s') = dom (physes c)" using I s'(4,5) by simp_all
    ultimately have "?I (pre @ [n]) s'" using s'(2) evolves_trans [OF ev s'(3)] by blast
    then show "\<exists>s'. lsdn_net_free n s = Some s' \<and> ?I (pre @ [n]) s'" using s'(1) by blast
  qed
  then show ?thesis by blast
qed

lemma lsdn_settings_free_total:
  assumes inv: "model_inv c" and s: "settingss c s = Some x"
  shows "\<exists>c'. lsdn_settings_free s c = Some c' \<and> model_inv c' \<and> evolves c c' \<and> dom (physes c') = dom (physes c) \<and>
    (se_state x = LSDN_STATE_NEW \<longrightarrow> settingss c' s = None)"
proof -
  have own: "owns (settingss c) setting_users_list (nets c) (Some \<circ> ne_settings)" using model_invD(1) [OF inv] by (simp add: core_inv_def owners_inv_def)
  have ns: "distinct (setting_users_list x)" "set (setting_users_list x) \<subseteq> dom (nets c)"
    using owns_distinct [OF own s] owns_member [OF own s] by auto
  obtain c1 where 1: "foldM lsdn_net_free (setting_users_list x) c = Some c1" "model_inv c1" "evolves c c1"
    "dom (settingss c1) = dom (settingss c)" "dom (physes c1) = dom (physes c)"
    "\<And>n y. n \<in> set (setting_users_list x) \<Longrightarrow> nets c n = Some y \<Longrightarrow> ne_state y = LSDN_STATE_NEW \<Longrightarrow> nets c1 n = None"
    using free_nets_total [OF inv ns] by blast
  obtain x1 where x1: "settingss c1 s = Some x1" using s 1(4) by (metis domD domI)
  have own1: "owns (settingss c1) setting_users_list (nets c1) (Some \<circ> ne_settings)"
    using model_invD(1) [OF 1(2)] by (simp add: core_inv_def owners_inv_def)
  have new: "se_state x1 = LSDN_STATE_NEW \<longleftrightarrow> se_state x = LSDN_STATE_NEW" using evolves_new_iff(5) [OF 1(3) x1] s by auto
  show ?thesis
  proof (cases "se_state x1 = LSDN_STATE_NEW")
    case True
    have "setting_users_list x1 = []"
    proof (rule owns_none [OF own1 x1])
      fix n y assume y: "nets c1 n = Some y"
      show "(Some \<circ> ne_settings) y \<noteq> Some s"
      proof
        assume "(Some \<circ> ne_settings) y = Some s"
        then obtain z where z: "nets c n = Some z" "ne_settings z = s" using evolves_new_iff(3) [OF 1(3) y] by auto
        then have "ne_state z = LSDN_STATE_NEW" using model_invD(2) [OF inv] s new True by (auto simp: phase_inv_def new_inv_def)
        then show False using 1(6) [of n z] z y owns_member [OF own s, of n] by auto
      qed
    qed
    then obtain c2 where c2: "settings_do_free s c1 = Some c2" "settingss c2 s = None" "evolves c1 c2" "physes c2 = physes c1"
      using x1 by (auto simp: settings_do_free_def evolves_def le_heap_free)
    moreover have "lsdn_settings_free s c = settings_do_free s c1" using s 1(1) x1 True by (simp add: lsdn_settings_free_def free_helper_def)
    ultimately show ?thesis
      using settings_do_free_inv [OF model_invD(1) [OF 1(2)] c2(1)] model_inv_evolves [OF 1(2)] evolves_trans [OF 1(3) c2(3)] 1(5) c2 by simp
  next
    case False
    let ?c2 = "upd_settings s (\<lambda>x. x\<lparr>se_pending_free := True, se_state := LSDN_STATE_DELETE\<rparr>) c1"
    have "core_inv ?c2" by (rule core_inv_upd_settings [OF model_invD(1) [OF 1(2)]]) (simp add: settings_links_def)
    moreover have "evolves c1 ?c2" by (rule evolves_upd) (use False x1 in \<open>simp add: settings_phase_def\<close>)
    ultimately have "model_inv ?c2" "evolves c ?c2" using model_inv_evolves [OF 1(2)] evolves_trans [OF 1(3)] by blast+
    moreover have "lsdn_settings_free s c = Some ?c2" using s 1(1) x1 False by (simp add: lsdn_settings_free_def free_helper_def)
    ultimately show ?thesis using 1(5) new False by (simp add: upd_settings_def)
  qed
qed

end
