(* ===== verification/ApiSteps.thy ===== *)
theory ApiSteps
  imports Api
begin

text \<open>
  The operations that create, connect and change objects keep the invariant; so every state that calls of
  the interface reach from a new context satisfies it.
\<close>

section \<open>Changing attributes\<close>

lemma model_inv_upd:
  "model_inv c \<Longrightarrow> (\<And>x. virts c v = Some x \<Longrightarrow> virt_links x (f1 x) \<and> virt_phase x (f1 x)) \<Longrightarrow> model_inv (upd_virt v f1 c)"
  "model_inv c \<Longrightarrow> (\<And>x. pas c v = Some x \<Longrightarrow> pa_links x (f2 x) \<and> pa_phase x (f2 x)) \<Longrightarrow> model_inv (upd_pa v f2 c)"
  "model_inv c \<Longrightarrow> (\<And>x. physes c v = Some x \<Longrightarrow> phys_links x (f3 x) \<and> phys_phase x (f3 x)) \<Longrightarrow> model_inv (upd_phys v f3 c)"
  "model_inv c \<Longrightarrow> (\<And>x. nets c v = Some x \<Longrightarrow> net_links x (f4 x) \<and> net_phase x (f4 x)) \<Longrightarrow> model_inv (upd_net v f4 c)"
  "model_inv c \<Longrightarrow> (\<And>x. settingss c v = Some x \<Longrightarrow> settings_links x (f5 x) \<and> settings_phase x (f5 x)) \<Longrightarrow> model_inv (upd_settings v f5 c)"
  by (simp_all add: model_inv_def core_inv_upd_virt core_inv_upd_pa core_inv_upd_phys core_inv_upd_net core_inv_upd_settings
      evolves_phase_inv [OF evolves_upd(1)] evolves_phase_inv [OF evolves_upd(2)] evolves_phase_inv [OF evolves_upd(3)]
      evolves_phase_inv [OF evolves_upd(4)] evolves_phase_inv [OF evolves_upd(5)])

lemma model_inv_irrelevant [simp]:
  "model_inv (set_rules st c) = model_inv c" "model_inv (set_nl nl c) = model_inv c" "model_inv (c\<lparr>run := r\<rparr>) = model_inv c"
  "model_inv (c\<lparr>rep := p\<rparr>) = model_inv c" "model_inv (c\<lparr>overwrite := b\<rparr>) = model_inv c" "model_inv (c\<lparr>nomem_cb := cb\<rparr>) = model_inv c"
  by (simp_all add: model_inv_def)

lemma c_alloc_inv: "c_alloc c = (ok, c') \<Longrightarrow> model_inv c \<Longrightarrow> model_inv c'"
  by (rule c_alloc_cases [of c]) auto

lemma wlp_ret [wlp_intros]:
  "P (e, c) \<Longrightarrow> wlp (c_ret_err e c) P" "Q (p, c) \<Longrightarrow> wlp (c_ret_ptr p c) Q"
  by (auto simp: wlp_def c_ret_err_def ret_err_def c_ret_ptr_def ret_ptr_def bind_eq_Some_conv split: if_splits)

lemma wlp_lookup [wlp_intros]:
  "(\<And>x. virts c p = Some x \<Longrightarrow> P1 x) \<Longrightarrow> wlp (virts c p) P1" "(\<And>x. pas c p = Some x \<Longrightarrow> P2 x) \<Longrightarrow> wlp (pas c p) P2"
  "(\<And>x. physes c p = Some x \<Longrightarrow> P3 x) \<Longrightarrow> wlp (physes c p) P3" "(\<And>x. nets c p = Some x \<Longrightarrow> P4 x) \<Longrightarrow> wlp (nets c p) P4"
  "(\<And>x. settingss c p = Some x \<Longrightarrow> P5 x) \<Longrightarrow> wlp (settingss c p) P5"
  by (simp_all add: wlp_def)

lemma renew_inv:
  "renew_virt v c = Some c' \<Longrightarrow> model_inv c \<Longrightarrow> model_inv c'"
  "renew_phys p c = Some c' \<Longrightarrow> model_inv c \<Longrightarrow> model_inv c'"
  unfolding renew_virt_def renew_phys_def renew_def
  by (auto simp: bind_eq_Some_conv links_defs phase_defs split: if_splits intro!: model_inv_upd)

lemma attr_inv [simp]:
  "model_inv c \<Longrightarrow> model_inv (upd_virt v (\<lambda>x. x\<lparr>attr_mac := m\<rparr>) c)"
  "model_inv c \<Longrightarrow> model_inv (upd_virt v (\<lambda>x. x\<lparr>attr_rate_in := r\<rparr>) c)"
  "model_inv c \<Longrightarrow> model_inv (upd_virt v (\<lambda>x. x\<lparr>attr_rate_out := r\<rparr>) c)"
  "model_inv c \<Longrightarrow> model_inv (upd_virt v (\<lambda>x. x\<lparr>connected_if := i\<rparr>) c)"
  "model_inv c \<Longrightarrow> model_inv (upd_phys p (\<lambda>x. x\<lparr>attr_iface := f\<rparr>) c)"
  "model_inv c \<Longrightarrow> model_inv (upd_phys p (\<lambda>x. x\<lparr>attr_ip := ip\<rparr>) c)"
  "model_inv c \<Longrightarrow> model_inv (upd_phys p (\<lambda>x. x\<lparr>is_local := b\<rparr>) c)"
  "model_inv c \<Longrightarrow> model_inv (upd_pa a (\<lambda>x. x\<lparr>explicitly_attached := b\<rparr>) c)"
  "model_inv c \<Longrightarrow> model_inv (upd_settings s (\<lambda>x. x\<lparr>startup_hook := h\<rparr>) c)"
  by (auto simp: links_defs phase_defs intro!: model_inv_upd)

lemmas attr_op_defs = lsdn_virt_set_mac_def lsdn_virt_clear_mac_def lsdn_virt_set_rate_in_def lsdn_virt_clear_rate_in_def
  lsdn_virt_set_rate_out_def lsdn_virt_clear_rate_out_def lsdn_phys_set_iface_def lsdn_phys_clear_iface_def
  lsdn_phys_set_ip_def lsdn_phys_clear_ip_def lsdn_phys_claim_local_def lsdn_phys_unclaim_local_def
  lsdn_settings_register_user_hooks_def

lemma wlp_renew [wlp_intros]:
  "model_inv c \<Longrightarrow> (\<And>c'. model_inv c' \<Longrightarrow> P c') \<Longrightarrow> wlp (renew_virt v c) P"
  "model_inv c \<Longrightarrow> (\<And>c'. model_inv c' \<Longrightarrow> P c') \<Longrightarrow> wlp (renew_phys p c) P"
  using renew_inv by (auto simp: wlp_def)

lemma attr_ops_inv [wlp_intros]:
  assumes "model_inv c"
  shows "wlp (lsdn_virt_set_mac v m c) (\<lambda>(e, c'). model_inv c')" "wlp (lsdn_virt_clear_mac v c) model_inv"
    "wlp (lsdn_virt_set_rate_in v r c) (\<lambda>(e, c'). model_inv c')" "wlp (lsdn_virt_clear_rate_in v c) model_inv"
    "wlp (lsdn_virt_set_rate_out v r c) (\<lambda>(e, c'). model_inv c')" "wlp (lsdn_virt_clear_rate_out v c) model_inv"
    "wlp (lsdn_phys_set_iface p i c) (\<lambda>(e, c'). model_inv c')" "wlp (lsdn_phys_clear_iface p c) model_inv"
    "wlp (lsdn_phys_set_ip p ip c) (\<lambda>(e, c'). model_inv c')" "wlp (lsdn_phys_clear_ip p c) model_inv"
    "wlp (lsdn_phys_claim_local p c) (\<lambda>(e, c'). model_inv c')" "wlp (lsdn_phys_unclaim_local p c) (\<lambda>(e, c'). model_inv c')"
  using assms unfolding attr_op_defs
  by ((intro wlp_intros; (simp add: c_alloc_inv)?)+)

lemma lsdn_settings_register_user_hooks_inv: "model_inv c \<Longrightarrow> model_inv (lsdn_settings_register_user_hooks s h c)"
  by (simp add: lsdn_settings_register_user_hooks_def)

section \<open>Names\<close>

lemma c_name_set_inv:
  assumes "c_name_set p name tab c = (err, tab', c')" "names_inv tab live" "p \<in> live"
  shows "names_inv tab' live" "\<exists>nl. c' = set_nl nl c"
proof -
  obtain e t m where s: "lsdn_name_set p name (tab, nl_oom (c_nl c)) = (e, t, m)" by (cases "lsdn_name_set p name (tab, nl_oom (c_nl c))")
  then have eq: "tab' = t" "c' = set_nl ((c_nl c)\<lparr>nl_oom := m\<rparr>) c" using assms(1) by (auto simp: c_name_set_def)
  have "fst ` set t \<subseteq> insert p (fst ` set tab)"
    using s by (auto simp: lsdn_name_set_def set_lsdn_name_free split: option.splits if_splits prod.splits bool.splits)
  then show "names_inv tab' live"
    using assms(2,3) names_wf_set [OF _ s] unfolding eq names_inv_def by blast
  show "\<exists>nl. c' = set_nl nl c" using eq by blast
qed

lemma model_inv_names:
  "model_inv c \<Longrightarrow> names_inv tab (dom (settingss c)) \<Longrightarrow> model_inv (c\<lparr>setting_names := tab\<rparr>)"
  "model_inv c \<Longrightarrow> names_inv tab (dom (nets c)) \<Longrightarrow> model_inv (c\<lparr>net_names := tab\<rparr>)"
  "model_inv c \<Longrightarrow> names_inv tab (dom (physes c)) \<Longrightarrow> model_inv (c\<lparr>phys_names := tab\<rparr>)"
  by (simp_all add: model_inv_def) (simp_all add: core_inv_defs)

lemma set_nl_heaps [simp]:
  "settingss (set_nl nl c) = settingss c" "physes (set_nl nl c) = physes c" "nets (set_nl nl c) = nets c" "pas (set_nl nl c) = pas c"
  "virts (set_nl nl c) = virts c" "vrs (set_nl nl c) = vrs c" "next_ptr (set_nl nl c) = next_ptr c" "phys_names (set_nl nl c) = phys_names c"
  "setting_names (set_nl nl c) = setting_names c" "phys_list (set_nl nl c) = phys_list c" "settings_list (set_nl nl c) = settings_list c"
  by (simp_all add: set_nl_def set_rules_def)

lemma set_name_inv:
  assumes "model_inv c"
  shows "wlp (lsdn_settings_set_name s name c) (\<lambda>(e, c'). model_inv c')" "wlp (lsdn_net_set_name n name c) (\<lambda>(e, c'). model_inv c')"
    "wlp (lsdn_phys_set_name p name c) (\<lambda>(e, c'). model_inv c')"
  using core_invD(5) [OF model_invD(1) [OF assms]] assms
  unfolding lsdn_settings_set_name_def lsdn_net_set_name_def lsdn_phys_set_name_def Let_def all_names_inv_def
  by (intro wlp_intros; use c_name_set_inv in \<open>fastforce intro!: model_inv_names\<close>)+

lemma virt_set_name_inv:
  assumes "model_inv c"
  shows "wlp (lsdn_virt_set_name v name c) (\<lambda>(e, c'). model_inv c')"
  unfolding lsdn_virt_set_name_def Let_def
proof (intro wlp_intros)
  fix x n err r tab c'
  assume x: "virts c v = Some x" "nets c (network x) = Some n" and eq: "c_name_set v name (virt_names n) c = (err, r)" "r = (tab, c')"
  have "names_inv (virt_names n) (set (virt_list n))"
    using core_invD(5) [OF model_invD(1) [OF assms]] x(2) by (simp add: all_names_inv_def)
  moreover have "v \<in> set (virt_list n)"
    using core_invD(2) [OF model_invD(1) [OF assms]] x owns_member [of "nets c" virt_list "virts c" "Some \<circ> network" "network x" n v]
    by (auto simp: owners_inv_def)
  ultimately have t: "names_inv tab (set (virt_list n))" and c': "\<exists>nl. c' = set_nl nl c" using c_name_set_inv eq by auto
  then show "case (err, upd_net (network x) (\<lambda>n. n\<lparr>virt_names := tab\<rparr>) c') of (e, c') \<Rightarrow> model_inv c'"
    using assms x(2) by (auto simp: net_links_def net_phase_def intro!: model_inv_upd)
qed

section \<open>Creating objects\<close>

lemma phase_inv_new:
  assumes "phase_inv c" "core_inv c"
  shows "vi_state x1 = LSDN_STATE_NEW \<Longrightarrow> \<not> vi_pending_free x1 \<Longrightarrow> virt_view_list x1 = [] \<Longrightarrow> phase_inv (c\<lparr>virts := (virts c)(p \<mapsto> x1)\<rparr>)"
    "pa_state x2 = LSDN_STATE_NEW \<Longrightarrow> \<not> pa_pending_free x2 \<Longrightarrow> remote_pa_list x2 = [] \<Longrightarrow> pa_view_list x2 = [] \<Longrightarrow>
      (\<And>y. physes c (pa_phys x2) = Some y \<Longrightarrow> ph_state y \<noteq> LSDN_STATE_DELETE) \<Longrightarrow> phase_inv (c\<lparr>pas := (pas c)(p \<mapsto> x2)\<rparr>)"
    "vr_state x3 = LSDN_STATE_NEW \<Longrightarrow> \<not> vr_pending_free x3 \<Longrightarrow> phase_inv (c\<lparr>vrs := (vrs c)(p \<mapsto> x3)\<rparr>)"
    "nets c p = None \<Longrightarrow> ne_state x4 = LSDN_STATE_NEW \<Longrightarrow> \<not> ne_pending_free x4 \<Longrightarrow> phase_inv (c\<lparr>nets := (nets c)(p \<mapsto> x4)\<rparr>)"
    "physes c p = None \<Longrightarrow> ph_state x5 = LSDN_STATE_NEW \<Longrightarrow> \<not> ph_pending_free x5 \<Longrightarrow> phase_inv (c\<lparr>physes := (physes c)(p \<mapsto> x5)\<rparr>)"
    "settingss c p = None \<Longrightarrow> se_state x6 = LSDN_STATE_NEW \<Longrightarrow> phase_inv (c\<lparr>settingss := (settingss c)(p \<mapsto> x6)\<rparr>)"
proof -
  have own: "owns (settingss c) setting_users_list (nets c) (Some \<circ> ne_settings)" "owns (nets c) virt_list (virts c) (Some \<circ> network)"
     "owns (nets c) attached_list (pas c) (Some \<circ> pa_net)" "owns (physes c) attached_to_list (pas c) (Some \<circ> pa_phys)"
    using core_invD(2) [OF assms(2)] by (simp_all add: owners_inv_def)
  show "vi_state x1 = LSDN_STATE_NEW \<Longrightarrow> \<not> vi_pending_free x1 \<Longrightarrow> virt_view_list x1 = [] \<Longrightarrow> phase_inv (c\<lparr>virts := (virts c)(p \<mapsto> x1)\<rparr>)"
    "pa_state x2 = LSDN_STATE_NEW \<Longrightarrow> \<not> pa_pending_free x2 \<Longrightarrow> remote_pa_list x2 = [] \<Longrightarrow> pa_view_list x2 = [] \<Longrightarrow>
      (\<And>y. physes c (pa_phys x2) = Some y \<Longrightarrow> ph_state y \<noteq> LSDN_STATE_DELETE) \<Longrightarrow> phase_inv (c\<lparr>pas := (pas c)(p \<mapsto> x2)\<rparr>)"
    "vr_state x3 = LSDN_STATE_NEW \<Longrightarrow> \<not> vr_pending_free x3 \<Longrightarrow> phase_inv (c\<lparr>vrs := (vrs c)(p \<mapsto> x3)\<rparr>)"
    using assms(1) by (auto simp: phase_inv_def delete_inv_def new_inv_def clean_inv_def noerr_inv_def doomed_inv_def)
  show "phase_inv (c\<lparr>nets := (nets c)(p \<mapsto> x4)\<rparr>)" if "nets c p = None" "ne_state x4 = LSDN_STATE_NEW" "\<not> ne_pending_free x4"
    using assms(1) that own(2,3) by (auto simp: phase_inv_def delete_inv_def new_inv_def clean_inv_def noerr_inv_def doomed_inv_def elim!: owns_owner)
  show "phase_inv (c\<lparr>physes := (physes c)(p \<mapsto> x5)\<rparr>)" if "physes c p = None" "ph_state x5 = LSDN_STATE_NEW" "\<not> ph_pending_free x5"
    using assms(1) that own(4) by (auto simp: phase_inv_def delete_inv_def new_inv_def clean_inv_def noerr_inv_def doomed_inv_def elim!: owns_owner)
  show "phase_inv (c\<lparr>settingss := (settingss c)(p \<mapsto> x6)\<rparr>)" if "settingss c p = None" "se_state x6 = LSDN_STATE_NEW"
    using assms(1) that own(1) by (auto simp: phase_inv_def delete_inv_def new_inv_def clean_inv_def noerr_inv_def doomed_inv_def elim!: owns_owner)
qed

lemma c_malloc_model:
  assumes inv: "model_inv c" and m: "c_malloc c = (r, c')"
  shows "model_inv c'" "r = Some p \<Longrightarrow> fresh p c'" "settingss c' = settingss c" "physes c' = physes c" "nets c' = nets c" "pas c' = pas c"
    "virts c' = virts c" "vrs c' = vrs c"
proof -
  have "phase_inv c'" using m inv by (elim c_malloc_cases) (simp_all add: model_inv_def)
  then show "model_inv c'" "r = Some p \<Longrightarrow> fresh p c'"
    using c_malloc_inv [OF model_invD(1) [OF inv] m] by (simp_all add: model_inv_def)
  show "settingss c' = settingss c" "physes c' = physes c" "nets c' = nets c" "pas c' = pas c" "virts c' = virts c" "vrs c' = vrs c"
    using m by (auto elim!: c_malloc_cases)
qed

lemma upd_net_set_rules: "upd_net n f (set_rules st c) = set_rules st (upd_net n f c)"
  by (simp add: upd_net_def set_rules_def)

lemma lsdn_virt_new_inv:
  assumes "model_inv c"
  shows "wlp (lsdn_virt_new n c) (\<lambda>(p, c'). model_inv c')"
  unfolding lsdn_virt_new_def Let_def upd_net_set_rules
proof (intro wlp_intros)
  fix x r c1
  assume "nets c n = Some x" "c_malloc c = (r, c1)" "r = None"
  then show "case (None, c1) of (p, c') \<Rightarrow> model_inv c'" using c_malloc_model [OF assms] by auto
next
  fix x r c1 v
  assume x: "nets c n = Some x" and m: "c_malloc c = (r, c1)" "r = Some v"
  note c1 = c_malloc_model [OF assms m(1)]
  let ?x = "\<lparr>vi_state = LSDN_STATE_NEW, vi_pending_free = False, virt_view_list = [], network = n,
                 connected_through = None, committed_to = None, connected_if = lsdn_if_init,
                 committed_if = lsdn_if_init, attr_mac = None, attr_rate_in = None, attr_rate_out = None,
                 commited_policing_in = False, commited_policing_out = False, ht_in_rules = [], ht_out_rules = []\<rparr>"
  let ?c = "c1\<lparr>virts := (virts c1)(v \<mapsto> ?x)\<rparr>"
  let ?c2 = "upd_net n (\<lambda>n. n\<lparr>virt_list := v # virt_list n\<rparr>) ?c"
  have "core_inv ?c2" by (rule inv_add_virt [OF model_invD(1) [OF c1(1)] c1(2) [OF m(2)]]) (use x c1(5) in simp_all)
  moreover have "phase_inv ?c" by (rule phase_inv_new(1)) (use model_invD [OF c1(1)] in simp_all)
  moreover have "evolves ?c ?c2" by (rule evolves_upd) (simp add: net_phase_def)
  ultimately have "model_inv ?c2" using evolves_phase_inv by (auto simp: model_inv_def)
  then show "case (Some v, set_rules (put_rule (R_policing_in v) (junk ?c v) (put_rule (R_policing_out v) (junk ?c v) (c_rules (run ?c)))) ?c2)
      of (p, c') \<Rightarrow> model_inv c'" by simp
qed

lemma lsdn_net_new_inv:
  assumes "model_inv c"
  shows "wlp (lsdn_net_new s vid c) (\<lambda>(p, c'). model_inv c')"
  unfolding lsdn_net_new_def Let_def
proof (intro wlp_intros)
  fix x r c1
  assume "settingss c s = Some x" "c_malloc c = (r, c1)" "r = None"
  then show "case (None, c1) of (p, c') \<Rightarrow> model_inv c'" using c_malloc_model [OF assms] by auto
next
  fix x r c1 n
  assume x: "settingss c s = Some x" and m: "c_malloc c = (r, c1)" "r = Some n"
  note c1 = c_malloc_model [OF assms m(1)]
  let ?x = "\<lparr>ne_state = LSDN_STATE_NEW, ne_pending_free = False, ne_settings = s, vnet_id = vid, virt_list = [],
                 attached_list = [], virt_names = lsdn_names_init\<rparr>"
  let ?c = "c1\<lparr>nets := (nets c1)(n \<mapsto> ?x)\<rparr>"
  let ?c2 = "upd_settings s (\<lambda>x. x\<lparr>setting_users_list := n # setting_users_list x\<rparr>) ?c"
  have fr: "nets c1 n = None" using c1(2) [OF m(2)] by (simp add: fresh_def)
  have "core_inv (?c2\<lparr>networks_list := n # networks_list c1\<rparr>)"
    by (rule inv_add_net [OF model_invD(1) [OF c1(1)] c1(2) [OF m(2)]]) (use x c1(3) in simp_all)
  moreover have "phase_inv ?c" by (rule phase_inv_new(4)) (use model_invD [OF c1(1)] fr in simp_all)
  moreover have "evolves ?c (?c2\<lparr>networks_list := n # networks_list c1\<rparr>)" by (simp, rule evolves_upd) (simp add: settings_phase_def)
  ultimately show "case (Some n, ?c2\<lparr>networks_list := n # networks_list ?c2\<rparr>) of (p, c') \<Rightarrow> model_inv c'"
    using evolves_phase_inv by (auto simp: model_inv_def upd_settings_def)
qed

lemma lsdn_mk_name_inv: "lsdn_mk_name t c = (name, c') \<Longrightarrow> \<exists>r. c' = c\<lparr>run := r\<rparr>"
  by (auto simp: lsdn_mk_name_def Let_def)

lemma named_new:
  assumes inv: "model_inv c" and m: "c_malloc c = (Some p, c1)" "lsdn_mk_name t c1 = (name, c2)"
    "c_name_set p (Some name) tab c2 = (err, tab', c3)" and tab: "names_inv tab live"
  shows "model_inv c3" "fresh p c3" "names_inv tab' (insert p live)"
    "physes c3 = physes c" "settingss c3 = settingss c"
proof -
  note c1 = c_malloc_model [OF inv m(1)]
  obtain r where c2: "c2 = c1\<lparr>run := r\<rparr>" using lsdn_mk_name_inv [OF m(2)] by blast
  have "names_inv tab (insert p live)" using tab by (rule names_inv_insert)
  note n = c_name_set_inv [OF m(3) this]
  obtain nl where c3: "c3 = set_nl nl c2" using n by blast
  show "model_inv c3" "names_inv tab' (insert p live)" "physes c3 = physes c" "settingss c3 = settingss c"
    using n c1 c2 c3 by simp_all
  show "fresh p c3" using c1(2) c2 c3 by (simp add: fresh_def set_nl_def set_rules_def)
qed

lemma lsdn_phys_new_inv:
  assumes "model_inv c"
  shows "wlp (lsdn_phys_new c) (\<lambda>(p, c'). model_inv c')"
  unfolding lsdn_phys_new_def Let_def
proof (intro wlp_intros)
  fix r c1
  assume "c_malloc c = (r, c1)" "r = None"
  then show "case (None, c1) of (p, c') \<Rightarrow> model_inv c'" using c_malloc_model [OF assms] by auto
next
  fix r c1 p name c2 err t tab c3
  assume m: "c_malloc c = (r, c1)" "r = Some p" "lsdn_mk_name ''phys'' c1 = (name, c2)"
    "c_name_set p (Some name) (phys_names c2) c2 = (err, t)" "t = (tab, c3)"
  have "phys_names c2 = phys_names c" using m(1,3) by (auto simp: lsdn_mk_name_def Let_def elim!: c_malloc_cases)
  then have "names_inv (phys_names c2) (dom (physes c))"
    using core_invD(5) [OF model_invD(1) [OF assms]] by (simp add: all_names_inv_def)
  note n = named_new [OF assms _ m(3) _ this, of p err tab c3]
  have n: "model_inv c3" "fresh p c3" "names_inv tab (insert p (dom (physes c)))" "physes c3 = physes c" using n m by auto
  then show "case (None, c3) of (p, c') \<Rightarrow> model_inv c'" by simp
  let ?x = "\<lparr>ph_state = LSDN_STATE_NEW, ph_pending_free = False, attached_to_list = [], is_local = False,
                         committed_as_local = False, attr_iface = None, attr_ip = None\<rparr>"
  let ?c = "c3\<lparr>phys_names := tab, physes := (physes c3)(p \<mapsto> ?x), phys_list := p # phys_list c3\<rparr>"
  have "core_inv ?c" by (rule inv_add_phys [OF model_invD(1) [OF n(1)] n(2)]) (use n in simp_all)
  moreover have "phase_inv (c3\<lparr>physes := (physes c3)(p \<mapsto> ?x)\<rparr>)"
    by (rule phase_inv_new(5)) (use model_invD [OF n(1)] n(2) in \<open>simp_all add: fresh_def\<close>)
  then have "phase_inv ?c" by (rule evolves_phase_inv [rotated]) (simp add: evolves_def)
  ultimately show "case (Some p, ?c) of (p, c') \<Rightarrow> model_inv c'" by (simp add: model_inv_def)
qed

lemma settings_new_inv:
  assumes "model_inv c" and flds: "\<not> se_pending_free flds"
  shows "wlp (settings_new flds c) (\<lambda>(p, c'). model_inv c')"
proof -
  have common: "model_inv c4" if m: "c_malloc c = (Some p, c1)" and common: "lsdn_settings_init_common p flds c1 = (err, c4)" for p c1 err c4
  proof -
    obtain name c2 where mk: "lsdn_mk_name ''settings'' c1 = (name, c2)" by fastforce
    obtain e tab c3 where st: "c_name_set p (Some name) (setting_names c2) c2 = (e, tab, c3)" by (cases "c_name_set p (Some name) (setting_names c2) c2")
    have "setting_names c2 = setting_names c" using m mk by (auto simp: lsdn_mk_name_def Let_def elim!: c_malloc_cases)
    then have "names_inv (setting_names c2) (dom (settingss c))"
      using core_invD(5) [OF model_invD(1) [OF assms(1)]] by (simp add: all_names_inv_def)
    note n = named_new [OF assms(1) m mk st this]
    let ?x = "flds\<lparr>se_state := LSDN_STATE_NEW, setting_users_list := [], startup_hook := None\<rparr>"
    let ?c = "c3\<lparr>setting_names := tab, settingss := (settingss c3)(p \<mapsto> ?x), settings_list := p # settings_list c3\<rparr>"
    have "core_inv ?c" by (rule inv_add_settings [OF model_invD(1) [OF n(1)] n(2)]) (use n in simp_all)
    moreover have "phase_inv (c3\<lparr>settingss := (settingss c3)(p \<mapsto> ?x)\<rparr>)"
      by (rule phase_inv_new(6)) (use model_invD [OF n(1)] n(2) in \<open>simp_all add: fresh_def\<close>)
    then have "phase_inv ?c" by (rule evolves_phase_inv [rotated]) (simp add: evolves_def)
    ultimately have "model_inv ?c" by (simp add: model_inv_def)
    then show ?thesis using common mk st n(1) by (auto simp: lsdn_settings_init_common_def split: if_splits)
  qed
  show ?thesis unfolding settings_new_def
    by (intro wlp_intros) (use common c_malloc_model [OF assms(1)] in auto)
qed

lemma settings_constructors_inv:
  assumes "model_inv c"
  shows "wlp (lsdn_settings_new_direct c) (\<lambda>(p, c'). model_inv c')" "wlp (lsdn_settings_new_vlan c) (\<lambda>(p, c'). model_inv c')"
    "wlp (lsdn_settings_new_vxlan_mcast ip port c) (\<lambda>(p, c'). model_inv c')" "wlp (lsdn_settings_new_vxlan_e2e port c) (\<lambda>(p, c'). model_inv c')"
    "wlp (lsdn_settings_new_vxlan_static port c) (\<lambda>(p, c'). model_inv c')" "wlp (lsdn_settings_new_geneve port c) (\<lambda>(p, c'). model_inv c')"
    "wlp (lsdn_settings_new_geneve_e2e port c) (\<lambda>(p, c'). model_inv c')"
  unfolding lsdn_settings_new_direct_def lsdn_settings_new_vlan_def lsdn_settings_new_vxlan_mcast_def lsdn_settings_new_vxlan_e2e_def
    lsdn_settings_new_vxlan_static_def lsdn_settings_new_geneve_def lsdn_settings_new_geneve_e2e_def
  by (intro settings_new_inv assms; simp add: settings_of_def)+

section \<open>Attachments\<close>

lemma find_attachment_spec:
  assumes "find_attachment h n as = Some r"
  shows "r = Some a \<Longrightarrow> a \<in> set as \<and> (\<exists>x. h a = Some x \<and> pa_net x = n)"
    and "r = None \<Longrightarrow> b \<in> set as \<Longrightarrow> \<exists>x. h b = Some x \<and> pa_net x \<noteq> n"
  using assms by (induction as) (auto simp: bind_eq_Some_conv split: if_splits)

lemma find_or_create_attachement_inv:
  assumes "model_inv c" and live: "\<And>px. physes c p = Some px \<Longrightarrow> ph_state px \<noteq> LSDN_STATE_DELETE"
  shows "wlp (find_or_create_attachement p n c) (\<lambda>(r, c'). model_inv c' \<and> virts c' = virts c \<and> dom (physes c') = dom (physes c) \<and>
    (\<forall>a. r = Some a \<longrightarrow> (\<exists>x. pas c' a = Some x \<and> pa_net x = n \<and> pa_phys x = p)))"
  unfolding find_or_create_attachement_def Let_def
proof (intro wlp_intros wlpI [of "find_attachment (pas c) n as" for as])
  fix px found a
  assume px: "physes c p = Some px" and f: "find_attachment (pas c) n (attached_to_list px) = Some found" "found = Some a"
  have "owns (physes c) attached_to_list (pas c) (Some \<circ> pa_phys)"
    using core_invD(2) [OF model_invD(1) [OF assms(1)]] by (simp add: owners_inv_def)
  then have "\<exists>x. pas c a = Some x \<and> pa_net x = n \<and> pa_phys x = p"
    using find_attachment_spec(1) [OF f] owns_member [of "physes c" attached_to_list "pas c" "Some \<circ> pa_phys" p px a] px by auto
  then show "case (Some a, c) of (r, c') \<Rightarrow> model_inv c' \<and> virts c' = virts c \<and> dom (physes c') = dom (physes c) \<and>
      (\<forall>a. r = Some a \<longrightarrow> (\<exists>x. pas c' a = Some x \<and> pa_net x = n \<and> pa_phys x = p))" using assms(1) by simp
next
  fix px found r c1
  assume "c_malloc c = (r, c1)" "r = None"
  then show "case (None, c1) of (r, c') \<Rightarrow> model_inv c' \<and> virts c' = virts c \<and> dom (physes c') = dom (physes c) \<and>
      (\<forall>a. r = Some a \<longrightarrow> (\<exists>x. pas c' a = Some x \<and> pa_net x = n \<and> pa_phys x = p))" using c_malloc_model [OF assms(1)] by auto
next
  fix px found r c1 a nx
  assume px: "physes c p = Some px" and f: "find_attachment (pas c) n (attached_to_list px) = Some found" "found = None"
    and m: "c_malloc c = (r, c1)" "r = Some a" and nx: "nets c1 n = Some nx"
  note c1 = c_malloc_model [OF assms(1) m(1)]
  let ?x = "\<lparr>pa_state = LSDN_STATE_NEW, pa_pending_free = False, connected_virt_list = [], pa_view_list = [],
                  remote_pa_list = [], pa_net = n, pa_phys = p, explicitly_attached = False\<rparr>"
  let ?c = "c1\<lparr>pas := (pas c1)(a \<mapsto> ?x)\<rparr>"
  let ?c2 = "upd_net n (\<lambda>n. n\<lparr>attached_list := a # attached_list n\<rparr>) ?c"
  let ?c3 = "upd_phys p (\<lambda>p. p\<lparr>attached_to_list := a # attached_to_list p\<rparr>) ?c2"
  have none: "pa_net y \<noteq> n" if "b \<in> set (attached_to_list px)" "pas c1 b = Some y" for b y
    using find_attachment_spec(2) [OF f that(1)] that(2) c1(6) by auto
  have "core_inv ?c3"
    by (rule inv_add_pa [OF model_invD(1) [OF c1(1)] c1(2) [OF m(2)], where px = px])
      (use px nx c1 none in auto)
  moreover have ph: "phase_inv ?c" by (rule phase_inv_new(2)) (use model_invD [OF c1(1)] live c1(4) in simp_all)
  have e: "evolves ?c ?c2" "evolves ?c2 ?c3" by (rule evolves_upd, simp add: phase_defs)+
  have "phase_inv ?c3" by (rule evolves_phase_inv [OF e(2) evolves_phase_inv [OF e(1) ph]])
  ultimately have "model_inv ?c3" by (simp add: model_inv_def)
  then show "case (Some a, ?c3) of (r, c') \<Rightarrow> model_inv c' \<and> virts c' = virts c \<and> dom (physes c') = dom (physes c) \<and>
      (\<forall>a. r = Some a \<longrightarrow> (\<exists>x. pas c' a = Some x \<and> pa_net x = n \<and> pa_phys x = p))"
    using c1 by (simp add: upd_net_def upd_phys_def)
qed

lemma find_or_create_attachement_cases:
  assumes eq: "find_or_create_attachement p n c = Some (r, c')" and px: "physes c p = Some px"
  obtains (found) a where "r = Some a" "c' = c"
  | (nomem) "r = None" "c_malloc c = (None, c')"
  | (new) a x px' where "r = Some a" "pas c' a = Some x" "\<not> explicitly_attached x" "physes c' p = Some px'" "ph_state px' = ph_state px"
proof -
  obtain q c1 where m: "c_malloc c = (q, c1)" by fastforce
  then have "physes c1 p = Some px" using px by (auto elim!: c_malloc_cases)
  then show thesis
    using eq px m found nomem new
    unfolding find_or_create_attachement_def
    by (auto simp: bind_eq_Some_conv Let_def upd_phys_def upd_net_def split: option.splits)
qed

text \<open>
  Attaching a phys that was freed asserts, unless it is attached explicitly already; \<^verbatim>\<open>renew\<close> is called after
  the attachment was created.
\<close>

lemma lsdn_phys_attach_inv:
  assumes inv: "model_inv c"
  shows "wlp (lsdn_phys_attach p n c) (\<lambda>(e, c'). model_inv c')"
proof (cases "\<exists>px. physes c p = Some px \<and> ph_state px = LSDN_STATE_DELETE")
  case False
  show ?thesis unfolding lsdn_phys_attach_def
    by (rule wlp_bind, rule wlp_mono [OF find_or_create_attachement_inv [OF inv]])
      (use False in blast, intro wlp_intros, auto)
next
  case True
  then obtain px where px: "physes c p = Some px" "ph_state px = LSDN_STATE_DELETE" by blast
  have stop: "renew_phys p c' = None" if "physes c' p = Some px'" "ph_state px' = LSDN_STATE_DELETE" for c' px'
    using that by (simp add: renew_phys_def renew_def c_assert_def)
  have body: "wlp (case r of None \<Rightarrow> c_ret_err LSDNE_NOMEM c' | Some a \<Rightarrow> do {
          x \<leftarrow> pas c' a;
          c \<leftarrow> (if \<not> explicitly_attached x then renew_phys p c' else Some c');
          c_ret_err LSDNE_OK (upd_pa a (\<lambda>x. x\<lparr>explicitly_attached := True\<rparr>) c)
        }) (\<lambda>(e, c'). model_inv c')" if f: "find_or_create_attachement p n c = Some (r, c')" for r c'
    using f px(1)
  proof (cases rule: find_or_create_attachement_cases)
    case (found a)
    then show ?thesis using inv by (auto intro!: wlp_intros)
  next
    case nomem
    then show ?thesis using c_malloc_model [OF inv] by (auto intro!: wlp_intros)
  next
    case (new a x px')
    then show ?thesis using stop px(2) by (simp add: wlp_None)
  qed
  show ?thesis unfolding lsdn_phys_attach_def
    by (rule wlp_bind, rule wlpI) (use body in \<open>simp split: prod.splits\<close>)
qed

lemma lsdn_phys_detach_inv:
  assumes "model_inv c"
  shows "wlp (lsdn_phys_detach p n c) model_inv"
  unfolding lsdn_phys_detach_def
proof (intro wlp_intros wlpI [of "find_attachment (pas c) n as" for as])
  fix px found a
  assume "find_attachment (pas c) n (attached_to_list px) = Some found" "found = Some a"
  then obtain x where x: "pas c a = Some x" using find_attachment_spec(1) by blast
  show "wlp (phys_detach_by_pa a c) model_inv"
    by (rule phys_detach_by_pa_total [OF model_invD [OF assms] x])
      (use assms model_inv_evolves in \<open>auto simp: wlp_def pa_frame_def\<close>)
qed (use assms in simp)

section \<open>Connections\<close>

lemma upd_pa_upd_virt: "upd_pa a f (upd_virt v g c) = upd_virt v g (upd_pa a f c)"
  by (simp add: upd_pa_def upd_virt_def)

text \<open>Disconnecting a virt: the attachment stays, even when it has no virt left.\<close>

lemma lsdn_virt_disconnect_cases:
  assumes inv: "model_inv c" and x: "virts c v = Some x"
  obtains (idle) "connected_through x = None" "lsdn_virt_disconnect v c = Some c"
  | (doomed) a where "connected_through x = Some a" "vi_state x = LSDN_STATE_DELETE" "lsdn_virt_disconnect v c = None"
  | (ok) a c' s where "connected_through x = Some a" "vi_state x \<noteq> LSDN_STATE_DELETE" "lsdn_virt_disconnect v c = Some c'"
      "renew (vi_state x) = Some s" "model_inv c'" "evolves c c'"
      "virts c' = (virts c)(v \<mapsto> x\<lparr>connected_through := None, vi_state := s\<rparr>)" "nets c' = nets c" "physes c' = physes c"
      "pas c' = (pas c)(a := map_option (\<lambda>y. y\<lparr>connected_virt_list := remove1 v (connected_virt_list y)\<rparr>) (pas c a))"
proof (cases "connected_through x")
  case None
  then show thesis using idle x by (simp add: lsdn_virt_disconnect_def)
next
  case (Some a)
  let ?rm = "\<lambda>y. y\<lparr>connected_virt_list := remove1 v (connected_virt_list y)\<rparr>"
  let ?c = "upd_virt v (\<lambda>x. x\<lparr>connected_through := None\<rparr>) (upd_pa a ?rm c)"
  have dis: "lsdn_virt_disconnect v c = renew_virt v ?c" using x Some by (simp add: lsdn_virt_disconnect_def Let_def)
  have vc: "virts ?c v = Some (x\<lparr>connected_through := None\<rparr>)" using x by (simp add: upd_virt_def upd_pa_def)
  show thesis
  proof (cases "vi_state x = LSDN_STATE_DELETE")
    case True
    then show thesis using doomed Some dis vc by (simp add: renew_virt_def renew_def c_assert_def)
  next
    case False
    then obtain s where s: "renew (vi_state x) = Some s" by (simp add: renew_def)
    let ?c2 = "upd_virt v (\<lambda>x. x\<lparr>vi_state := s\<rparr>) ?c"
    have ren: "renew_virt v ?c = Some ?c2" using vc s by (simp add: renew_virt_def)
    have "core_inv ?c" by (rule core_inv_unlink_virt [OF model_invD(1) [OF inv] x Some])
    moreover have ev: "evolves c ?c"
      unfolding evolves_def by (auto simp: upd_virt_def upd_pa_def intro!: le_heap_upd) (simp_all add: phase_defs)
    ultimately have "model_inv ?c" by (rule model_inv_evolves [OF inv])
    then have "model_inv ?c2" by (rule renew_inv(1) [OF ren])
    moreover have "evolves ?c ?c2"
      by (rule evolves_upd) (use vc s in \<open>auto simp: virt_phase_def renew_def bind_eq_Some_conv split: if_splits\<close>)
    moreover have "virts ?c2 = (virts c)(v \<mapsto> x\<lparr>connected_through := None, vi_state := s\<rparr>)" using x by (simp add: upd_virt_def upd_pa_def)
    ultimately show thesis
      using Some False dis ren s evolves_trans [OF ev]
      by (intro ok [of a ?c2 s]) (simp_all add: upd_pa_upd_virt, simp_all add: upd_virt_def upd_pa_def)
  qed
qed

lemma lsdn_virt_disconnect_inv: "model_inv c \<Longrightarrow> wlp (lsdn_virt_disconnect v c) model_inv"
proof (cases "virts c v")
  case None
  then show ?thesis by (simp add: lsdn_virt_disconnect_def wlp_None)
next
  case (Some x)
  assume inv: "model_inv c"
  from inv Some show ?thesis by (rule lsdn_virt_disconnect_cases) (use inv in \<open>auto simp: wlp_def\<close>)
qed

lemma virt_link_inv:
  assumes c: "model_inv c" "virts c v = Some z" "connected_through z = None" "pas c a = Some w" "pa_net w = network z"
  shows "wlp (Option.bind (renew_virt v (upd_virt v (\<lambda>x. x\<lparr>connected_through := Some a\<rparr>) c))
      (\<lambda>c. c_ret_err LSDNE_OK (upd_pa a (\<lambda>y. y\<lparr>connected_virt_list := v # connected_virt_list y\<rparr>) c))) (\<lambda>(e, c'). model_inv c')"
proof -
  let ?l = "\<lambda>y. y\<lparr>connected_virt_list := v # connected_virt_list y\<rparr>" and ?t = "\<lambda>x. x\<lparr>connected_through := Some a\<rparr>"
  have "core_inv (upd_pa a ?l (upd_virt v ?t c))" by (rule core_inv_link_virt [OF model_invD(1) [OF c(1)] c(2-5)])
  moreover have "evolves c (upd_pa a ?l (upd_virt v ?t c))"
    unfolding evolves_def by (auto simp: upd_virt_def upd_pa_def intro!: le_heap_upd) (simp_all add: phase_defs)
  ultimately have l: "model_inv (upd_pa a ?l (upd_virt v ?t c))" using model_inv_evolves [OF c(1)] by blast
  have "renew_virt v (upd_pa a ?l (upd_virt v ?t c)) = map_option (upd_pa a ?l) (renew_virt v (upd_virt v ?t c))"
    using c(2) by (cases "renew (vi_state z)") (simp_all add: renew_virt_def upd_pa_upd_virt, simp_all add: upd_virt_def upd_pa_def)
  then have "wlp (renew_virt v (upd_virt v ?t c)) (\<lambda>c'. model_inv (upd_pa a ?l c'))" using renew_inv(1) [OF _ l] by (auto simp: wlp_def)
  then show ?thesis by (intro wlp_bind) (erule wlp_mono, auto intro!: wlp_ret)
qed

lemma virt_relink_inv:
  assumes c: "model_inv c" "virts c v = Some z" "pas c a = Some w" "pa_net w = network z"
  shows "wlp (lsdn_virt_disconnect v c) (\<lambda>c. wlp (Option.bind (renew_virt v (upd_virt v (\<lambda>x. x\<lparr>connected_through := Some a\<rparr>) c))
      (\<lambda>c. c_ret_err LSDNE_OK (upd_pa a (\<lambda>y. y\<lparr>connected_virt_list := v # connected_virt_list y\<rparr>) c))) (\<lambda>(e, c'). model_inv c'))"
  using c(1,2)
proof (rule lsdn_virt_disconnect_cases)
  assume "connected_through z = None" "lsdn_virt_disconnect v c = Some c"
  then show ?thesis using virt_link_inv [OF c(1,2) _ c(3,4)] by (simp add: wlp_Some)
next
  fix b c' s
  assume d: "lsdn_virt_disconnect v c = Some c'" "model_inv c'" "virts c' = (virts c)(v \<mapsto> z\<lparr>connected_through := None, vi_state := s\<rparr>)"
    "pas c' = (pas c)(b := map_option (\<lambda>y. y\<lparr>connected_virt_list := remove1 v (connected_virt_list y)\<rparr>) (pas c b))"
  obtain w' where "pas c' a = Some w'" "pa_net w' = network z" using d(4) c(3,4) by (cases "b = a") auto
  then show ?thesis using d(1,3) virt_link_inv [OF d(2)] by (auto intro!: wlp_Some)
qed (simp add: wlp_None)

lemma lsdn_virt_connect_inv:
  assumes inv: "model_inv c" and live: "\<forall>px. physes c p = Some px \<longrightarrow> ph_state px \<noteq> LSDN_STATE_DELETE"
  shows "wlp (lsdn_virt_connect v p iface c) (\<lambda>(e, c'). model_inv c')"
proof -
  have conn: "wlp (case r of None \<Rightarrow> c_ret_err LSDNE_NOMEM c1
      | Some a \<Rightarrow> (case lsdn_if_set_name (connected_if x) iface (c_nl c1) of (err, i, nl) \<Rightarrow>
             let c = set_nl nl c1 in
             if err \<noteq> LSDNE_OK then c_ret_err err c
             else do {
               let c = upd_virt v (\<lambda>x. x\<lparr>connected_if := i\<rparr>) c;
               c \<leftarrow> lsdn_virt_disconnect v c;
               let c = upd_virt v (\<lambda>x. x\<lparr>connected_through := Some a\<rparr>) c;
               c \<leftarrow> renew_virt v c;
               let c = upd_pa a (\<lambda>y. y\<lparr>connected_virt_list := v # connected_virt_list y\<rparr>) c;
               c_ret_err LSDNE_OK c
             })) (\<lambda>(e, c'). model_inv c')"
    if c1: "model_inv c1" "virts c1 v = Some x" "\<And>a. r = Some a \<Longrightarrow> \<exists>y. pas c1 a = Some y \<and> pa_net y = network x" for r c1 x
    unfolding Let_def
  proof (intro wlp_intros)
    fix a e t i nl
    assume "r = Some a"
    then obtain y where y: "pas c1 a = Some y" "pa_net y = network x" using c1(3) by blast
    show "wlp (lsdn_virt_disconnect v (upd_virt v (\<lambda>x. x\<lparr>connected_if := i\<rparr>) (set_nl nl c1)))
       (\<lambda>c. wlp (Option.bind (renew_virt v (upd_virt v (\<lambda>x. x\<lparr>connected_through := Some a\<rparr>) c))
      (\<lambda>c. c_ret_err LSDNE_OK (upd_pa a (\<lambda>y. y\<lparr>connected_virt_list := v # connected_virt_list y\<rparr>) c))) (\<lambda>(e, c'). model_inv c'))"
      by (rule virt_relink_inv [where z = "x\<lparr>connected_if := i\<rparr>" and w = y]) (use c1 y in \<open>simp_all, simp_all add: upd_virt_def\<close>)
  qed (use c1 in simp_all)
  show ?thesis
    unfolding lsdn_virt_connect_def
    by (rule wlp_bind, rule wlp_lookup, rule wlp_bind, rule wlp_mono [OF find_or_create_attachement_inv [OF inv]], use live in blast, rule wlp_case_prod, rule conn)
      auto
qed

section \<open>Freeing physes\<close>

lemma disconnect_list:
  assumes inv: "model_inv c" and vs: "distinct vs"
    "\<forall>v\<in>set vs. \<exists>x. virts c v = Some x \<and> connected_through x = Some a \<and> vi_state x \<noteq> LSDN_STATE_DELETE"
  shows "\<exists>c'. foldM lsdn_virt_disconnect vs c = Some c' \<and> model_inv c' \<and> evolves c c' \<and> nets c' = nets c \<and> physes c' = physes c \<and>
    dom (pas c') = dom (pas c) \<and> (\<forall>b. b \<noteq> a \<longrightarrow> pas c' b = pas c b) \<and> (\<forall>v. v \<notin> set vs \<longrightarrow> virts c' v = virts c v) \<and>
    (\<forall>v\<in>set vs. \<exists>x. virts c' v = Some x \<and> connected_through x = None)"
proof -
  let ?I = "\<lambda>pre s. model_inv s \<and> evolves c s \<and> nets s = nets c \<and> physes s = physes c \<and> dom (pas s) = dom (pas c) \<and>
    (\<forall>b. b \<noteq> a \<longrightarrow> pas s b = pas c b) \<and> (\<forall>v. v \<notin> set pre \<longrightarrow> virts s v = virts c v) \<and> (\<forall>v\<in>set pre. \<exists>x. virts s v = Some x \<and> connected_through x = None)"
  have "\<exists>s. foldM lsdn_virt_disconnect vs c = Some s \<and> ?I vs s"
  proof (rule foldM_total_prefix [where I = ?I])
    show "?I [] c" using inv by simp
  next
    fix pre v rest s
    assume split: "vs = pre @ v # rest" and I: "?I pre s"
    have m: "model_inv s" and ev: "evolves c s" using I by blast+
    have new: "v \<notin> set pre" using vs(1) split by simp
    then obtain x where x: "virts s v = Some x" "connected_through x = Some a" "vi_state x \<noteq> LSDN_STATE_DELETE"
      using I vs(2) split by auto
    from m x(1) show "\<exists>s'. lsdn_virt_disconnect v s = Some s' \<and> ?I (pre @ [v]) s'"
    proof (rule lsdn_virt_disconnect_cases)
      fix b s' st
      assume b: "connected_through x = Some b"
        and d: "lsdn_virt_disconnect v s = Some s'" "model_inv s'" "evolves s s'" "nets s' = nets s" "physes s' = physes s"
        "virts s' = (virts s)(v \<mapsto> x\<lparr>connected_through := None, vi_state := st\<rparr>)"
        "pas s' = (pas s)(b := map_option (\<lambda>y. y\<lparr>connected_virt_list := remove1 v (connected_virt_list y)\<rparr>) (pas s b))"
      have "?I (pre @ [v]) s'" using I d(2,4-7) evolves_trans [OF ev d(3)] new b x(2) by simp
      then show ?thesis using d(1) by blast
    qed (use x in simp_all)
  qed
  then show ?thesis by blast
qed

text \<open>The body of the loop of \<^verbatim>\<open>lsdn_phys_free\<close>.\<close>

definition phys_free_pa :: "ptr \<Rightarrow> lsdn_context \<Rightarrow> lsdn_context option" where
  "phys_free_pa a c = do {
     y \<leftarrow> pas c a;
     c \<leftarrow> foldM lsdn_virt_disconnect (connected_virt_list y) c;
     phys_detach_by_pa a c
   }"

definition doomed_at :: "lsdn_context \<Rightarrow> ptr \<Rightarrow> bool" where
  "doomed_at c a \<longleftrightarrow> (\<exists>v x. virts c v = Some x \<and> connected_through x = Some a \<and> vi_state x = LSDN_STATE_DELETE)"

lemma connected_list:
  assumes "model_inv c" "pas c a = Some y"
  shows "distinct (connected_virt_list y)" "v \<in> set (connected_virt_list y) \<longleftrightarrow> (\<exists>x. virts c v = Some x \<and> connected_through x = Some a)"
proof -
  have own: "owns (pas c) connected_virt_list (virts c) connected_through"
    using core_invD(2) [OF model_invD(1) [OF assms(1)]] by (simp add: owners_inv_def)
  show "distinct (connected_virt_list y)" "v \<in> set (connected_virt_list y) \<longleftrightarrow> (\<exists>x. virts c v = Some x \<and> connected_through x = Some a)"
    using owns_distinct [OF own assms(2)] owns_member [OF own assms(2)] by auto
qed

lemma disconnect_all:
  assumes inv: "model_inv c" and a: "pas c a = Some y" and ok: "\<not> doomed_at c a"
  shows "\<exists>c' y'. foldM lsdn_virt_disconnect (connected_virt_list y) c = Some c' \<and> model_inv c' \<and> evolves c c' \<and> nets c' = nets c \<and>
    physes c' = physes c \<and> (\<forall>b. b \<noteq> a \<longrightarrow> pas c' b = pas c b) \<and> (\<forall>b. b \<noteq> a \<longrightarrow> doomed_at c' b = doomed_at c b) \<and>
    pas c' a = Some y' \<and> connected_virt_list y' = [] \<and> (pa_state y' = LSDN_STATE_NEW \<longleftrightarrow> pa_state y = LSDN_STATE_NEW)"
proof -
  note l = connected_list [OF inv a]
  have live: "\<forall>v\<in>set (connected_virt_list y). \<exists>x. virts c v = Some x \<and> connected_through x = Some a \<and> vi_state x \<noteq> LSDN_STATE_DELETE"
    using l(2) ok by (auto simp: doomed_at_def)
  obtain c1 where 1: "foldM lsdn_virt_disconnect (connected_virt_list y) c = Some c1" "model_inv c1" "evolves c c1" "nets c1 = nets c"
    "physes c1 = physes c" "dom (pas c1) = dom (pas c)" "\<forall>b. b \<noteq> a \<longrightarrow> pas c1 b = pas c b"
    "\<forall>v. v \<notin> set (connected_virt_list y) \<longrightarrow> virts c1 v = virts c v"
    "\<forall>v\<in>set (connected_virt_list y). \<exists>x. virts c1 v = Some x \<and> connected_through x = None"
    using disconnect_list [OF inv l(1) live] by (elim exE conjE) (rule that)
  have "a \<in> dom (pas c1)" using 1(6) a by auto
  then obtain y1 where y1: "pas c1 a = Some y1" by blast
  have new: "pa_state y1 = LSDN_STATE_NEW \<longleftrightarrow> pa_state y = LSDN_STATE_NEW" using evolves_new_iff(2) [OF 1(3) y1] a by auto
  have "v \<notin> set (connected_virt_list y1)" for v
  proof
    assume "v \<in> set (connected_virt_list y1)"
    then obtain x where x: "virts c1 v = Some x" "connected_through x = Some a" using connected_list(2) [OF 1(2) y1] by blast
    show False
    proof (cases "v \<in> set (connected_virt_list y)")
      case True
      then show False using 1(9) x by auto
    next
      case False
      then show False using 1(8) x l(2) [of v] by auto
    qed
  qed
  then have conn: "connected_virt_list y1 = []" by (simp add: set_empty [symmetric] set_eq_iff del: set_empty)
  have doomed: "doomed_at c1 b = doomed_at c b" if "b \<noteq> a" for b
  proof -
    have "(virts c1 v = Some x \<and> connected_through x = Some b) = (virts c v = Some x \<and> connected_through x = Some b)" for v x
    proof (cases "v \<in> set (connected_virt_list y)")
      case True
      then show ?thesis using 1(9) l(2) [of v] that by auto
    next
      case False
      then show ?thesis using 1(8) by simp
    qed
    then show ?thesis by (auto simp: doomed_at_def)
  qed
  then show ?thesis using 1(1-5,7) y1 new conn by blast
qed

definition dead :: "ptr \<Rightarrow> lsdn_context \<Rightarrow> bool" where
  "dead a c \<longleftrightarrow> (case pas c a of None \<Rightarrow> True | Some y \<Rightarrow> pa_state y = LSDN_STATE_DELETE)"

lemma dead_evolves: "dead a c \<Longrightarrow> evolves c c' \<Longrightarrow> dead a c'"
  unfolding dead_def evolves_def le_heap_def pa_phase_def by (fastforce split: option.splits)

lemma phys_free_pa_total:
  assumes inv: "model_inv c" and a: "pas c a = Some y" and ok: "\<not> doomed_at c a"
  shows "\<exists>c'. phys_free_pa a c = Some c' \<and> model_inv c' \<and> evolves c c' \<and> dom (nets c') = dom (nets c) \<and> dom (physes c') = dom (physes c) \<and>
    (\<forall>b. b \<noteq> a \<longrightarrow> pas c' b = pas c b) \<and> (\<forall>b. b \<noteq> a \<longrightarrow> doomed_at c' b = doomed_at c b) \<and> dead a c'"
proof -
  obtain c1 y1 where 1: "foldM lsdn_virt_disconnect (connected_virt_list y) c = Some c1" "model_inv c1" "evolves c c1" "nets c1 = nets c"
    "physes c1 = physes c" "\<forall>b. b \<noteq> a \<longrightarrow> pas c1 b = pas c b" "\<forall>b. b \<noteq> a \<longrightarrow> doomed_at c1 b = doomed_at c b"
    "pas c1 a = Some y1" "connected_virt_list y1 = []" "pa_state y1 = LSDN_STATE_NEW \<longleftrightarrow> pa_state y = LSDN_STATE_NEW"
    using disconnect_all [OF assms] by (elim exE conjE) (rule that)
  obtain c2 where 2: "phys_detach_by_pa a c1 = Some c2" "core_inv c2" "pa_frame a c1 c2"
    "connected_virt_list y1 = [] \<Longrightarrow> pas c2 a = None \<or> (\<exists>y. pas c2 a = Some y \<and> pa_state y = LSDN_STATE_DELETE)"
    by (rule phys_detach_by_pa_total [OF model_invD [OF 1(2)] 1(8)]) blast
  have "phys_free_pa a c = Some c2" using a 1(1) 2(1) by (simp add: phys_free_pa_def)
  moreover have "doomed_at c2 b = doomed_at c1 b" for b using 2(3) by (simp add: doomed_at_def pa_frame_def)
  ultimately show ?thesis
    using 2(2,3) 2(4) [OF 1(9)] 1(4-7) model_inv_evolves [OF 1(2) 2(2)] evolves_trans [OF 1(3)] by (auto simp: pa_frame_def dead_def)
qed

lemma phys_free_pa_doomed:
  assumes inv: "model_inv c" and a: "pas c a = Some y" and "doomed_at c a"
  shows "phys_free_pa a c = None"
proof -
  let ?bad = "\<lambda>v. \<exists>x. virts c v = Some x \<and> vi_state x = LSDN_STATE_DELETE"
  have "\<exists>v\<in>set (connected_virt_list y). ?bad v" using assms(3) connected_list(2) [OF inv a] by (auto simp: doomed_at_def)
  then obtain pre v rest where sp: "connected_virt_list y = pre @ v # rest" "?bad v" "\<forall>w\<in>set pre. \<not> ?bad w"
    using split_list_first_prop [of "connected_virt_list y" ?bad] by blast
  have d: "distinct pre" "v \<notin> set pre" using connected_list(1) [OF inv a] sp(1) by auto
  have live: "\<forall>w\<in>set pre. \<exists>x. virts c w = Some x \<and> connected_through x = Some a \<and> vi_state x \<noteq> LSDN_STATE_DELETE"
  proof
    fix w assume w: "w \<in> set pre"
    then obtain x where "virts c w = Some x" "connected_through x = Some a" using connected_list(2) [OF inv a, of w] sp(1) by auto
    then show "\<exists>x. virts c w = Some x \<and> connected_through x = Some a \<and> vi_state x \<noteq> LSDN_STATE_DELETE" using sp(3) w by auto
  qed
  obtain s where s: "foldM lsdn_virt_disconnect pre c = Some s" "model_inv s" "\<forall>w. w \<notin> set pre \<longrightarrow> virts s w = virts c w"
    using disconnect_list [OF inv d(1) live] by (elim exE conjE) (rule that)
  obtain x where x: "virts s v = Some x" "vi_state x = LSDN_STATE_DELETE" "connected_through x = Some a"
    using s(3) d(2) sp(1,2) connected_list(2) [OF inv a, of v] by auto
  from s(2) x(1) have "lsdn_virt_disconnect v s = None" by (rule lsdn_virt_disconnect_cases) (use x in simp_all)
  then show ?thesis using a sp(1) s(1) by (simp add: phys_free_pa_def foldM_append)
qed

lemma phys_free_pas:
  assumes inv: "model_inv c" and as: "distinct as" "set as \<subseteq> dom (pas c)"
  shows "if \<exists>a\<in>set as. doomed_at c a then foldM phys_free_pa as c = None
    else \<exists>c'. foldM phys_free_pa as c = Some c' \<and> model_inv c' \<and> evolves c c' \<and> dom (nets c') = dom (nets c) \<and>
      dom (physes c') = dom (physes c) \<and> (\<forall>a\<in>set as. dead a c')"
  using assms
proof (induction as arbitrary: c)
  case Nil
  then show ?case by simp
next
  case (Cons a as)
  then obtain y where y: "pas c a = Some y" by auto
  show ?case
  proof (cases "doomed_at c a")
    case True
    then show ?thesis using phys_free_pa_doomed [OF Cons.prems(1) y] by simp
  next
    case False
    obtain c1 where 1: "phys_free_pa a c = Some c1" "model_inv c1" "evolves c c1" "dom (nets c1) = dom (nets c)"
      "dom (physes c1) = dom (physes c)" "\<forall>b. b \<noteq> a \<longrightarrow> pas c1 b = pas c b" "\<forall>b. b \<noteq> a \<longrightarrow> doomed_at c1 b = doomed_at c b"
      "dead a c1"
      using phys_free_pa_total [OF Cons.prems(1) y False] by (elim exE conjE) (rule that)
    have d: "distinct as" "a \<notin> set as" using Cons.prems(2) by auto
    have same: "pas c1 b = pas c b" "doomed_at c1 b = doomed_at c b" if "b \<in> set as" for b using 1(6,7) d(2) that by auto
    have as: "set as \<subseteq> dom (pas c1)" using Cons.prems(3) by (auto simp: same)
    show ?thesis
      using Cons.IH [OF 1(2) d(1) as] 1(1,3,4,5) False same y dead_evolves [OF 1(8)] evolves_trans [OF 1(3)] by (auto split: if_splits)
  qed
qed

lemma phys_release_total:
  assumes inv: "model_inv c" and x: "physes c p = Some x" and dead: "\<And>a. a \<in> set (attached_to_list x) \<Longrightarrow> dead a c"
  shows "\<exists>c'. (case free_helper (ph_state x) of Free_now \<Rightarrow> phys_do_free p c
        | Mark_deleted \<Rightarrow> Some (upd_phys p (\<lambda>x. x\<lparr>ph_pending_free := True, ph_state := LSDN_STATE_DELETE\<rparr>) c)) = Some c' \<and>
      model_inv c' \<and> nets c' = nets c \<and> (ph_state x = LSDN_STATE_NEW \<longrightarrow> physes c' p = None)"
proof -
  have own: "owns (physes c) attached_to_list (pas c) (Some \<circ> pa_phys)"
    using core_invD(2) [OF model_invD(1) [OF inv]] by (simp add: owners_inv_def)
  have del: "pa_state y = LSDN_STATE_DELETE" if "pas c a = Some y" "pa_phys y = p" for a y
    using that dead [of a] owns_member [OF own x, of a] by (simp add: dead_def)
  show ?thesis
  proof (cases "ph_state x = LSDN_STATE_NEW")
    case True
    have "(Some \<circ> pa_phys) y \<noteq> Some p" if y: "pas c a = Some y" for a y
      using del [OF y] model_invD(2) [OF inv] y x True by (auto simp: phase_inv_def new_inv_def)
    then have "attached_to_list x = []" using owns_none [OF own x] by blast
    then obtain c' where c': "phys_do_free p c = Some c'" "core_inv c'" "evolves c c'" "nets c' = nets c" "physes c' p = None"
      using x phys_do_free_inv [OF model_invD(1) [OF inv] _ x] by (auto simp: phys_do_free_def evolves_def le_heap_free)
    then show ?thesis using True model_inv_evolves [OF inv] by (auto simp: free_helper_def)
  next
    case False
    let ?c' = "upd_phys p (\<lambda>x. x\<lparr>ph_pending_free := True, ph_state := LSDN_STATE_DELETE\<rparr>) c"
    have "core_inv ?c'" by (rule core_inv_upd_phys [OF model_invD(1) [OF inv]]) (simp add: phys_links_def)
    moreover have "phase_inv ?c'"
      using model_invD(2) [OF inv] x del
      by (auto simp: phase_inv_def delete_inv_def new_inv_def clean_inv_def noerr_inv_def doomed_inv_def upd_phys_def)
    ultimately show ?thesis using False by (simp add: free_helper_def model_inv_def) (simp add: upd_phys_def)
  qed
qed

lemma lsdn_phys_free_cases:
  assumes inv: "model_inv c" and p: "physes c p = Some x"
  shows "if \<exists>a\<in>set (attached_to_list x). doomed_at c a then lsdn_phys_free p c = None
    else \<exists>c'. lsdn_phys_free p c = Some c' \<and> model_inv c' \<and> dom (nets c') = dom (nets c) \<and>
      (ph_state x = LSDN_STATE_NEW \<longrightarrow> physes c' p = None)"
proof -
  have loop: "(\<lambda>a c. do { y \<leftarrow> pas c a; c \<leftarrow> foldM lsdn_virt_disconnect (connected_virt_list y) c; phys_detach_by_pa a c }) = phys_free_pa"
    by (simp add: phys_free_pa_def fun_eq_iff)
  have own: "owns (physes c) attached_to_list (pas c) (Some \<circ> pa_phys)" if "model_inv c" for c
    using core_invD(2) [OF model_invD(1) [OF that]] by (simp add: owners_inv_def)
  have as: "distinct (attached_to_list x)" "set (attached_to_list x) \<subseteq> dom (pas c)"
    using owns_distinct [OF own [OF inv] p] owns_member [OF own [OF inv] p] by auto
  show ?thesis
  proof (cases "\<exists>a\<in>set (attached_to_list x). doomed_at c a")
    case True
    then show ?thesis using phys_free_pas [OF inv as] p by (simp add: lsdn_phys_free_def loop)
  next
    case False
    then obtain c1 where 1: "foldM phys_free_pa (attached_to_list x) c = Some c1" "model_inv c1" "evolves c c1" "dom (nets c1) = dom (nets c)"
      "dom (physes c1) = dom (physes c)" "\<And>a. a \<in> set (attached_to_list x) \<Longrightarrow> dead a c1"
      using phys_free_pas [OF inv as] by (simp only: if_False) blast
    have "p \<in> dom (physes c1)" using 1(5) p by auto
    then obtain x1 where x1: "physes c1 p = Some x1" by blast
    have new: "ph_state x1 = LSDN_STATE_NEW \<longleftrightarrow> ph_state x = LSDN_STATE_NEW" using evolves_new_iff(4) [OF 1(3) x1] p by auto
    have "dead a c1" if mem: "a \<in> set (attached_to_list x1)" for a
    proof -
      obtain y where y: "pas c1 a = Some y" "pa_phys y = p" using owns_member [OF own [OF 1(2)] x1, of a] mem by auto
      then obtain z where "pas c a = Some z" "pa_phys z = p" using evolves_new_iff(2) [OF 1(3) y(1)] by auto
      then show ?thesis using 1(6) owns_member [OF own [OF inv] p, of a] by simp
    qed
    then have "\<exists>c2. lsdn_phys_free p c = Some c2 \<and> model_inv c2 \<and> nets c2 = nets c1 \<and>
        (ph_state x1 = LSDN_STATE_NEW \<longrightarrow> physes c2 p = None)"
      using phys_release_total [OF 1(2) x1] p 1(1) x1 by (simp add: lsdn_phys_free_def loop)
    then show ?thesis using False 1(4) new by auto
  qed
qed

section \<open>Rules of virts\<close>

lemma upd_virt_set_rules: "upd_virt v f (set_rules st c) = set_rules st (upd_virt v f c)"
  by (simp add: upd_virt_def set_rules_def)

lemma model_inv_add_vr:
  assumes inv: "model_inv c" and fr: "fresh r c" and tab: "vr_tab (virts c) (v, d, n) \<noteq> None"
    and y: "vr_home y = (v, d, n)" "vr_state y = LSDN_STATE_NEW" "\<not> vr_pending_free y"
  shows "model_inv (upd_virt v (upd_ht d (upd_vr_prio n (\<lambda>pr. pr\<lparr>rules_list := r # rules_list pr\<rparr>))) (set_rules st (c\<lparr>vrs := (vrs c)(r \<mapsto> y)\<rparr>)))"
proof -
  let ?c = "c\<lparr>vrs := (vrs c)(r \<mapsto> y)\<rparr>"
  let ?c2 = "upd_virt v (upd_ht d (upd_vr_prio n (\<lambda>pr. pr\<lparr>rules_list := r # rules_list pr\<rparr>))) ?c"
  have "core_inv ?c2" by (rule core_inv_add_vr [OF model_invD(1) [OF inv] fr tab y(1)])
  moreover have "phase_inv ?c" by (rule phase_inv_new(3)) (use model_invD [OF inv] y in simp_all)
  moreover have "evolves ?c ?c2" by (rule evolves_upd) (simp add: virt_phase_def)
  ultimately have "model_inv ?c2" using evolves_phase_inv by (auto simp: model_inv_def)
  then show ?thesis by (simp add: upd_virt_set_rules)
qed

lemma model_inv_append_prio:
  assumes inv: "model_inv c" and x: "virts c v = Some x" "find_vr_prio (vr_prio_num pr) (ht_rules d x) = None" "rules_list pr = []"
  shows "model_inv (upd_virt v (upd_ht d (\<lambda>ht. ht @ [pr])) c)"
proof -
  have "core_inv (upd_virt v (upd_ht d (\<lambda>ht. ht @ [pr])) c)"
    by (rule core_inv_upd_virt_ht, rule model_invD(1) [OF inv])
      (rule vr_inv_append_prio [OF core_invD(4) [OF model_invD(1) [OF inv]] x])
  moreover have "evolves c (upd_virt v (upd_ht d (\<lambda>ht. ht @ [pr])) c)" by (rule evolves_upd) (simp add: virt_phase_def)
  ultimately show ?thesis by (rule model_inv_evolves [OF inv])
qed

lemma fresh_upd_virt: "fresh r c \<Longrightarrow> fresh r (upd_virt v f c)"
  by (auto simp: fresh_def upd_virt_def)

lemma c_alloc_fresh: "c_alloc c = (ok, c') \<Longrightarrow> fresh r c \<Longrightarrow> fresh r c' \<and> virts c' = virts c"
  by (rule c_alloc_cases [of c]) (auto simp: fresh_def set_nl_def set_rules_def)

lemma lsdn_vr_new_inv:
  assumes inv: "model_inv c"
  shows "wlp (lsdn_vr_new v n d act c) (\<lambda>(r, c'). model_inv c')"
  unfolding lsdn_vr_new_def Let_def
proof (intro wlp_intros)
  fix x r c1
  assume "c_malloc c = (r, c1)" "r = None"
  then show "case (None, c1) of (r, c') \<Rightarrow> model_inv c'" using c_malloc_model [OF inv] by auto
next
  fix x q c1 r ok c2
  assume x: "virts c v = Some x" and m: "c_malloc c = (q, c1)" "q = Some r"
    and al: "(if find_vr_prio n (ht_rules d x) \<noteq> None then (True, c1) else c_alloc c1) = (ok, c2)"
  note c1 = c_malloc_model [OF inv m(1)]
  have c2: "model_inv c2" "fresh r c2" "virts c2 = virts c"
    using al c1(1,2,7) m(2) c_alloc_inv [of c1 ok c2] c_alloc_fresh [of c1 ok c2 r] by (auto split: if_splits)
  then show "case (None, c2) of (r, c') \<Rightarrow> model_inv c'" by simp
  let ?pr = "\<lparr>vr_prio_num = n, commited_count = 0, commited_prio = False, rules_list = []\<rparr>"
  let ?c3 = "if find_vr_prio n (ht_rules d x) \<noteq> None then c2 else upd_virt v (upd_ht d (\<lambda>ht. ht @ [?pr])) c2"
  have c3: "model_inv ?c3 \<and> fresh r ?c3 \<and> vr_tab (virts ?c3) (v, d, n) \<noteq> None"
  proof (cases "find_vr_prio n (ht_rules d x)")
    case None
    have "model_inv (upd_virt v (upd_ht d (\<lambda>ht. ht @ [?pr])) c2)"
      by (rule model_inv_append_prio [OF c2(1)]) (use c2(3) x None in simp_all)
    then show ?thesis
      using None c2 x fresh_upd_virt [OF c2(2)] by simp (simp add: vr_tab_def find_vr_prio_append upd_virt_def)
  qed (use c2 x in \<open>simp add: vr_tab_def\<close>)
  let ?y = "\<lparr>vr_pos = 0, vr_state = LSDN_STATE_NEW, vr_pending_free = False,
                    vr_targets = replicate LSDN_MAX_MATCHES LSDN_MATCH_NONE,
                    vr_masks = replicate LSDN_MAX_MATCHES (replicate LSDN_MAX_MATCH_LEN 0), vr_home = (v, d, n)\<rparr>"
  let ?c4 = "?c3\<lparr>vrs := (vrs ?c3)(r \<mapsto> ?y)\<rparr>"
  show "case (Some r, upd_virt v (upd_ht d (upd_vr_prio n (\<lambda>pr. pr\<lparr>rules_list := r # rules_list pr\<rparr>)))
      (set_rules (put_rule (R_vr r) ((junk ?c4 r)\<lparr>rule_action := act\<rparr>) (c_rules (run ?c4))) ?c4)) of (r, c') \<Rightarrow> model_inv c'"
    using model_inv_add_vr [of ?c3 r v d n ?y] c3 by simp
qed

lemma model_inv_upd_vr:
  assumes "model_inv c" "\<And>y. vrs c r = Some y \<Longrightarrow> vr_home (f y) = vr_home y \<and> vr_phase y (f y)"
  shows "model_inv (upd_vr r f c)"
  using core_inv_upd_vr [OF model_invD(1) [OF assms(1)]] evolves_phase_inv [OF evolves_upd(6) model_invD(2) [OF assms(1)]] assms(2)
  by (simp add: model_inv_def)

lemma vr_add_masked_inv: "model_inv c \<Longrightarrow> wlp (vr_add_masked r t val msk c) model_inv"
  by (auto simp: wlp_def vr_add_masked_def bind_eq_Some_conv Let_def vr_phase_def intro!: model_inv_upd_vr)

lemma vr_adders_inv:
  assumes "model_inv c"
  shows "wlp (lsdn_vr_add_masked_src_mac r m1 m2 c) model_inv" "wlp (lsdn_vr_add_masked_dst_mac r m1 m2 c) model_inv"
    "wlp (lsdn_vr_add_masked_src_ip r i1 i2 c) model_inv" "wlp (lsdn_vr_add_masked_dst_ip r i1 i2 c) model_inv"
  unfolding lsdn_vr_add_masked_src_mac_def lsdn_vr_add_masked_dst_mac_def lsdn_vr_add_masked_src_ip_def lsdn_vr_add_masked_dst_ip_def
  by (intro wlp_bind wlp_assert vr_add_masked_inv assms)+

lemma lsdn_vr_free_inv:
  assumes inv: "model_inv c"
  shows "wlp (lsdn_vr_free r c) model_inv"
proof (cases "vrs c r")
  case None
  then show ?thesis by (simp add: lsdn_vr_free_def wlp_None)
next
  case (Some y)
  obtain v d n where h: "vr_home y = (v, d, n)" by (cases "vr_home y")
  obtain c' where c': "lsdn_vr_free r c = Some c'" "core_inv c'" "vr_frame v c c'"
    by (rule lsdn_vr_free_total [OF model_invD(1) [OF inv] Some h])
  then show ?thesis using model_inv_evolves [OF inv c'(2) vr_frame_evolves [OF c'(3)]] by (simp add: wlp_Some)
qed

lemma lsdn_vrs_free_all_inv:
  assumes inv: "model_inv c"
  shows "wlp (lsdn_vrs_free_all v c) model_inv"
proof (cases "virts c v")
  case None
  then show ?thesis by (simp add: lsdn_vrs_free_all_def wlp_None)
next
  case (Some x)
  obtain c' where c': "lsdn_vrs_free_all v c = Some c'" "core_inv c'" "vr_frame v c c'"
    by (rule lsdn_vrs_free_all_total [OF model_invD(1) [OF inv] Some])
  then show ?thesis using model_inv_evolves [OF inv c'(2) vr_frame_evolves [OF c'(3)]] by (simp add: wlp_Some)
qed

section \<open>Reachable states\<close>

text \<open>
  One call of the interface. A call that stops the program has no successor. The caller does not connect a virt to a
  phys it has freed: \<^verbatim>\<open>lsdn_virt_connect\<close> does not check it, and the attachment it creates would outlive the phys.
\<close>

inductive api_step :: "lsdn_context \<Rightarrow> lsdn_context \<Rightarrow> bool" where
  settings_direct: "lsdn_settings_new_direct c = Some (r, c') \<Longrightarrow> api_step c c'"
| settings_vlan: "lsdn_settings_new_vlan c = Some (r, c') \<Longrightarrow> api_step c c'"
| settings_vxlan_mcast: "lsdn_settings_new_vxlan_mcast ip port c = Some (r, c') \<Longrightarrow> api_step c c'"
| settings_vxlan_e2e: "lsdn_settings_new_vxlan_e2e port c = Some (r, c') \<Longrightarrow> api_step c c'"
| settings_vxlan_static: "lsdn_settings_new_vxlan_static port c = Some (r, c') \<Longrightarrow> api_step c c'"
| settings_geneve: "lsdn_settings_new_geneve port c = Some (r, c') \<Longrightarrow> api_step c c'"
| settings_geneve_e2e: "lsdn_settings_new_geneve_e2e port c = Some (r, c') \<Longrightarrow> api_step c c'"
| settings_hooks: "api_step c (lsdn_settings_register_user_hooks s h c)"
| settings_set_name: "lsdn_settings_set_name s name c = Some (e, c') \<Longrightarrow> api_step c c'"
| settings_free: "lsdn_settings_free s c = Some c' \<Longrightarrow> api_step c c'"
| net_new: "lsdn_net_new s vid c = Some (r, c') \<Longrightarrow> api_step c c'"
| net_set_name: "lsdn_net_set_name n name c = Some (e, c') \<Longrightarrow> api_step c c'"
| net_free: "lsdn_net_free n c = Some c' \<Longrightarrow> api_step c c'"
| phys_new: "lsdn_phys_new c = Some (r, c') \<Longrightarrow> api_step c c'"
| phys_set_name: "lsdn_phys_set_name p name c = Some (e, c') \<Longrightarrow> api_step c c'"
| phys_free: "lsdn_phys_free p c = Some c' \<Longrightarrow> api_step c c'"
| phys_attach: "lsdn_phys_attach p n c = Some (e, c') \<Longrightarrow> api_step c c'"
| phys_detach: "lsdn_phys_detach p n c = Some c' \<Longrightarrow> api_step c c'"
| phys_set_iface: "lsdn_phys_set_iface p i c = Some (e, c') \<Longrightarrow> api_step c c'"
| phys_clear_iface: "lsdn_phys_clear_iface p c = Some c' \<Longrightarrow> api_step c c'"
| phys_set_ip: "lsdn_phys_set_ip p ip c = Some (e, c') \<Longrightarrow> api_step c c'"
| phys_clear_ip: "lsdn_phys_clear_ip p c = Some c' \<Longrightarrow> api_step c c'"
| phys_claim_local: "lsdn_phys_claim_local p c = Some (e, c') \<Longrightarrow> api_step c c'"
| phys_unclaim_local: "lsdn_phys_unclaim_local p c = Some (e, c') \<Longrightarrow> api_step c c'"
| virt_new: "lsdn_virt_new n c = Some (r, c') \<Longrightarrow> api_step c c'"
| virt_set_name: "lsdn_virt_set_name v name c = Some (e, c') \<Longrightarrow> api_step c c'"
| virt_free: "lsdn_virt_free v c = Some c' \<Longrightarrow> api_step c c'"
| virt_connect: "lsdn_virt_connect v p i c = Some (e, c') \<Longrightarrow>
    \<forall>x. physes c p = Some x \<longrightarrow> ph_state x \<noteq> LSDN_STATE_DELETE \<Longrightarrow> api_step c c'"
| virt_disconnect: "lsdn_virt_disconnect v c = Some c' \<Longrightarrow> api_step c c'"
| virt_set_mac: "lsdn_virt_set_mac v m c = Some (e, c') \<Longrightarrow> api_step c c'"
| virt_clear_mac: "lsdn_virt_clear_mac v c = Some c' \<Longrightarrow> api_step c c'"
| virt_set_rate_in: "lsdn_virt_set_rate_in v r c = Some (e, c') \<Longrightarrow> api_step c c'"
| virt_clear_rate_in: "lsdn_virt_clear_rate_in v c = Some c' \<Longrightarrow> api_step c c'"
| virt_set_rate_out: "lsdn_virt_set_rate_out v r c = Some (e, c') \<Longrightarrow> api_step c c'"
| virt_clear_rate_out: "lsdn_virt_clear_rate_out v c = Some c' \<Longrightarrow> api_step c c'"
| vr_new: "lsdn_vr_new v n d a c = Some (r, c') \<Longrightarrow> api_step c c'"
| vr_src_mac: "lsdn_vr_add_masked_src_mac x m1 m2 c = Some c' \<Longrightarrow> api_step c c'"
| vr_dst_mac: "lsdn_vr_add_masked_dst_mac x m1 m2 c = Some c' \<Longrightarrow> api_step c c'"
| vr_src_ip: "lsdn_vr_add_masked_src_ip x i1 i2 c = Some c' \<Longrightarrow> api_step c c'"
| vr_dst_ip: "lsdn_vr_add_masked_dst_ip x i1 i2 c = Some c' \<Longrightarrow> api_step c c'"
| vr_free: "lsdn_vr_free x c = Some c' \<Longrightarrow> api_step c c'"
| vrs_free_all: "lsdn_vrs_free_all v c = Some c' \<Longrightarrow> api_step c c'"
| context_overwrite: "api_step c (lsdn_context_set_overwrite b c)"
| context_nomem: "api_step c (lsdn_context_set_nomem_callback cb c)"

lemma free_ops_inv:
  assumes "model_inv c"
  shows "wlp (lsdn_settings_free s c) model_inv" "wlp (lsdn_net_free n c) model_inv" "wlp (lsdn_phys_free p c) model_inv"
    "wlp (lsdn_virt_free v c) model_inv"
proof -
  show "wlp (lsdn_settings_free s c) model_inv"
    using lsdn_settings_free_total [OF assms, of s] by (cases "settingss c s") (auto simp: wlp_def lsdn_settings_free_def)
  show "wlp (lsdn_net_free n c) model_inv"
    using lsdn_net_free_total [OF assms, of n] by (cases "nets c n") (auto simp: wlp_def lsdn_net_free_def)
  show "wlp (lsdn_phys_free p c) model_inv"
    using lsdn_phys_free_cases [OF assms, of p] by (cases "physes c p") (auto simp: wlp_def lsdn_phys_free_def split: if_splits)
  show "wlp (lsdn_virt_free v c) model_inv"
    using lsdn_virt_free_total [OF assms, of v] by (cases "virts c v") (auto simp: wlp_def lsdn_virt_free_def lsdn_vrs_free_all_def)
qed

lemmas api_invs = settings_constructors_inv set_name_inv virt_set_name_inv free_ops_inv lsdn_net_new_inv lsdn_phys_new_inv
  lsdn_virt_new_inv lsdn_phys_attach_inv lsdn_phys_detach_inv attr_ops_inv lsdn_virt_disconnect_inv
  lsdn_vr_new_inv vr_adders_inv lsdn_vr_free_inv lsdn_vrs_free_all_inv

lemma api_step_inv: "api_step c c' \<Longrightarrow> model_inv c \<Longrightarrow> model_inv c'"
proof (induction rule: api_step.induct)
  case (virt_connect v p i c e c')
  then show ?case using wlpD [OF lsdn_virt_connect_inv] by fastforce
qed (auto dest: api_invs [THEN wlpD] simp: lsdn_settings_register_user_hooks_inv lsdn_context_set_overwrite_def
      lsdn_context_set_nomem_callback_def)

lemma context_new_inv:
  assumes "lsdn_context_new name nl socks jnk = (Some c, nl')"
  shows "model_inv c"
  using assms
  by (auto simp: lsdn_context_new_def model_inv_def core_inv_defs phase_inv_def delete_inv_def new_inv_def clean_inv_def noerr_inv_def doomed_inv_def owns_empty
      pa_unique_def connected_ok_def names_inv_init owns_def vr_tab_def split: prod.splits bool.splits)

end
