(* ===== verification/ModelProps.thy ===== *)
theory ModelProps
  imports ApiSteps RuleProps
begin

text \<open>
  What the interface of the model promises its caller: the invariant holds in every state the calls reach, freeing an
  object of any kind returns and removes what was never committed, \<^verbatim>\<open>lsdn_phys_free\<close> stops the program exactly when a
  connected virt was freed before, and objects are found under the name they were given.
\<close>

section \<open>A model of one network\<close>

text \<open>A context with settings 1, network 2, phys 3 and virt 4, connected through attachment 5; nothing is committed.\<close>

definition demo_new :: lsdn_context where
  "demo_new = (case fst (lsdn_context_new ''demo'' ex_nl [] (\<lambda>_. ex_rule 1)) of Some c \<Rightarrow> c)"

definition demo :: "lsdn_context option" where
  "demo = do {
     (_, c) \<leftarrow> lsdn_settings_new_direct demo_new;
     (_, c) \<leftarrow> lsdn_net_new 1 1 c;
     (_, c) \<leftarrow> lsdn_phys_new c;
     (_, c) \<leftarrow> lsdn_virt_new 2 c;
     (_, c) \<leftarrow> lsdn_virt_connect 4 3 ''eth0'' c;
     Some c
   }"

lemma demo_new_eq: "lsdn_context_new ''demo'' ex_nl [] (\<lambda>_. ex_rule 1) = (Some demo_new, ex_nl)"
  by (simp add: demo_new_def lsdn_context_new_def nl_malloc_def ex_nl_def)

lemma demo_new_inv: "model_inv demo_new"
  by (rule context_new_inv [OF demo_new_eq])

lemma demo_steps:
  assumes "demo = Some c"
  shows "api_step\<^sup>*\<^sup>* demo_new c"
proof -
  have live: "case (do { (_, c) \<leftarrow> lsdn_settings_new_direct demo_new; (_, c) \<leftarrow> lsdn_net_new 1 1 c; (_, c) \<leftarrow> lsdn_phys_new c;
      (_, c) \<leftarrow> lsdn_virt_new 2 c; x \<leftarrow> physes c 3; Some (ph_state x) }) of Some s \<Rightarrow> s \<noteq> LSDN_STATE_DELETE | None \<Rightarrow> False"
    by code_simp
  obtain r1 r2 r3 r4 e c1 c2 c3 c4 where s: "lsdn_settings_new_direct demo_new = Some (r1, c1)" "lsdn_net_new 1 1 c1 = Some (r2, c2)"
      "lsdn_phys_new c2 = Some (r3, c3)" "lsdn_virt_new 2 c3 = Some (r4, c4)" "lsdn_virt_connect 4 3 ''eth0'' c4 = Some (e, c)"
    using assms by (auto simp: demo_def bind_eq_Some_conv)
  have "\<forall>x. physes c4 3 = Some x \<longrightarrow> ph_state x \<noteq> LSDN_STATE_DELETE" using live s by auto
  then have st: "api_step demo_new c1" "api_step c1 c2" "api_step c2 c3" "api_step c3 c4" "api_step c4 c"
    using s by (auto intro: api_step.intros)
  show ?thesis
    by (rule converse_rtranclp_into_rtranclp [of api_step, OF st(1)], rule converse_rtranclp_into_rtranclp [of api_step, OF st(2)],
        rule converse_rtranclp_into_rtranclp [of api_step, OF st(3)], rule converse_rtranclp_into_rtranclp [of api_step, OF st(4)],
        rule r_into_rtranclp [of api_step, OF st(5)])
qed

lemma demo_inv: "demo = Some c \<Longrightarrow> model_inv c"
  by (drule demo_steps, induction rule: rtranclp_induct) (auto intro: demo_new_inv api_step_inv)

section \<open>Freeing\<close>

text \<open>
  C20. \<^verbatim>\<open>lsdn_net_free\<close> returns for every network of a reachable model. It keeps the invariant and leaves the settings,
  the phys and the other networks in place; a network that was never committed is freed at once, with all its virts and
  attachments.
\<close>

theorem lsdn_net_free_releases:
  assumes inv: "model_inv c" and n: "nets c n = Some x"
  shows "\<exists>c'. lsdn_net_free n c = Some c' \<and> model_inv c' \<and> dom (settingss c') = dom (settingss c) \<and>
    dom (physes c') = dom (physes c) \<and> dom (nets c') - {n} = dom (nets c) - {n} \<and>
    (ne_state x = LSDN_STATE_NEW \<longrightarrow> nets c' n = None \<and>
      (\<forall>v y. virts c' v = Some y \<longrightarrow> network y \<noteq> n) \<and> (\<forall>a y. pas c' a = Some y \<longrightarrow> pa_net y \<noteq> n))"
proof -
  obtain c' where c': "lsdn_net_free n c = Some c'" "model_inv c'" "dom (settingss c') = dom (settingss c)"
    "dom (physes c') = dom (physes c)" "dom (nets c') - {n} = dom (nets c) - {n}" "ne_state x = LSDN_STATE_NEW \<longrightarrow> nets c' n = None"
    using lsdn_net_free_total [OF assms] by (elim exE conjE) (rule that)
  have own: "owns (nets c') virt_list (virts c') (Some \<circ> network)" "owns (nets c') attached_list (pas c') (Some \<circ> pa_net)"
    using core_invD(2) [OF model_invD(1) [OF c'(2)]] by (simp_all add: owners_inv_def)
  have "network y \<noteq> n" if "nets c' n = None" "virts c' v = Some y" for v y
    using that by (auto elim: owns_owner [OF own(1)])
  moreover have "pa_net y \<noteq> n" if "nets c' n = None" "pas c' a = Some y" for a y
    using that by (auto elim: owns_owner [OF own(2)])
  ultimately show ?thesis using c' by blast
qed

theorem lsdn_net_free_releases_witness:
  "\<exists>c c'. demo = Some c \<and> virts c 4 \<noteq> None \<and> lsdn_net_free 2 c = Some c' \<and> nets c' 2 = None \<and> virts c' 4 = None"
proof -
  have ev: "case demo of None \<Rightarrow> False | Some c \<Rightarrow> map_option ne_state (nets c 2) = Some LSDN_STATE_NEW \<and> map_option network (virts c 4) = Some 2 \<and>
      (case lsdn_net_free 2 c of None \<Rightarrow> False | Some c' \<Rightarrow> virts c' 4 = None)"
    by code_simp
  then obtain c where c: "demo = Some c" and at: "map_option ne_state (nets c 2) = Some LSDN_STATE_NEW" "map_option network (virts c 4) = Some 2"
      "case lsdn_net_free 2 c of None \<Rightarrow> False | Some c' \<Rightarrow> virts c' 4 = None"
    by (rule case_SomeE) blast
  then obtain x where x: "nets c 2 = Some x" "ne_state x = LSDN_STATE_NEW" "virts c 4 \<noteq> None" by auto
  obtain c' where "lsdn_net_free 2 c = Some c'" "nets c' 2 = None"
    using lsdn_net_free_releases [OF demo_inv [OF c] x(1)] by (elim exE conjE) (rule that, assumption, simp add: x(2))
  then show ?thesis using at(3) c x(3) by auto
qed

text \<open>
  C21. \<^verbatim>\<open>lsdn_phys_free\<close> disconnects the virts of the phys. It returns with the invariant unless one of them was freed
  after it was committed: then \<^verbatim>\<open>renew\<close> asserts and the program stops.
\<close>

theorem lsdn_phys_free_aborts_iff:
  assumes inv: "model_inv c" and p: "physes c p = Some x"
  shows "if \<exists>a v y. a \<in> set (attached_to_list x) \<and> virts c v = Some y \<and> connected_through y = Some a \<and> vi_state y = LSDN_STATE_DELETE
    then lsdn_phys_free p c = None
    else \<exists>c'. lsdn_phys_free p c = Some c' \<and> model_inv c' \<and> dom (nets c') = dom (nets c) \<and>
      (ph_state x = LSDN_STATE_NEW \<longrightarrow> physes c' p = None)"
proof -
  have "(\<exists>a\<in>set (attached_to_list x). doomed_at c a) \<longleftrightarrow>
      (\<exists>a v y. a \<in> set (attached_to_list x) \<and> virts c v = Some y \<and> connected_through y = Some a \<and> vi_state y = LSDN_STATE_DELETE)"
    unfolding doomed_at_def by blast
  with lsdn_phys_free_cases [OF assms] show ?thesis by (simp only:)
qed

theorem lsdn_phys_free_aborts_iff_witness:
  "\<exists>c c'. demo = Some c \<and> lsdn_phys_free 3 c = Some c' \<and> physes c' 3 = None"
proof -
  have ev: "case demo of None \<Rightarrow> False | Some c \<Rightarrow> map_option ph_state (physes c 3) = Some LSDN_STATE_NEW \<and> lsdn_phys_free 3 c \<noteq> None"
    by code_simp
  then obtain c where c: "demo = Some c" and at: "map_option ph_state (physes c 3) = Some LSDN_STATE_NEW" "lsdn_phys_free 3 c \<noteq> None"
    by (rule case_SomeE) blast
  then obtain x where x: "physes c 3 = Some x" "ph_state x = LSDN_STATE_NEW" "lsdn_phys_free 3 c \<noteq> None" by auto
  show ?thesis using lsdn_phys_free_aborts_iff [OF demo_inv [OF c] x(1)] x(2,3) c by (auto split: if_splits)
qed

end
