(* ===== verification/NetOps.thy ===== *)
theory NetOps
  imports Model
begin

text \<open>
  The interface between the network model and the back-ends, \<^verbatim>\<open>struct lsdn_net_ops\<close> of
  \<^verbatim>\<open>netmodel/private/net.h\<close>, and \<^verbatim>\<open>lsdn_virt_get_recommended_mtu\<close>, which asks it for
  the overhead of a tunnel. A back-end reads the whole context but changes only its \<open>runtime\<close>; a validation callback
  only reports problems. \<open>None\<close> is a null callback.
\<close>

type_synonym net_op = "ptr \<Rightarrow> lsdn_context \<Rightarrow> (lsdn_err_t \<times> runtime) option"
type_synonym check_op = "ptr \<Rightarrow> lsdn_context \<Rightarrow> reporter option"

record lsdn_net_ops =
  ops_type :: string
  get_port :: "lsdn_settings \<Rightarrow> u16"
  get_ip :: "lsdn_settings \<Rightarrow> lsdn_ip_t option"
  create_pa :: net_op
  add_virt :: "net_op option"
  add_remote_pa :: "net_op option"
  add_remote_virt :: "net_op option"
  destroy_pa :: "net_op option"
  remove_virt :: "net_op option"
  remove_remote_pa :: "net_op option"
  remove_remote_virt :: "net_op option"
  validate_net :: "check_op option"
  validate_pa :: "check_op option"
  validate_virt :: "check_op option"
  compute_tunneling_overhead :: "ptr \<Rightarrow> lsdn_context \<Rightarrow> u32 option"

text \<open>
  What the back-ends provide: the operations of each table, and what the rule engine reads from the program while
  it builds filters.
\<close>

record backends =
  be_ops :: "ops_ptr \<Rightarrow> lsdn_net_ops"
  be_cb :: "lsdn_context \<Rightarrow> callbacks"

definition call_op :: "net_op \<Rightarrow> ptr \<Rightarrow> lsdn_context \<Rightarrow> (lsdn_err_t \<times> lsdn_context) option" where
  "call_op op p c = do { (err, r) \<leftarrow> op p c; Some (err, c\<lparr>run := r\<rparr>) }"

definition call_check :: "check_op option \<Rightarrow> ptr \<Rightarrow> lsdn_context \<Rightarrow> lsdn_context option" where
  "call_check op p c = (case op of None \<Rightarrow> Some c | Some f \<Rightarrow> do { r \<leftarrow> f p c; Some (c\<lparr>rep := r\<rparr>) })"

definition net_ops :: "backends \<Rightarrow> ptr \<Rightarrow> lsdn_context \<Rightarrow> lsdn_net_ops option" where
  "net_ops be n c = do { x \<leftarrow> nets c n; s \<leftarrow> settingss c (ne_settings x); Some (be_ops be (se_ops s)) }"

definition lsdn_virt_get_recommended_mtu ::
    "backends \<Rightarrow> ptr \<Rightarrow> lsdn_context \<Rightarrow> (lsdn_err_t \<times> u32 option \<times> lsdn_context) option" where
  "lsdn_virt_get_recommended_mtu be v c = do {
     x \<leftarrow> virts c v;
     ops \<leftarrow> net_ops be (network x) c;
     let fail = (\<lambda>err c. map_option (\<lambda>(e, c). (e, None, c)) (c_ret_err err c));
     (case connected_through x of
        None \<Rightarrow> fail LSDNE_NOIF c
      | Some a \<Rightarrow> do {
          y \<leftarrow> pas c a;
          p \<leftarrow> physes c (pa_phys y);
          let (ret, c) = lsdn_context_ensure_socket c;
          if ret \<noteq> LSDNE_OK then fail ret c
          else (case attr_iface p of
              None \<Rightarrow> fail LSDNE_NOIF c
            | Some name \<Rightarrow> do {
                (ret, i) \<leftarrow> lsdn_if_resolve \<lparr>ifindex = 0, ifname = Some name\<rparr> (c_nl c);
                if ret \<noteq> LSDNE_OK then fail ret c
                else do {
                  (ret, mtu, nl) \<leftarrow> lsdn_link_get_mtu (ifindex i) (c_nl c);
                  let c = set_nl nl c;
                  if ret \<noteq> LSDNE_OK then fail ret c
                  else do {
                    m \<leftarrow> mtu;
                    overhead \<leftarrow> compute_tunneling_overhead ops a c;
                    (ret, c) \<leftarrow> c_ret_err LSDNE_OK c;
                    Some (ret, Some (m - overhead), c)
                  }
                }
              })
        })
   }"

end
