(* ===== verification/Validate.thy ===== *)
theory Validate
  imports NetOps
begin

text \<open>
  The validation of a network model, \<^verbatim>\<open>lsdn_validate\<close> of \<^verbatim>\<open>netmodel/lsdn.c\<close>. A pass over the model
  first propagates renewals downwards, then reports every problem to the callback and counts it.
\<close>

section \<open>Virts\<close>

definition report_virts :: "ptr \<Rightarrow> lsdn_context \<Rightarrow> lsdn_context option" where
  "report_virts a c = do {
     x \<leftarrow> pas c a;
     foldM (\<lambda>v c. do {
         y \<leftarrow> virts c v;
         if \<not> should_be_validated (vi_state y) then Some c
         else c_report LSDNP_PHYS_NOT_ATTACHED [LSDNS_VIRT v, LSDNS_NET (pa_net x), LSDNS_PHYS (pa_phys x)] c
       }) (connected_virt_list x) c
   }"

text \<open>The constant \<^verbatim>\<open>1e-5\<close> is the double next to it.\<close>

definition rate_epsilon :: rat where
  "rate_epsilon = 5902958103587057 / 590295810358705651712"

definition validate_rate :: "ptr \<Rightarrow> string \<Rightarrow> lsdn_qos_rate_t option \<Rightarrow> lsdn_context \<Rightarrow> lsdn_context option" where
  "validate_rate v attr_name qos c =
     (case qos of
        None \<Rightarrow> Some c
      | Some r \<Rightarrow>
          if avg_rate r \<le> rate_epsilon \<or> burst_size r = 0 \<or> burst_rate r \<le> - rate_epsilon
          then c_report LSDNP_RATES_INVALID [LSDNS_ATTR attr_name, LSDNS_VIRT v] c
          else Some c)"

definition validate_virts_pa :: "backends \<Rightarrow> ptr \<Rightarrow> lsdn_context \<Rightarrow> lsdn_context option" where
  "validate_virts_pa be a c = do {
     x \<leftarrow> pas c a;
     foldM (\<lambda>v c. do {
         y \<leftarrow> virts c v;
         if \<not> should_be_validated (vi_state y) then Some c
         else do {
           x \<leftarrow> pas c a;
           p \<leftarrow> physes c (pa_phys x);
           c \<leftarrow> (if explicitly_attached x \<and> is_local p then do {
               (err, i) \<leftarrow> lsdn_if_resolve (connected_if y) (c_nl c);
               let c = upd_virt v (\<lambda>y. y\<lparr>connected_if := i\<rparr>) c;
               if err \<noteq> LSDNE_OK then c_report LSDNP_VIRT_NOIF [LSDNS_IF v, LSDNS_VIRT v] c else Some c
             } else Some c);
           ops \<leftarrow> net_ops be (pa_net x) c;
           call_check (validate_virt ops) v c
         }
       }) (connected_virt_list x) c
   }"

section \<open>Rules of virts\<close>

text \<open>The first rule and the first one after it with other targets or masks.\<close>

fun incompatible_with :: "(ptr \<Rightarrow> lsdn_vr option) \<Rightarrow> ptr \<Rightarrow> ptr list \<Rightarrow> ptr option option" where
  "incompatible_with h first_rule [] = Some None"
| "incompatible_with h first_rule (r # rs) = do {
     x \<leftarrow> h first_rule;
     y \<leftarrow> h r;
     if vr_targets x = vr_targets y \<and> vr_masks x = vr_masks y then incompatible_with h first_rule rs
     else Some (Some r)
   }"

text \<open>Masks the rules in place and looks each one up among those before it.\<close>

fun duplicate_rule :: "(lsdn_matchdata list \<times> ptr) list \<Rightarrow> ptr list \<Rightarrow> lsdn_context \<Rightarrow> ((ptr \<times> ptr) option \<times> lsdn_context) option" where
  "duplicate_rule rule_ht [] c = Some (None, c)"
| "duplicate_rule rule_ht (r # rs) c = do {
     y \<leftarrow> vrs c r;
     rule \<leftarrow> r_rules (c_rules (run c)) (R_vr r);
     rule \<leftarrow> lsdn_rule_apply_mask (vr_targets y) (vr_masks y) rule;
     let c = set_rules (put_rule (R_vr r) rule (c_rules (run c))) c;
     (case map_of rule_ht (rule_matches rule) of
        Some duplicate \<Rightarrow> Some (Some (r, duplicate), c)
      | None \<Rightarrow> duplicate_rule ((rule_matches rule, r) # rule_ht) rs c)
   }"

fun validate_rules :: "ptr \<Rightarrow> vr_prio list \<Rightarrow> lsdn_context \<Rightarrow> lsdn_context option" where
  "validate_rules virt [] c = Some c"
| "validate_rules virt (prio # prios) c = do {
     other \<leftarrow> (case rules_list prio of [] \<Rightarrow> Some None | r # rs \<Rightarrow> incompatible_with (vrs c) r rs);
     (case other of
        Some r \<Rightarrow> c_report LSDNP_VR_INCOMPATIBLE_MATCH [LSDNS_VR (hd (rules_list prio)), LSDNS_VR r, LSDNS_VIRT virt] c
      | None \<Rightarrow> do {
          (dup, c) \<leftarrow> duplicate_rule [] (rules_list prio) c;
          (case dup of
             Some (r, d) \<Rightarrow> c_report LSDNP_VR_DUPLICATE_RULE [LSDNS_VR r, LSDNS_VR d, LSDNS_VIRT virt] c
           | None \<Rightarrow> validate_rules virt prios c)
        })
   }"

section \<open>Networks\<close>

definition validate_virts_net :: "ptr \<Rightarrow> lsdn_context \<Rightarrow> lsdn_context option" where
  "validate_virts_net n c = do {
     x \<leftarrow> nets c n;
     foldM (\<lambda>v1 c. do {
         y1 \<leftarrow> virts c v1;
         c \<leftarrow> validate_rules v1 (ht_in_rules y1) c;
         c \<leftarrow> validate_rules v1 (ht_out_rules y1) c;
         c \<leftarrow> validate_rate v1 ''rate_in'' (attr_rate_in y1) c;
         c \<leftarrow> validate_rate v1 ''rate_out'' (attr_rate_out y1) c;
         (case attr_mac y1 of
            None \<Rightarrow> Some c
          | Some m1 \<Rightarrow>
              if \<not> should_be_validated (vi_state y1) then Some c
              else foldM (\<lambda>v2 c. do {
                  y2 \<leftarrow> virts c v2;
                  (case attr_mac y2 of
                     None \<Rightarrow> Some c
                   | Some m2 \<Rightarrow>
                       if v1 = v2 \<or> \<not> should_be_validated (vi_state y2) then Some c
                       else if lsdn_mac_eq m1 m2 then
                         c_report LSDNP_VIRT_DUPATTR [LSDNS_ATTR ''mac'', LSDNS_VIRT v1, LSDNS_VIRT v2, LSDNS_NET n] c
                       else Some c)
                }) (virt_list x) c)
       }) (virt_list x) c
   }"

text \<open>Whether an attachment of the list is local.\<close>

fun any_local :: "lsdn_context \<Rightarrow> ptr list \<Rightarrow> bool option" where
  "any_local c [] = Some False"
| "any_local c (a # as) = do {
     x \<leftarrow> pas c a;
     p \<leftarrow> physes c (pa_phys x);
     rest \<leftarrow> any_local c as;
     Some (is_local p \<or> rest)
   }"

text \<open>
  The nested loops over the attachments of both networks set the flag when each has a local one; the list of the
  second network is read only when the first one has.
\<close>

definition cross_validate_networks :: "ptr \<Rightarrow> ptr \<Rightarrow> lsdn_context \<Rightarrow> lsdn_context option" where
  "cross_validate_networks n1 n2 c = do {
     net1 \<leftarrow> nets c n1;
     net2 \<leftarrow> nets c n2;
     s1 \<leftarrow> settingss c (ne_settings net1);
     s2 \<leftarrow> settingss c (ne_settings net2);
     c \<leftarrow> (if nettype s1 = nettype s2 \<and> vnet_id net1 = vnet_id net2
          then c_report LSDNP_NET_DUPID [LSDNS_NET n1, LSDNS_NET n2, LSDNS_NETID (vnet_id net1)] c else Some c);
     local1 \<leftarrow> any_local c (attached_list net1);
     local2 \<leftarrow> (if local1 then any_local c (attached_list net2) else Some False);
     if local1 \<and> local2 \<and> nettype s1 = LSDN_NET_VXLAN \<and> nettype s2 = LSDN_NET_VXLAN \<and>
        switch_type s1 = LSDN_STATIC_E2E \<and> switch_type s2 \<noteq> LSDN_STATIC_E2E \<and> se_port s1 = se_port s2
     then c_report LSDNP_NET_BAD_NETTYPE [LSDNS_NET n1, LSDNS_NET n2] c
     else Some c
   }"

section \<open>The whole model\<close>

text \<open>Renewals of physes and networks reach their attachments, those of attachments their virts.\<close>

definition propagate_pa :: "lsdn_state \<Rightarrow> ptr \<Rightarrow> lsdn_context \<Rightarrow> lsdn_context option" where
  "propagate_pa src a c = do {
     _ \<leftarrow> pas c a;
     Some (upd_pa a (\<lambda>x. x\<lparr>pa_state := propagate src (pa_state x)\<rparr>) c)
   }"

definition propagate_states :: "lsdn_context \<Rightarrow> lsdn_context option" where
  "propagate_states c = do {
     c \<leftarrow> foldM (\<lambda>p c. do {
         x \<leftarrow> physes c p;
         foldM (propagate_pa (ph_state x)) (attached_to_list x) c
       }) (phys_list c) c;
     c \<leftarrow> foldM (\<lambda>n c. do {
         x \<leftarrow> nets c n;
         foldM (propagate_pa (ne_state x)) (attached_list x) c
       }) (networks_list c) c;
     foldM (\<lambda>n c. do {
         x \<leftarrow> nets c n;
         foldM (\<lambda>v c. do {
             y \<leftarrow> virts c v;
             (case connected_through y of
                None \<Rightarrow> Some c
              | Some a \<Rightarrow> do {
                  z \<leftarrow> pas c a;
                  Some (upd_virt v (\<lambda>y. y\<lparr>vi_state := propagate (pa_state z) (vi_state y)\<rparr>) c)
                })
           }) (virt_list x) c
       }) (networks_list c) c
   }"

definition validate_networks :: "lsdn_context \<Rightarrow> lsdn_context option" where
  "validate_networks c =
     foldM (\<lambda>n1 c. do {
         x1 \<leftarrow> nets c n1;
         if will_be_deleted (ne_state x1) then Some c
         else do {
           c \<leftarrow> validate_virts_net n1 c;
           foldM (\<lambda>n2 c. do {
               x2 \<leftarrow> nets c n2;
               if n1 \<noteq> n2 \<and> \<not> will_be_deleted (ne_state x2) then cross_validate_networks n1 n2 c else Some c
             }) (networks_list c) c
         }
       }) (networks_list c) c"

definition validate_attachment :: "backends \<Rightarrow> ptr \<Rightarrow> ptr \<Rightarrow> lsdn_context \<Rightarrow> lsdn_context option" where
  "validate_attachment be p a c = do {
     x \<leftarrow> pas c a;
     if \<not> explicitly_attached x then report_virts a c
     else do {
       px \<leftarrow> physes c p;
       c \<leftarrow> (if is_local px \<and> attr_iface px = None
            then c_report LSDNP_PHYS_NOATTR [LSDNS_ATTR ''iface'', LSDNS_PHYS p, LSDNS_NET (pa_net x)] c else Some c);
       ops \<leftarrow> net_ops be (pa_net x) c;
       c \<leftarrow> (if should_be_validated (pa_state x) then call_check (validate_pa ops) a c else Some c);
       validate_virts_pa be a c
     }
   }"

definition validate_physes :: "backends \<Rightarrow> lsdn_context \<Rightarrow> lsdn_context option" where
  "validate_physes be c =
     foldM (\<lambda>p c. do {
         x \<leftarrow> physes c p;
         if will_be_deleted (ph_state x) then Some c
         else do {
           c \<leftarrow> foldM (validate_attachment be p) (attached_to_list x) c;
           foldM (\<lambda>q c. do {
               y \<leftarrow> physes c q;
               if p = q \<or> will_be_deleted (ph_state y) then Some c
               else (case (attr_ip x, attr_ip y) of
                   (Some i, Some j) \<Rightarrow>
                     if lsdn_ip_eq i j then c_report LSDNP_PHYS_DUPATTR [LSDNS_ATTR ''ip'', LSDNS_PHYS p, LSDNS_PHYS q] c else Some c
                 | _ \<Rightarrow> Some c)
             }) (phys_list c) c
         }
       }) (phys_list c) c"

text \<open>The address of the phys of an attachment, if the phys stays and has one.\<close>

definition pa_address :: "ptr \<Rightarrow> lsdn_context \<Rightarrow> (ptr \<times> lsdn_ip_t option) option" where
  "pa_address a c = do {
     x \<leftarrow> pas c a;
     p \<leftarrow> physes c (pa_phys x);
     Some (pa_phys x, if will_be_deleted (ph_state p) then None else attr_ip p)
   }"

definition validate_ip_versions :: "lsdn_context \<Rightarrow> lsdn_context option" where
  "validate_ip_versions c =
     foldM (\<lambda>n c. do {
         x \<leftarrow> nets c n;
         foldM (\<lambda>a c. do {
             (p, ip) \<leftarrow> pa_address a c;
             (case ip of
                None \<Rightarrow> Some c
              | Some i \<Rightarrow> foldM (\<lambda>b c.
                  if a = b then Some c
                  else do {
                    (q, ip') \<leftarrow> pa_address b c;
                    (case ip' of
                       None \<Rightarrow> Some c
                     | Some j \<Rightarrow>
                         if \<not> lsdn_ipv_eq i j
                         then c_report LSDNP_PHYS_INCOMPATIBLE_IPV [LSDNS_PHYS p, LSDNS_PHYS q, LSDNS_NET n] c
                         else Some c)
                  }) (attached_list x) c)
           }) (attached_list x) c
       }) (networks_list c) c"

definition lsdn_validate :: "backends \<Rightarrow> lsdn_problem_cb \<Rightarrow> lsdn_context \<Rightarrow> (lsdn_err_t \<times> lsdn_context) option" where
  "lsdn_validate be cb c = do {
     let c = c\<lparr>rep := (rep c)\<lparr>problem_cb := cb, problem_count := 0, inconsistent := False\<rparr>\<rparr>;
     c \<leftarrow> propagate_states c;
     c \<leftarrow> validate_networks c;
     c \<leftarrow> validate_physes be c;
     c \<leftarrow> validate_ip_versions c;
     Some (if problem_count (rep c) = 0 then LSDNE_OK else LSDNE_VALIDATE, c)
   }"

end
