(* ===== verification/Commit.thy ===== *)
theory Commit
  imports Validate
begin

text \<open>
  \<^verbatim>\<open>lsdn_commit\<close> of \<^verbatim>\<open>netmodel/lsdn.c\<close>. After a successful validation the commit first removes what belongs
  to deleted and renewed objects (decommit), then creates what new objects need on the local machine (recommit),
  then acknowledges the states. Failures of single steps are recorded in the state of the object they belong to.
\<close>

text \<open>\<^verbatim>\<open>mark_commit_err\<close> on the state of a virt or of an attachment.\<close>

definition mark_virt :: "ptr \<Rightarrow> bool \<Rightarrow> lsdn_err_t \<Rightarrow> lsdn_context \<Rightarrow> (bool \<times> lsdn_context) option" where
  "mark_virt v fatal err c = do {
     x \<leftarrow> virts c v;
     (r, s, rp) \<leftarrow> mark_commit_err (rep c) (vi_state x) (LSDNS_VIRT v) fatal err;
     Some (r, (upd_virt v (\<lambda>x. x\<lparr>vi_state := s\<rparr>) c)\<lparr>rep := rp\<rparr>)
   }"

definition mark_pa :: "ptr \<Rightarrow> bool \<Rightarrow> lsdn_err_t \<Rightarrow> lsdn_context \<Rightarrow> (bool \<times> lsdn_context) option" where
  "mark_pa a fatal err c = do {
     x \<leftarrow> pas c a;
     (r, s, rp) \<leftarrow> mark_commit_err (rep c) (pa_state x) (LSDNS_PA a) fatal err;
     Some (r, (upd_pa a (\<lambda>x. x\<lparr>pa_state := s\<rparr>) c)\<lparr>rep := rp\<rparr>)
   }"

text \<open>A callback that may be null, whose error is recorded.\<close>

definition run_op ::
    "net_op option \<Rightarrow> ptr \<Rightarrow> (lsdn_err_t \<Rightarrow> lsdn_context \<Rightarrow> (bool \<times> lsdn_context) option) \<Rightarrow> lsdn_context
      \<Rightarrow> (bool \<times> lsdn_context) option" where
  "run_op op p mark c =
     (case op of
        None \<Rightarrow> Some (False, c)
      | Some f \<Rightarrow> do { (err, c) \<leftarrow> call_op f p c; mark err c })"

section \<open>Rules of virts\<close>

text \<open>The egress of a virt is the ingress of its interface on the host.\<close>

definition dir_ruleset :: "lsdn_direction \<Rightarrow> ptr \<Rightarrow> ruleset_ptr" where
  "dir_ruleset dir v = (if dir = LSDN_IN then RS_virt_out v else RS_virt_in v)"

definition upd_prio :: "ptr \<Rightarrow> lsdn_direction \<Rightarrow> u16 \<Rightarrow> (vr_prio \<Rightarrow> vr_prio) \<Rightarrow> lsdn_context \<Rightarrow> lsdn_context" where
  "upd_prio virt dir n f c = upd_virt virt (upd_ht dir (upd_vr_prio n f)) c"

definition commit_vr :: "backends \<Rightarrow> ptr \<Rightarrow> lsdn_direction \<Rightarrow> u16 \<Rightarrow> ptr \<Rightarrow> lsdn_context \<Rightarrow> lsdn_context option" where
  "commit_vr be virt dir n vr c = do {
     x \<leftarrow> virts c virt;
     prio \<leftarrow> find_vr_prio n (ht_rules dir x);
     let rs = dir_ruleset dir virt;
     c \<leftarrow> (if commited_count prio = 0 then do {
         c_assert (\<not> commited_prio prio);
         y \<leftarrow> vrs c vr;
         rule \<leftarrow> r_rules (c_rules (run c)) (R_vr vr);
         let st = put_rule (R_vr vr) (rule\<lparr>rule_subprio := LSDN_VR_SUBPRIO\<rparr>) (c_rules (run c));
         (ok, st) \<leftarrow> lsdn_ruleset_define_prio rs n st;
         c_assert ok;
         (s, p) \<leftarrow> get_prio st rs n;
         let st = put_prio rs s (p\<lparr>prio_targets := vr_targets y, prio_masks := vr_masks y\<rparr>) st;
         Some (upd_prio virt dir n (\<lambda>pr. pr\<lparr>commited_prio := True\<rparr>) (set_rules st c))
       } else Some c);
     (err, st) \<leftarrow> lsdn_ruleset_add (be_cb be c) rs n (R_vr vr) (c_rules (run c));
     c_assert (err = LSDNE_OK);
     Some (upd_prio virt dir n (\<lambda>pr. pr\<lparr>commited_count := commited_count pr + 1\<rparr>) (set_rules st c))
   }"

definition commit_rules :: "backends \<Rightarrow> ptr \<Rightarrow> lsdn_direction \<Rightarrow> lsdn_context \<Rightarrow> lsdn_context option" where
  "commit_rules be virt dir c = do {
     x \<leftarrow> virts c virt;
     foldM (\<lambda>prio. foldM (\<lambda>r c. do {
         y \<leftarrow> vrs c r;
         c \<leftarrow> (if vr_state y = LSDN_STATE_NEW then commit_vr be virt dir (vr_prio_num prio) r c else Some c);
         Some (upd_vr r (\<lambda>y. y\<lparr>vr_state := ack_state (vr_state y)\<rparr>) c)
       }) (rules_list prio)) (ht_rules dir x) c
   }"

text \<open>The counter is a \<^verbatim>\<open>size_t\<close>: below zero it wraps.\<close>

definition decommit_vr :: "backends \<Rightarrow> ptr \<Rightarrow> lsdn_direction \<Rightarrow> u16 \<Rightarrow> ptr \<Rightarrow> lsdn_context \<Rightarrow> lsdn_context option" where
  "decommit_vr be virt dir n vr c = do {
     (_, st) \<leftarrow> lsdn_ruleset_remove (be_cb be c) (R_vr vr) (c_rules (run c));
     let c = upd_prio virt dir n (\<lambda>pr. pr\<lparr>commited_count :=
       if commited_count pr = 0 then 2 ^ 64 - 1 else commited_count pr - 1\<rparr>) (set_rules st c);
     x \<leftarrow> virts c virt;
     prio \<leftarrow> find_vr_prio n (ht_rules dir x);
     if commited_count prio = 0 then do {
       c_assert (commited_prio prio);
       (_, st) \<leftarrow> lsdn_ruleset_remove_prio (dir_ruleset dir virt) n (c_rules (run c));
       Some (upd_prio virt dir n (\<lambda>pr. pr\<lparr>commited_prio := False\<rparr>) (set_rules st c))
     }
     else Some c
   }"

definition decommit_rules :: "backends \<Rightarrow> ptr \<Rightarrow> lsdn_direction \<Rightarrow> lsdn_context \<Rightarrow> lsdn_context option" where
  "decommit_rules be virt dir c = do {
     x \<leftarrow> virts c virt;
     foldM (\<lambda>prio. foldM (\<lambda>r c. do {
         x \<leftarrow> virts c virt;
         y \<leftarrow> vrs c r;
         let (decommit, s) = ack_decommit (propagate (vi_state x) (vr_state y));
         let c = upd_vr r (\<lambda>y. y\<lparr>vr_state := s\<rparr>) c;
         if decommit then decommit_vr be virt dir (vr_prio_num prio) r c else Some c
       }) (rules_list prio)) (ht_rules dir x) c
   }"

section \<open>Rates\<close>

text \<open>
  The conversion of a \<^verbatim>\<open>float\<close> to \<^verbatim>\<open>uint32_t\<close> truncates towards zero and is undefined outside of the range.
\<close>

definition u32_of_float :: "rat \<Rightarrow> u32 option" where
  "u32_of_float r = (if -1 < r \<and> r < 2 ^ 32 then Some (if r < 0 then 0 else of_int \<lfloor>r\<rfloor>) else None)"

definition rates_action :: "nlenv \<Rightarrow> lsdn_qos_rate_t \<Rightarrow> u16 \<Rightarrow> lsdn_filter \<Rightarrow> lsdn_filter option" where
  "rates_action nl r order f = do {
     avg \<leftarrow> u32_of_float (avg_rate r);
     peak \<leftarrow> u32_of_float (burst_rate r);
     Some (lsdn_action_continue (order + 1)
       (lsdn_action_police nl order avg (burst_size r) peak 0xFFFF TC_ACT_PIPE TC_ACT_SHOT f))
   }"

definition rates_action_in :: "lsdn_context \<Rightarrow> ptr \<Rightarrow> u16 \<Rightarrow> lsdn_filter \<Rightarrow> lsdn_filter option" where
  "rates_action_in c v order f = do { x \<leftarrow> virts c v; r \<leftarrow> attr_rate_in x; rates_action (c_nl c) r order f }"

definition rates_action_out :: "lsdn_context \<Rightarrow> ptr \<Rightarrow> u16 \<Rightarrow> lsdn_filter \<Rightarrow> lsdn_filter option" where
  "rates_action_out c v order f = do { x \<leftarrow> virts c v; r \<leftarrow> attr_rate_out x; rates_action (c_nl c) r order f }"

text \<open>
  The two uses of \<^verbatim>\<open>commit_rates_inout\<close> differ in the fields of the virt, its rule set and the callback.
  The result of the failed addition is overwritten by that of removing the priority.
\<close>

definition set_policing :: "lsdn_direction \<Rightarrow> bool \<Rightarrow> ptr \<Rightarrow> lsdn_context \<Rightarrow> lsdn_context" where
  "set_policing dir b v c =
     upd_virt v (\<lambda>x. if dir = LSDN_IN then x\<lparr>commited_policing_in := b\<rparr> else x\<lparr>commited_policing_out := b\<rparr>) c"

definition policing_rule :: "lsdn_direction \<Rightarrow> ptr \<Rightarrow> rule_ptr" where
  "policing_rule dir v = (if dir = LSDN_IN then R_policing_in v else R_policing_out v)"

definition policing_fn :: "lsdn_direction \<Rightarrow> ptr \<Rightarrow> mkaction" where
  "policing_fn dir v = (if dir = LSDN_IN then Fn_rates_in v else Fn_rates_out v)"

definition commit_rates_inout :: "backends \<Rightarrow> ptr \<Rightarrow> lsdn_direction \<Rightarrow> lsdn_context \<Rightarrow> (lsdn_err_t \<times> lsdn_context) option" where
  "commit_rates_inout be v dir c = do {
     let rs = dir_ruleset dir v;
     (ok, st) \<leftarrow> lsdn_ruleset_define_prio rs LSDN_IF_PRIO_POLICING (c_rules (run c));
     let c = set_policing dir ok v (set_rules st c);
     if \<not> ok then Some (LSDNE_NOMEM, c)
     else do {
       rule \<leftarrow> r_rules st (policing_rule dir v);
       let st = put_rule (policing_rule dir v)
         (rule\<lparr>rule_subprio := 0, rule_action := lsdn_action_init 2 (policing_fn dir v)\<rparr>) st;
       (err, st) \<leftarrow> lsdn_ruleset_add (be_cb be c) rs LSDN_IF_PRIO_POLICING (policing_rule dir v) st;
       if err \<noteq> LSDNE_OK then do {
         (err, st) \<leftarrow> lsdn_ruleset_remove_prio rs LSDN_IF_PRIO_POLICING st;
         let c = set_rules st c;
         if err \<noteq> LSDNE_OK then Some (LSDNE_INCONSISTENT, c\<lparr>rep := (rep c)\<lparr>inconsistent := True\<rparr>\<rparr>)
         else Some (LSDNE_OK, set_policing dir False v c)
       }
       else Some (LSDNE_OK, set_rules st c)
     }
   }"

definition decommit_rates_inout :: "backends \<Rightarrow> ptr \<Rightarrow> lsdn_direction \<Rightarrow> lsdn_context \<Rightarrow> lsdn_context option" where
  "decommit_rates_inout be v dir c = do {
     x \<leftarrow> virts c v;
     if (if dir = LSDN_IN then commited_policing_in x else commited_policing_out x) then do {
       (err, st) \<leftarrow> lsdn_ruleset_remove (be_cb be c) (policing_rule dir v) (c_rules (run c));
       (_, c) \<leftarrow> mark_virt v True err (set_rules st c);
       (err, st) \<leftarrow> lsdn_ruleset_remove_prio (dir_ruleset dir v) LSDN_IF_PRIO_POLICING (c_rules (run c));
       (_, c) \<leftarrow> mark_virt v True err (set_rules st c);
       Some (set_policing dir False v c)
     }
     else Some c
   }"

definition decommit_rates :: "backends \<Rightarrow> ptr \<Rightarrow> lsdn_context \<Rightarrow> lsdn_context option" where
  "decommit_rates be v c = do { c \<leftarrow> decommit_rates_inout be v LSDN_IN c; decommit_rates_inout be v LSDN_OUT c }"

definition commit_rates :: "backends \<Rightarrow> ptr \<Rightarrow> lsdn_context \<Rightarrow> (lsdn_err_t \<times> lsdn_context) option" where
  "commit_rates be v c = do {
     x \<leftarrow> virts c v;
     (err, c) \<leftarrow> (if attr_rate_in x \<noteq> None then commit_rates_inout be v LSDN_IN c else Some (LSDNE_OK, c));
     if err \<noteq> LSDNE_OK then Some (err, c)
     else do {
       (err, c) \<leftarrow> (if attr_rate_out x \<noteq> None then commit_rates_inout be v LSDN_OUT c else Some (LSDNE_OK, c));
       if err \<noteq> LSDNE_OK then do { c \<leftarrow> decommit_rates be v c; Some (err, c) }
       else Some (LSDNE_OK, c)
     }
   }"

section \<open>Decommit\<close>

definition decommit_remote_virt :: "backends \<Rightarrow> ptr \<Rightarrow> lsdn_context \<Rightarrow> lsdn_context option" where
  "decommit_remote_virt be rv c = do {
     r \<leftarrow> rvirts c rv;
     x \<leftarrow> virts c (rv_virt r);
     ops \<leftarrow> net_ops be (network x) c;
     (_, c) \<leftarrow> run_op (remove_remote_virt ops) rv (mark_virt (rv_virt r) True) c;
     let c = upd_rpa (rv_pa r) (\<lambda>p. p\<lparr>remote_virt_list := remove1 rv (remote_virt_list p)\<rparr>) c;
     let c = upd_virt (rv_virt r) (\<lambda>x. x\<lparr>virt_view_list := remove1 rv (virt_view_list x)\<rparr>) c;
     Some (c\<lparr>rvirts := (rvirts c)(rv := None)\<rparr>)
   }"

text \<open>The attachment a virt is committed to is read for the log message before the callback runs.\<close>

definition decommit_virt :: "backends \<Rightarrow> ptr \<Rightarrow> lsdn_context \<Rightarrow> lsdn_context option" where
  "decommit_virt be v c = do {
     x \<leftarrow> virts c v;
     ops \<leftarrow> net_ops be (network x) c;
     c \<leftarrow> decommit_rates be v c;
     c \<leftarrow> decommit_rules be v LSDN_IN c;
     c \<leftarrow> decommit_rules be v LSDN_OUT c;
     y \<leftarrow> virts c v;
     c \<leftarrow> foldM (decommit_remote_virt be) (virt_view_list y) c;
     (case committed_to x of
        None \<Rightarrow> Some c
      | Some a \<Rightarrow> do {
          (_, c) \<leftarrow> (if remove_virt ops = None then Some (False, c)
               else do { _ \<leftarrow> pas c a; run_op (remove_virt ops) v (mark_virt v True) c });
          Some (upd_virt v (\<lambda>x. x\<lparr>committed_to := None, committed_if := lsdn_if_reset (committed_if x)\<rparr>) c)
        })
   }"

definition decommit_remote_pa :: "backends \<Rightarrow> ptr \<Rightarrow> lsdn_context \<Rightarrow> lsdn_context option" where
  "decommit_remote_pa be rpa c = do {
     r \<leftarrow> rpas c rpa;
     l \<leftarrow> pas c (rp_local r);
     ops \<leftarrow> net_ops be (pa_net l) c;
     c \<leftarrow> foldM (decommit_remote_virt be) (remote_virt_list r) c;
     (_, c) \<leftarrow> run_op (remove_remote_pa ops) rpa (mark_pa (rp_remote r) True) c;
     let c = upd_pa (rp_remote r) (\<lambda>x. x\<lparr>pa_view_list := remove1 rpa (pa_view_list x)\<rparr>) c;
     let c = upd_pa (rp_local r) (\<lambda>x. x\<lparr>remote_pa_list := remove1 rpa (remote_pa_list x)\<rparr>) c;
     q \<leftarrow> rpas c rpa;
     c_assert (remote_virt_list q = []);
     Some (c\<lparr>rpas := (rpas c)(rpa := None)\<rparr>)
   }"

definition decommit_pa :: "backends \<Rightarrow> ptr \<Rightarrow> lsdn_context \<Rightarrow> lsdn_context option" where
  "decommit_pa be a c = do {
     x \<leftarrow> pas c a;
     ops \<leftarrow> net_ops be (pa_net x) c;
     c \<leftarrow> foldM (decommit_remote_pa be) (pa_view_list x) c;
     x \<leftarrow> pas c a;
     c \<leftarrow> foldM (decommit_remote_pa be) (remote_pa_list x) c;
     p \<leftarrow> physes c (pa_phys x);
     if committed_as_local p then do { (_, c) \<leftarrow> run_op (destroy_pa ops) a (mark_pa a True) c; Some c }
     else Some c
   }"

section \<open>Recommit\<close>

text \<open>
  Committing a virt. The result says whether the iteration goes on to the rules of the virt: \<open>False\<close> is a
  \<^verbatim>\<open>continue\<close>. The interface handle \<open>if2\<close> keeps the old value for the roll back.
\<close>

definition commit_new_virt :: "backends \<Rightarrow> lsdn_net_ops \<Rightarrow> ptr \<Rightarrow> ptr \<Rightarrow> lsdn_context \<Rightarrow> (bool \<times> lsdn_context) option" where
  "commit_new_virt be ops a v c = do {
     x \<leftarrow> virts c v;
     let old_committed_to = committed_to x;
     let (err, if2, nl) = lsdn_if_copy lsdn_if_init (connected_if x) (c_nl c);
     let c = set_nl nl c;
     if err \<noteq> LSDNE_OK then do {
       c \<leftarrow> c_report LSDNP_COMMIT_NOMEM [LSDNS_VIRT v] (upd_virt v (\<lambda>x. x\<lparr>vi_state := LSDN_STATE_ERR\<rparr>) c);
       Some (False, c)
     }
     else do {
       let (if2, i) = lsdn_if_swap if2 (committed_if x);
       let roll_back = (\<lambda>c. upd_virt v (\<lambda>x. x\<lparr>committed_to := old_committed_to, committed_if := if2\<rparr>) c);
       let c = upd_virt v (\<lambda>x. x\<lparr>committed_to := Some a, committed_if := i\<rparr>) c;
       (failed, c) \<leftarrow> run_op (add_virt ops) v (mark_virt v False) c;
       if failed then Some (False, roll_back c)
       else do {
         (err, c) \<leftarrow> commit_rates be v c;
         (failed, c) \<leftarrow> mark_virt v False err c;
         if \<not> failed then Some (True, c)
         else do {
           x \<leftarrow> virts c v;
           if vi_state x = LSDN_STATE_ERR then do {
             op \<leftarrow> remove_virt ops;
             (err, c) \<leftarrow> call_op op v c;
             if err \<noteq> LSDNE_OK then
               Some (False, (upd_virt v (\<lambda>x. x\<lparr>vi_state := LSDN_STATE_FAIL\<rparr>) c)\<lparr>rep := (rep c)\<lparr>inconsistent := True\<rparr>\<rparr>)
             else Some (False, roll_back c)
           }
           else Some (False, c)
         }
       }
     }
   }"

definition commit_virt :: "backends \<Rightarrow> lsdn_net_ops \<Rightarrow> ptr \<Rightarrow> ptr \<Rightarrow> lsdn_context \<Rightarrow> lsdn_context option" where
  "commit_virt be ops a v c = do {
     x \<leftarrow> virts c v;
     (go, c) \<leftarrow> (if vi_state x = LSDN_STATE_NEW then commit_new_virt be ops a v c else Some (True, c));
     if \<not> go then Some c
     else do {
       x \<leftarrow> virts c v;
       if state_ok (vi_state x) then do { c \<leftarrow> commit_rules be v LSDN_IN c; commit_rules be v LSDN_OUT c }
       else Some c
     }
   }"

definition commit_remote_pa :: "backends \<Rightarrow> lsdn_net_ops \<Rightarrow> ptr \<Rightarrow> ptr \<Rightarrow> lsdn_context \<Rightarrow> lsdn_context option" where
  "commit_remote_pa be ops a remote c =
     (if remote = a then Some c
      else do {
        x \<leftarrow> pas c a;
        y \<leftarrow> pas c remote;
        if pa_state x \<noteq> LSDN_STATE_NEW \<and> pa_state y \<noteq> LSDN_STATE_NEW then Some c
        else (case c_malloc c of
            (None, c) \<Rightarrow> do {
              c \<leftarrow> c_report LSDNP_COMMIT_NOMEM [LSDNS_PA a] c;
              decommit_pa be remote (upd_pa a (\<lambda>x. x\<lparr>pa_state := LSDN_STATE_ERR\<rparr>) c)
            }
          | (Some rpa, c) \<Rightarrow> do {
              let c = c\<lparr>rpas := (rpas c)(rpa \<mapsto> \<lparr>rp_local = a, rp_remote = remote, remote_virt_list = []\<rparr>)\<rparr>;
              let c = upd_pa remote (\<lambda>y. y\<lparr>pa_view_list := rpa # pa_view_list y\<rparr>) c;
              let c = upd_pa a (\<lambda>x. x\<lparr>remote_pa_list := rpa # remote_pa_list x\<rparr>) c;
              (failed, c) \<leftarrow> run_op (add_remote_pa ops) rpa (mark_pa remote False) c;
              if failed then do {
                let c = upd_pa remote (\<lambda>y. y\<lparr>pa_view_list := remove1 rpa (pa_view_list y)\<rparr>) c;
                let c = upd_pa a (\<lambda>x. x\<lparr>remote_pa_list := remove1 rpa (remote_pa_list x)\<rparr>) c;
                decommit_pa be remote (c\<lparr>rpas := (rpas c)(rpa := None)\<rparr>)
              }
              else Some c
            })
      })"

definition commit_remote_virt :: "backends \<Rightarrow> lsdn_net_ops \<Rightarrow> ptr \<Rightarrow> ptr \<Rightarrow> ptr \<Rightarrow> lsdn_context \<Rightarrow> lsdn_context option" where
  "commit_remote_virt be ops a remote v c = do {
     x \<leftarrow> pas c a;
     y \<leftarrow> virts c v;
     if pa_state x \<noteq> LSDN_STATE_NEW \<and> vi_state y \<noteq> LSDN_STATE_NEW then Some c
     else (case c_malloc c of
         (None, c) \<Rightarrow> do {
           c \<leftarrow> c_report LSDNP_COMMIT_NOMEM [LSDNS_VIRT v] c;
           decommit_virt be v (upd_pa a (\<lambda>x. x\<lparr>pa_state := LSDN_STATE_ERR\<rparr>) c)
         }
       | (Some rvirt, c) \<Rightarrow> do {
           let c = c\<lparr>rvirts := (rvirts c)(rvirt \<mapsto> \<lparr>rv_pa = remote, rv_virt = v\<rparr>)\<rparr>;
           let c = upd_virt v (\<lambda>y. y\<lparr>virt_view_list := rvirt # virt_view_list y\<rparr>) c;
           let c = upd_rpa remote (\<lambda>p. p\<lparr>remote_virt_list := rvirt # remote_virt_list p\<rparr>) c;
           (failed, c) \<leftarrow> run_op (add_remote_virt ops) rvirt (mark_virt v False) c;
           if failed then decommit_virt be v c else Some c
         })
   }"

definition commit_pa :: "backends \<Rightarrow> ptr \<Rightarrow> lsdn_context \<Rightarrow> lsdn_context option" where
  "commit_pa be a c = do {
     x \<leftarrow> pas c a;
     ops \<leftarrow> net_ops be (pa_net x) c;
     (_, c) \<leftarrow> (if pa_state x = LSDN_STATE_NEW then run_op (Some (create_pa ops)) a (mark_pa a False) c else Some (False, c));
     x \<leftarrow> pas c a;
     if \<not> state_ok (pa_state x) then Some c
     else do {
       c \<leftarrow> foldM (commit_virt be ops a) (connected_virt_list x) c;
       n \<leftarrow> nets c (pa_net x);
       c \<leftarrow> foldM (commit_remote_pa be ops a) (attached_list n) c;
       x \<leftarrow> pas c a;
       foldM (\<lambda>remote c. do {
           r \<leftarrow> rpas c remote;
           y \<leftarrow> pas c (rp_remote r);
           foldM (commit_remote_virt be ops a remote) (connected_virt_list y) c
         }) (remote_pa_list x) c
     }
   }"

section \<open>The commit\<close>

text \<open>The hooks belong to the user; their calls are recorded with the user pointer, the network and the phys.\<close>

definition trigger_startup_hooks :: "lsdn_context \<Rightarrow> lsdn_context option" where
  "trigger_startup_hooks c =
     foldM (\<lambda>p c. do {
         x \<leftarrow> physes c p;
         if is_local x then
           foldM (\<lambda>a c. do {
               y \<leftarrow> pas c a;
               n \<leftarrow> nets c (pa_net y);
               s \<leftarrow> settingss c (ne_settings n);
               Some (case startup_hook s of None \<Rightarrow> c | Some user \<Rightarrow> c\<lparr>hook_log := (user, pa_net y, p) # hook_log c\<rparr>)
             }) (attached_to_list x) c
         else Some c
       }) (phys_list c) c"

definition sweep_virt :: "backends \<Rightarrow> ptr \<Rightarrow> lsdn_context \<Rightarrow> lsdn_context option" where
  "sweep_virt be v c = do {
     x \<leftarrow> virts c v;
     let (decommit, s) = ack_decommit (vi_state x);
     let c = upd_virt v (\<lambda>x. x\<lparr>vi_state := s\<rparr>) c;
     if decommit then do {
       c \<leftarrow> decommit_virt be v c;
       x \<leftarrow> virts c v;
       if ack_delete (vi_pending_free x) then virt_do_free v c else Some c
     }
     else Some c
   }"

definition sweep_pa :: "backends \<Rightarrow> ptr \<Rightarrow> lsdn_context \<Rightarrow> lsdn_context option" where
  "sweep_pa be a c = do {
     x \<leftarrow> pas c a;
     let (decommit, s) = ack_decommit (pa_state x);
     let c = upd_pa a (\<lambda>x. x\<lparr>pa_state := s\<rparr>) c;
     if decommit then do {
       c \<leftarrow> decommit_pa be a c;
       x \<leftarrow> pas c a;
       if ack_delete (pa_pending_free x) then pa_do_free a c else Some c
     }
     else Some c
   }"

definition sweep_net :: "backends \<Rightarrow> ptr \<Rightarrow> lsdn_context \<Rightarrow> lsdn_context option" where
  "sweep_net be n c = do {
     x \<leftarrow> nets c n;
     c \<leftarrow> foldM (sweep_virt be) (virt_list x) c;
     x \<leftarrow> nets c n;
     c \<leftarrow> foldM (sweep_pa be) (attached_list x) c;
     x \<leftarrow> nets c n;
     let (decommit, s) = ack_decommit (ne_state x);
     let c = upd_net n (\<lambda>x. x\<lparr>ne_state := s\<rparr>) c;
     if decommit \<and> ack_delete (ne_pending_free x) then net_do_free n c else Some c
   }"

definition sweep_phys :: "ptr \<Rightarrow> lsdn_context \<Rightarrow> lsdn_context option" where
  "sweep_phys p c = do {
     x \<leftarrow> physes c p;
     let (decommit, s) = ack_decommit (ph_state x);
     let c = upd_phys p (\<lambda>x. x\<lparr>ph_state := s\<rparr>) c;
     if decommit \<and> ack_delete (ph_pending_free x) then phys_do_free p c else Some c
   }"

definition sweep_settings :: "ptr \<Rightarrow> lsdn_context \<Rightarrow> lsdn_context option" where
  "sweep_settings s c = do {
     x \<leftarrow> settingss c s;
     let (decommit, st) = ack_decommit (se_state x);
     let c = upd_settings s (\<lambda>x. x\<lparr>se_state := st\<rparr>) c;
     if decommit \<and> ack_delete (se_pending_free x) then settings_do_free s c else Some c
   }"

definition decommit_phase :: "backends \<Rightarrow> lsdn_context \<Rightarrow> lsdn_context option" where
  "decommit_phase be c = do {
     c \<leftarrow> foldM (sweep_net be) (networks_list c) c;
     c \<leftarrow> foldM sweep_phys (phys_list c) c;
     foldM sweep_settings (settings_list c) c
   }"

definition recommit_phase :: "backends \<Rightarrow> lsdn_context \<Rightarrow> lsdn_context option" where
  "recommit_phase be c =
     foldM (\<lambda>p c. do {
         x \<leftarrow> physes c p;
         if is_local x then
           foldM (commit_pa be) (attached_to_list x) (upd_phys p (\<lambda>x. x\<lparr>committed_as_local := is_local x\<rparr>) c)
         else Some c
       }) (phys_list c) c"

definition ack_pa :: "ptr \<Rightarrow> lsdn_context \<Rightarrow> lsdn_context option" where
  "ack_pa a c = do { _ \<leftarrow> pas c a; Some (upd_pa a (\<lambda>x. x\<lparr>pa_state := ack_state (pa_state x)\<rparr>) c) }"

definition ack_virt :: "ptr \<Rightarrow> lsdn_context \<Rightarrow> lsdn_context option" where
  "ack_virt v c = do { _ \<leftarrow> virts c v; Some (upd_virt v (\<lambda>x. x\<lparr>vi_state := ack_state (vi_state x)\<rparr>) c) }"

definition ack_phase :: "lsdn_context \<Rightarrow> lsdn_context option" where
  "ack_phase c = do {
     c \<leftarrow> foldM (\<lambda>s c. do {
         _ \<leftarrow> settingss c s;
         Some (upd_settings s (\<lambda>x. x\<lparr>se_state := ack_state (se_state x)\<rparr>) c)
       }) (settings_list c) c;
     c \<leftarrow> foldM (\<lambda>p c. do {
         _ \<leftarrow> physes c p;
         Some (upd_phys p (\<lambda>x. x\<lparr>ph_state := ack_state (ph_state x)\<rparr>) c)
       }) (phys_list c) c;
     foldM (\<lambda>n c. do {
         x \<leftarrow> nets c n;
         let c = upd_net n (\<lambda>x. x\<lparr>ne_state := ack_state (ne_state x)\<rparr>) c;
         c \<leftarrow> foldM ack_pa (attached_list x) c;
         foldM ack_virt (virt_list x) c
       }) (networks_list c) c
   }"

definition lsdn_commit :: "backends \<Rightarrow> lsdn_problem_cb \<Rightarrow> lsdn_context \<Rightarrow> (lsdn_err_t \<times> lsdn_context) option" where
  "lsdn_commit be cb c = do {
     c \<leftarrow> trigger_startup_hooks c;
     (err, c) \<leftarrow> lsdn_validate be cb c;
     if err \<noteq> LSDNE_OK then Some (err, c)
     else (case lsdn_context_ensure_socket c of (err, c) \<Rightarrow>
       if err \<noteq> LSDNE_OK then do { c \<leftarrow> c_report LSDNP_NO_NLSOCK [] c; Some (err, c) }
       else do {
         c \<leftarrow> decommit_phase be c;
         c \<leftarrow> recommit_phase be c;
         c \<leftarrow> ack_phase c;
         Some (if inconsistent (rep c) then LSDNE_INCONSISTENT
               else if problem_count (rep c) > 0 then LSDNE_COMMIT else LSDNE_OK, c)
       })
   }"

text \<open>
  Clearing the context ends with its memory being freed; the result is the last state, from which the kernel's
  history can be read.
\<close>

definition lsdn_context_cleanup :: "backends \<Rightarrow> lsdn_problem_cb \<Rightarrow> lsdn_context \<Rightarrow> lsdn_context option" where
  "lsdn_context_cleanup be cb c = do {
     c \<leftarrow> foldM lsdn_phys_free (phys_list c) c;
     c \<leftarrow> foldM lsdn_settings_free (settings_list c) c;
     (_, c) \<leftarrow> lsdn_commit be cb c;
     Some c
   }"

definition lsdn_context_free :: "backends \<Rightarrow> lsdn_context \<Rightarrow> lsdn_context option" where
  "lsdn_context_free be c =
     lsdn_context_cleanup be CB_ABORT (set_rules ((c_rules (run c))\<lparr>r_no_decommit := True\<rparr>) c)"

end
