(* ===== verification/CommitCalm.thy ===== *)
theory CommitCalm
  imports Commit ApiSteps
begin

text \<open>
  Reasoning about the commit as long as no problem is reported. A state is \<open>loud\<close> after the first report, and stays
  so until the next validation; a step of the commit that leaves the state quiet changed no commit state. So what a
  successful commit guarantees is proved for the quiet runs only, with one rule per construct of the code.
\<close>

named_theorems loud_intros "steps keep a loud state loud"

definition loud :: "lsdn_context \<Rightarrow> bool" where
  "loud c \<longleftrightarrow> problem_count (rep c) > 0"

lemma loud_upd [simp]:
  "loud (upd_virt p f1 c) = loud c" "loud (upd_pa p f2 c) = loud c" "loud (upd_phys p f3 c) = loud c"
  "loud (upd_net p f4 c) = loud c" "loud (upd_settings p f5 c) = loud c" "loud (upd_vr p f6 c) = loud c"
  "loud (upd_rpa p f7 c) = loud c" "loud (set_rules st c) = loud c" "loud (set_nl nl c) = loud c"
  "loud (upd_prio p d n f8 c) = loud c" "loud (set_policing d b p c) = loud c"
  "loud (c\<lparr>run := r\<rparr>) = loud c" "loud (c\<lparr>rpas := h1\<rparr>) = loud c" "loud (c\<lparr>rvirts := h2\<rparr>) = loud c"
  "loud (c\<lparr>vrs := h3\<rparr>) = loud c" "loud (c\<lparr>virts := h4\<rparr>) = loud c" "loud (c\<lparr>next_ptr := q\<rparr>) = loud c"
  "loud (c\<lparr>rep := (rep c)\<lparr>inconsistent := i\<rparr>\<rparr>) = loud c"
  "loud ((upd_virt p f1 c)\<lparr>rep := (rep c)\<lparr>inconsistent := i\<rparr>\<rparr>) = loud c"
  by (simp_all add: loud_def upd_defs upd_prio_def set_policing_def)

lemma loud_malloc: "c_malloc c = (r, c') \<Longrightarrow> loud c' = loud c"
  by (elim c_malloc_cases) (simp_all)

lemma loud_bind [loud_intros]:
  "wlp m1 loud \<Longrightarrow> (\<And>c. loud c \<Longrightarrow> wlp (f1 c) P) \<Longrightarrow> wlp (Option.bind m1 f1) P"
  "wlp m2 (\<lambda>(b, c). loud c) \<Longrightarrow> (\<And>b c. loud c \<Longrightarrow> wlp (f2 (b, c)) P) \<Longrightarrow> wlp (Option.bind m2 f2) P"
  by (auto simp: wlp_def bind_eq_Some_conv)

lemma wlp_bind_any: "(\<And>x. m = Some x \<Longrightarrow> wlp (f x) P) \<Longrightarrow> wlp (Option.bind m f) P"
  by (auto simp: wlp_def bind_eq_Some_conv)

lemmas loud_lookup [loud_intros] = wlp_bind_any [where 'a = lsdn_virt] wlp_bind_any [where 'a = lsdn_phys_attachment]
  wlp_bind_any [where 'a = lsdn_phys] wlp_bind_any [where 'a = lsdn_net] wlp_bind_any [where 'a = lsdn_settings]
  wlp_bind_any [where 'a = lsdn_vr] wlp_bind_any [where 'a = lsdn_remote_pa] wlp_bind_any [where 'a = lsdn_remote_virt]
  wlp_bind_any [where 'a = lsdn_rule] wlp_bind_any [where 'a = vr_prio] wlp_bind_any [where 'a = lsdn_net_ops]
  wlp_bind_any [where 'a = unit] wlp_bind_any [where 'a = net_op] wlp_bind_any [where 'a = "bool \<times> rules"]
  wlp_bind_any [where 'a = "lsdn_err_t \<times> rules"] wlp_bind_any [where 'a = "lsdn_ruleset \<times> lsdn_ruleset_prio"]

lemmas loud_control [loud_intros] = wlp_Some wlp_None wlp_if wlp_let wlp_case_prod wlp_case_option

lemma loud_foldM [loud_intros]:
  "loud c \<Longrightarrow> (\<And>x c. loud c \<Longrightarrow> wlp (f x c) loud) \<Longrightarrow> wlp (foldM f xs c) loud"
  by (rule wlp_foldM) auto

lemma c_report_loud: "wlp (c_report cd rs c) loud"
  by (auto simp: wlp_def c_report_def bind_eq_Some_conv loud_def dest: lsdn_problem_report_SomeD)

lemma mark_loud [loud_intros]:
  assumes "loud c"
  shows "wlp (mark_virt v b e c) (\<lambda>(r, c'). loud c')" "wlp (mark_pa a b e c) (\<lambda>(r, c'). loud c')"
  using assms mark_commit_err_result(5)
  by (fastforce simp: wlp_def mark_virt_def mark_pa_def bind_eq_Some_conv loud_def upd_defs)+

lemma call_op_loud [loud_intros]: "loud c \<Longrightarrow> wlp (call_op op p c) (\<lambda>(e, c'). loud c')"
  by (auto simp: wlp_def call_op_def bind_eq_Some_conv)

lemma run_op_loud [loud_intros]:
  assumes "loud c" and "\<And>e c. loud c \<Longrightarrow> wlp (mark e c) (\<lambda>(r, c'). loud c')"
  shows "wlp (run_op op p mark c) (\<lambda>(r, c'). loud c')"
  unfolding run_op_def using assms by (intro loud_intros; simp)

lemma vr_loud [loud_intros]:
  assumes "loud c"
  shows "wlp (commit_vr be v d n r c) loud" "wlp (decommit_vr be v d n r c) loud"
  unfolding commit_vr_def decommit_vr_def using assms by (intro loud_intros; simp)+

lemma rules_loud [loud_intros]:
  assumes "loud c"
  shows "wlp (commit_rules be v d c) loud" "wlp (decommit_rules be v d c) loud"
  unfolding commit_rules_def decommit_rules_def using assms by (intro loud_intros; simp)+

lemma rates_inout_loud [loud_intros]:
  assumes "loud c"
  shows "wlp (commit_rates_inout be v d c) (\<lambda>(e, c'). loud c')" "wlp (decommit_rates_inout be v d c) loud"
  unfolding commit_rates_inout_def decommit_rates_inout_def using assms by (intro loud_intros; simp)+

lemma decommit_rates_loud [loud_intros]: "loud c \<Longrightarrow> wlp (decommit_rates be v c) loud"
  unfolding decommit_rates_def by (intro loud_intros; simp)

lemma commit_rates_loud [loud_intros]: "loud c \<Longrightarrow> wlp (commit_rates be v c) (\<lambda>(e, c'). loud c')"
  unfolding commit_rates_def by (intro loud_intros; simp)

lemma decommit_remote_virt_loud [loud_intros]: "loud c \<Longrightarrow> wlp (decommit_remote_virt be rv c) loud"
  unfolding decommit_remote_virt_def by (intro loud_intros; simp)

lemma decommit_virt_loud [loud_intros]: "loud c \<Longrightarrow> wlp (decommit_virt be v c) loud"
  unfolding decommit_virt_def by (intro loud_intros; simp)

lemma decommit_remote_pa_loud [loud_intros]: "loud c \<Longrightarrow> wlp (decommit_remote_pa be r c) loud"
  unfolding decommit_remote_pa_def by (intro loud_intros; simp)

lemma decommit_pa_loud [loud_intros]: "loud c \<Longrightarrow> wlp (decommit_pa be a c) loud"
  unfolding decommit_pa_def by (intro loud_intros; simp)

lemma commit_new_virt_loud [loud_intros]: "loud c \<Longrightarrow> wlp (commit_new_virt be ops a v c) (\<lambda>(b, c'). loud c')"
  unfolding commit_new_virt_def
  by (intro loud_intros wlp_mono [OF c_report_loud]; simp)

lemma commit_virt_loud [loud_intros]: "loud c \<Longrightarrow> wlp (commit_virt be ops a v c) loud"
  unfolding commit_virt_def by (intro loud_intros; simp)

lemma commit_remote_loud [loud_intros]:
  assumes "loud c"
  shows "wlp (commit_remote_pa be ops a r c) loud" "wlp (commit_remote_virt be ops a r v c) loud"
  unfolding commit_remote_pa_def commit_remote_virt_def
  using assms by (intro loud_intros wlp_mono [OF c_report_loud]; simp add: loud_malloc)+

lemma commit_pa_loud [loud_intros]: "loud c \<Longrightarrow> wlp (commit_pa be a c) loud"
  unfolding commit_pa_def by (intro loud_intros; simp)

section \<open>Freeing\<close>

lemma rep_upd [simp]:
  "rep (upd_virt p f1 c) = rep c" "rep (upd_pa p f2 c) = rep c" "rep (upd_phys p f3 c) = rep c"
  "rep (upd_net p f4 c) = rep c" "rep (upd_settings p f5 c) = rep c" "rep (upd_vr p f6 c) = rep c"
  "rep (upd_rpa p f7 c) = rep c" "rep (set_rules st c) = rep c" "rep (set_nl nl c) = rep c"
  by (simp_all add: upd_defs)

lemma free_ops_loud [loud_intros]:
  assumes "loud c"
  shows "wlp (do_free_vr r c) loud" "wlp (pa_do_free a c) loud" "wlp (net_do_free n c) loud" "wlp (phys_do_free p c) loud"
    "wlp (settings_do_free s c) loud"
  unfolding do_free_vr_def pa_do_free_def net_do_free_def phys_do_free_def settings_do_free_def
  using assms by (intro loud_intros; simp add: loud_def upd_defs)+

lemma do_free_vr_prio_loud [loud_intros]: "loud c \<Longrightarrow> wlp (do_free_vr_prio v d pr c) loud"
  unfolding do_free_vr_prio_def by (intro loud_intros; simp)

lemma lsdn_vr_do_free_all_rules_loud [loud_intros]: "loud c \<Longrightarrow> wlp (lsdn_vr_do_free_all_rules v c) loud"
  unfolding lsdn_vr_do_free_all_rules_def by (intro loud_intros; simp)

lemma free_pa_if_possible_loud [loud_intros]: "loud c \<Longrightarrow> wlp (free_pa_if_possible a c) loud"
  unfolding free_pa_if_possible_def by (intro loud_intros; auto split: free_action.split intro!: loud_intros)

lemma virt_do_free_loud [loud_intros]: "loud c \<Longrightarrow> wlp (virt_do_free v c) loud"
  unfolding virt_do_free_def by (intro loud_intros; simp)

lemma sweep_loud [loud_intros]:
  assumes "loud c"
  shows "wlp (sweep_virt be v c) loud" "wlp (sweep_pa be a c) loud" "wlp (sweep_phys p c) loud" "wlp (sweep_settings s c) loud"
  unfolding sweep_virt_def sweep_pa_def sweep_phys_def sweep_settings_def using assms by (intro loud_intros; simp)+

lemma sweep_net_loud [loud_intros]: "loud c \<Longrightarrow> wlp (sweep_net be n c) loud"
  unfolding sweep_net_def by (intro loud_intros; simp)

lemma phases_loud [loud_intros]:
  assumes "loud c"
  shows "wlp (decommit_phase be c) loud" "wlp (recommit_phase be c) loud" "wlp (ack_phase c) loud"
  unfolding decommit_phase_def recommit_phase_def ack_phase_def ack_pa_def ack_virt_def
  using assms by (intro loud_intros; simp)+

section \<open>Quiet runs\<close>

text \<open>\<open>quietly P\<close> is what is left to prove of a result: \<open>P\<close>, unless a problem was reported.\<close>

definition quietly :: "(lsdn_context \<Rightarrow> bool) \<Rightarrow> lsdn_context \<Rightarrow> bool" where
  "quietly P c \<longleftrightarrow> loud c \<or> P c"

lemma quietly_loud: "loud c \<Longrightarrow> quietly P c"
  by (simp add: quietly_def)

lemma quietlyI: "P c \<Longrightarrow> quietly P c"
  by (simp add: quietly_def)

lemma quietly_mono: "quietly P c \<Longrightarrow> (P c \<Longrightarrow> Q c) \<Longrightarrow> quietly Q c"
  by (auto simp: quietly_def)

lemma quietly_step:
  assumes "quietly P c" "P c \<Longrightarrow> wlp m (quietly Q)" "loud c \<Longrightarrow> wlp m loud"
  shows "wlp m (quietly Q)"
  using assms by (auto simp: quietly_def wlp_def)

lemma quietly_step2:
  assumes "quietly P c" "P c \<Longrightarrow> wlp m (\<lambda>(b, c'). quietly Q c')" "loud c \<Longrightarrow> wlp m (\<lambda>(b, c'). loud c')"
  shows "wlp m (\<lambda>(b, c'). quietly Q c')"
  using assms by (auto simp: quietly_def wlp_def)

lemma quietly_bind:
  "wlp m (quietly Q) \<Longrightarrow> (\<And>c. quietly Q c \<Longrightarrow> wlp (f c) R) \<Longrightarrow> wlp (Option.bind m f) R"
  "wlp n (\<lambda>(b, c). quietly Q c) \<Longrightarrow> (\<And>b c. quietly Q c \<Longrightarrow> wlp (g (b, c)) R) \<Longrightarrow> wlp (Option.bind n g) R"
  by (auto simp: wlp_def bind_eq_Some_conv)

lemma quietly_foldM:
  assumes "quietly P c" "\<And>x c. x \<in> set xs \<Longrightarrow> quietly P c \<Longrightarrow> wlp (f x c) (quietly P)"
  shows "wlp (foldM f xs c) (quietly P)"
  using assms by (intro wlp_foldM [where I = "quietly P"]) auto

lemma upd_same:
  "virts c v = Some x \<Longrightarrow> f x = x \<Longrightarrow> upd_virt v f c = c" "pas c a = Some y \<Longrightarrow> g y = y \<Longrightarrow> upd_pa a g c = c"
  by (simp_all add: upd_virt_def upd_pa_def fun_upd_idem)

lemma mark_quiet:
  "wlp (mark_virt v b e c) (\<lambda>(r, c'). loud c' \<or> c' = c)" "wlp (mark_pa a b e c) (\<lambda>(r, c'). loud c' \<or> c' = c)"
proof -
  have m: "s' = s \<and> r' = r \<or> problem_count r' > 0" if "mark_commit_err r s subj b e = Some (d, s', r')" for r s subj d s' r'
    using that by (auto simp: mark_commit_err_def bind_eq_Some_conv split: if_splits dest: lsdn_problem_report_SomeD)
  show "wlp (mark_virt v b e c) (\<lambda>(r, c'). loud c' \<or> c' = c)" "wlp (mark_pa a b e c) (\<lambda>(r, c'). loud c' \<or> c' = c)"
    using m by (fastforce simp: wlp_def mark_virt_def mark_pa_def bind_eq_Some_conv loud_def upd_same)+
qed

end
