(* ===== verification/CommitViews.thy ===== *)
theory CommitViews
  imports CommitCalm
begin

text \<open>
  The views of remote attachments and virts that a commit creates and removes keep the links of the model, and every
  step of a quiet commit keeps the links and the commit states of all objects.
\<close>

section \<open>Links\<close>

definition virt_place :: "(lsdn_virt \<Rightarrow> lsdn_virt) \<Rightarrow> bool" where
  "virt_place f \<longleftrightarrow> (\<forall>x. network (f x) = network x \<and> connected_through (f x) = connected_through x \<and>
     ht_in_rules (f x) = ht_in_rules x \<and> ht_out_rules (f x) = ht_out_rules x)"

definition pa_place :: "(lsdn_phys_attachment \<Rightarrow> lsdn_phys_attachment) \<Rightarrow> bool" where
  "pa_place f \<longleftrightarrow> (\<forall>x. pa_net (f x) = pa_net x \<and> pa_phys (f x) = pa_phys x \<and> connected_virt_list (f x) = connected_virt_list x)"

definition base_inv :: "lsdn_context \<Rightarrow> bool" where
  "base_inv c \<longleftrightarrow> lists_inv c \<and> owners_inv c \<and> attach_inv c \<and> vr_inv c \<and> all_names_inv c \<and> fresh_inv c"

lemma base_inv_upd_virt:
  assumes inv: "base_inv c" and f: "virt_place f"
  shows "base_inv (upd_virt v f c)" (is "base_inv ?c")
proof -
  note f = f [unfolded virt_place_def]
  have ht: "ht_rules d (f x) = ht_rules d x" for d x using f by (simp add: ht_rules_def)
  have tab: "vr_tab ((virts c)(v := map_option f (virts c v))) = vr_tab (virts c)" by (rule vr_tab_upd) (rule ht)
  have "lists_inv ?c" "all_names_inv ?c" "fresh_inv ?c"
    using inv unfolding base_inv_def lists_inv_def all_names_inv_def fresh_inv_def upd_defs by simp_all
  moreover have "owners_inv ?c"
    using inv f unfolding base_inv_def owners_inv_def upd_defs by (simp add: owns_upd_simps)
  moreover have "attach_inv ?c"
    using inv f unfolding base_inv_def attach_inv_def upd_defs by (simp add: connected_ok_upd_virt)
  moreover have "vr_inv ?c"
    using inv ht unfolding base_inv_def vr_inv_def upd_defs by (auto simp: tab)
  ultimately show ?thesis by (simp add: base_inv_def)
qed

lemma base_inv_upd_pa:
  assumes inv: "base_inv c" and g: "pa_place g"
  shows "base_inv (upd_pa a g c)" (is "base_inv ?c")
proof -
  note g = g [unfolded pa_place_def]
  have "lists_inv ?c" "all_names_inv ?c" "fresh_inv ?c" "vr_inv ?c"
    using inv unfolding base_inv_def lists_inv_def all_names_inv_def fresh_inv_def vr_inv_def upd_defs by simp_all
  moreover have "owners_inv ?c"
    using inv g unfolding base_inv_def owners_inv_def upd_defs by (simp add: owns_upd_simps)
  moreover have "attach_inv ?c"
    using inv g unfolding base_inv_def attach_inv_def upd_defs by (simp add: connected_ok_upd_pa pa_unique_upd)
  ultimately show ?thesis by (simp add: base_inv_def)
qed

lemma core_inv_change_views:
  assumes inv: "core_inv c" and f: "virt_place f" and g: "pa_place g" and h: "pa_place h"
    and new: "\<And>p. next_ptr c \<le> p \<Longrightarrow> rp p = None \<and> rv p = None"
    and views: "views_inv (upd_virt v f (upd_pa a g (upd_pa b h (c\<lparr>rpas := rp, rvirts := rv\<rparr>))))" (is "views_inv ?c")
  shows "core_inv ?c"
proof -
  have "base_inv (c\<lparr>rpas := rp, rvirts := rv\<rparr>)"
    using inv new by (simp add: base_inv_def core_inv_defs)
  then have "base_inv ?c" by (intro base_inv_upd_virt base_inv_upd_pa f g h)
  then show ?thesis using views by (simp add: base_inv_def core_inv_def)
qed

lemma upd_id: "upd_virt v id c = c" "c\<lparr>rpas := h, rvirts := rvirts c\<rparr> = c\<lparr>rpas := h\<rparr>"
  by (auto simp: upd_virt_def option.map_id)

lemma upd_pa_rpas: "upd_pa a g (c\<lparr>rpas := h\<rparr>) = (upd_pa a g c)\<lparr>rpas := h\<rparr>"
  by (rule lsdn_context.equality) (simp_all add: upd_pa_def)

lemma viewsD:
  assumes "core_inv c"
  shows "owns (pas c) remote_pa_list (rpas c) (Some \<circ> rp_local)" "owns (pas c) pa_view_list (rpas c) (Some \<circ> rp_remote)"
    "owns (rpas c) remote_virt_list (rvirts c) (Some \<circ> rv_pa)" "owns (virts c) virt_view_list (rvirts c) (Some \<circ> rv_virt)"
  using core_invD(7) [OF assms] by (simp_all add: views_inv_def)

lemma fresh_views: "core_inv c \<Longrightarrow> next_ptr c \<le> p \<Longrightarrow> rpas c p = None \<and> rvirts c p = None"
  by (simp add: core_inv_def fresh_inv_def)

lemma core_inv_free_rvirt:
  assumes inv: "core_inv c" and r: "rvirts c q = Some r"
  shows "core_inv ((upd_virt (rv_virt r) (\<lambda>x. x\<lparr>virt_view_list := remove1 q (virt_view_list x)\<rparr>)
    (upd_rpa (rv_pa r) (\<lambda>p. p\<lparr>remote_virt_list := remove1 q (remote_virt_list p)\<rparr>) c))\<lparr>rvirts := (rvirts c)(q := None)\<rparr>)" (is "core_inv ?d")
proof -
  let ?rp = "(rpas c)(rv_pa r := map_option (\<lambda>p. p\<lparr>remote_virt_list := remove1 q (remote_virt_list p)\<rparr>) (rpas c (rv_pa r)))"
  let ?f = "\<lambda>x. x\<lparr>virt_view_list := remove1 q (virt_view_list x)\<rparr>"
  let ?c = "upd_virt (rv_virt r) ?f (upd_pa 0 id (upd_pa 0 id (c\<lparr>rpas := ?rp, rvirts := (rvirts c)(q := None)\<rparr>)))"
  note v = viewsD [OF inv]
  have "owns ?rp remote_virt_list ((rvirts c)(q := None)) (Some \<circ> rv_pa)" by (rule owns_free_child [OF v(3) r]) auto
  moreover have "owns ((virts c)(rv_virt r := map_option ?f (virts c (rv_virt r)))) virt_view_list ((rvirts c)(q := None)) (Some \<circ> rv_virt)"
    by (rule owns_free_child [OF v(4) r]) auto
  moreover have "owns (pas c) remote_pa_list ?rp (Some \<circ> rp_local)" "owns (pas c) pa_view_list ?rp (Some \<circ> rp_remote)"
    by (rule owns_upd_child [OF v(1)] owns_upd_child [OF v(2)], simp)+
  ultimately have "views_inv ?c" by (simp add: views_inv_def upd_defs option.map_id)
  then have "core_inv ?c"
    by (intro core_inv_change_views [OF inv]) (use fresh_views [OF inv] in \<open>auto simp: virt_place_def pa_place_def\<close>)
  moreover have "?d = ?c" by (rule lsdn_context.equality) (simp_all add: upd_defs option.map_id)
  ultimately show ?thesis by simp
qed

lemma core_inv_free_rpa:
  assumes inv: "core_inv c" and r: "rpas c q = Some r" "remote_virt_list r = []"
  shows "core_inv ((upd_pa (rp_local r) (\<lambda>x. x\<lparr>remote_pa_list := remove1 q (remote_pa_list x)\<rparr>)
    (upd_pa (rp_remote r) (\<lambda>x. x\<lparr>pa_view_list := remove1 q (pa_view_list x)\<rparr>) c))\<lparr>rpas := (rpas c)(q := None)\<rparr>)"
proof -
  let ?g = "\<lambda>x. x\<lparr>remote_pa_list := remove1 q (remote_pa_list x)\<rparr>" and ?h = "\<lambda>x. x\<lparr>pa_view_list := remove1 q (pa_view_list x)\<rparr>"
  let ?c = "upd_virt 0 id (upd_pa (rp_local r) ?g (upd_pa (rp_remote r) ?h (c\<lparr>rpas := (rpas c)(q := None), rvirts := rvirts c\<rparr>)))"
  note v = viewsD [OF inv]
  let ?p1 = "(pas c)(rp_remote r := map_option ?h (pas c (rp_remote r)))"
  let ?p2 = "?p1(rp_local r := map_option ?g (?p1 (rp_local r)))"
  have "owns ?p2 remote_pa_list ((rpas c)(q := None)) (Some \<circ> rp_local)"
    by (rule owns_free_child [OF owns_upd_owner [OF v(1)] r(1)]) auto
  moreover have "owns ?p2 pa_view_list ((rpas c)(q := None)) (Some \<circ> rp_remote)"
    by (rule owns_upd_owner [OF owns_free_child [OF v(2) r(1)]]) auto
  moreover have "owns ((rpas c)(q := None)) remote_virt_list (rvirts c) (Some \<circ> rv_pa)"
    by (rule owns_free_owner [OF v(3) r])
  ultimately have "views_inv ?c" using v(4) by (simp add: views_inv_def upd_defs option.map_id)
  then have "core_inv ?c"
    by (intro core_inv_change_views [OF inv]) (use fresh_views [OF inv] in \<open>auto simp: virt_place_def pa_place_def\<close>)
  then show ?thesis by (simp add: upd_id upd_pa_rpas)
qed

lemma core_inv_add_rpa:
  assumes inv: "core_inv c" and q: "fresh q c" and r: "remote_virt_list r = []" "pas c (rp_local r) \<noteq> None" "pas c (rp_remote r) \<noteq> None"
  shows "core_inv (upd_pa (rp_local r) (\<lambda>x. x\<lparr>remote_pa_list := q # remote_pa_list x\<rparr>)
    (upd_pa (rp_remote r) (\<lambda>x. x\<lparr>pa_view_list := q # pa_view_list x\<rparr>) (c\<lparr>rpas := (rpas c)(q \<mapsto> r)\<rparr>)))"
proof -
  let ?g = "\<lambda>x. x\<lparr>remote_pa_list := q # remote_pa_list x\<rparr>" and ?h = "\<lambda>x. x\<lparr>pa_view_list := q # pa_view_list x\<rparr>"
  let ?c = "upd_virt 0 id (upd_pa (rp_local r) ?g (upd_pa (rp_remote r) ?h (c\<lparr>rpas := (rpas c)(q \<mapsto> r), rvirts := rvirts c\<rparr>)))"
  note v = viewsD [OF inv]
  have q': "rpas c q = None" "q < next_ptr c" using q by (simp_all add: fresh_def)
  let ?p1 = "(pas c)(rp_remote r := map_option ?h (pas c (rp_remote r)))"
  let ?p2 = "?p1(rp_local r := map_option ?g (?p1 (rp_local r)))"
  have "owns ?p2 remote_pa_list ((rpas c)(q \<mapsto> r)) (Some \<circ> rp_local)"
    by (rule owns_new_child [OF owns_upd_owner [OF v(1)] q'(1)]) (use r in auto)
  moreover have "owns ?p2 pa_view_list ((rpas c)(q \<mapsto> r)) (Some \<circ> rp_remote)"
    by (rule owns_upd_owner [OF owns_new_child [OF v(2) q'(1)]]) (use r in auto)
  moreover have "owns ((rpas c)(q \<mapsto> r)) remote_virt_list (rvirts c) (Some \<circ> rv_pa)"
    by (rule owns_new_owner [OF v(3) q'(1) r(1)])
  ultimately have "views_inv ?c" using v(4) by (simp add: views_inv_def upd_defs option.map_id)
  then have "core_inv ?c"
    by (intro core_inv_change_views [OF inv]) (use fresh_views [OF inv] q' in \<open>auto simp: virt_place_def pa_place_def\<close>)
  then show ?thesis by (simp add: upd_id upd_pa_rpas)
qed

lemma core_inv_add_rvirt:
  assumes inv: "core_inv c" and q: "fresh q c" and r: "virts c (rv_virt r) \<noteq> None" "rpas c (rv_pa r) \<noteq> None"
  shows "core_inv (upd_rpa (rv_pa r) (\<lambda>p. p\<lparr>remote_virt_list := q # remote_virt_list p\<rparr>)
    (upd_virt (rv_virt r) (\<lambda>x. x\<lparr>virt_view_list := q # virt_view_list x\<rparr>) (c\<lparr>rvirts := (rvirts c)(q \<mapsto> r)\<rparr>)))" (is "core_inv ?d")
proof -
  let ?rp = "(rpas c)(rv_pa r := map_option (\<lambda>p. p\<lparr>remote_virt_list := q # remote_virt_list p\<rparr>) (rpas c (rv_pa r)))"
  let ?f = "\<lambda>x. x\<lparr>virt_view_list := q # virt_view_list x\<rparr>"
  let ?c = "upd_virt (rv_virt r) ?f (upd_pa 0 id (upd_pa 0 id (c\<lparr>rpas := ?rp, rvirts := (rvirts c)(q \<mapsto> r)\<rparr>)))"
  have q': "rvirts c q = None" "q < next_ptr c" using q by (simp_all add: fresh_def)
  note v = viewsD [OF inv]
  have "owns ?rp remote_virt_list ((rvirts c)(q \<mapsto> r)) (Some \<circ> rv_pa)"
    by (rule owns_new_child [OF v(3) q'(1)]) (use r in auto)
  moreover have "owns ((virts c)(rv_virt r := map_option ?f (virts c (rv_virt r)))) virt_view_list ((rvirts c)(q \<mapsto> r)) (Some \<circ> rv_virt)"
    by (rule owns_new_child [OF v(4) q'(1)]) (use r in auto)
  moreover have "owns (pas c) remote_pa_list ?rp (Some \<circ> rp_local)" "owns (pas c) pa_view_list ?rp (Some \<circ> rp_remote)"
    by (rule owns_upd_child [OF v(1)] owns_upd_child [OF v(2)], simp)+
  ultimately have "views_inv ?c" by (simp add: views_inv_def upd_defs option.map_id)
  then have "core_inv ?c"
    by (intro core_inv_change_views [OF inv]) (use fresh_views [OF inv] q' in \<open>auto simp: virt_place_def pa_place_def\<close>)
  moreover have "?d = ?c" by (rule lsdn_context.equality) (simp_all add: upd_defs option.map_id)
  ultimately show ?thesis by simp
qed

end
