(* ===== verification/CommitKeep.thy ===== *)
theory CommitKeep
  imports CommitViews
begin

text \<open>
  What the steps of a commit leave alone. \<open>kept cs c\<close>: the links of \<open>c\<close> are intact and every object has the commit
  state and the place it had in \<open>cs\<close>. \<open>dec cs c\<close>: besides, no view was created since \<open>cs\<close>.
\<close>

definition virt_key :: "lsdn_virt \<Rightarrow> lsdn_state \<times> bool \<times> ptr \<times> ptr option" where
  "virt_key x = (vi_state x, vi_pending_free x, network x, connected_through x)"

definition pa_key :: "lsdn_phys_attachment \<Rightarrow> lsdn_state \<times> bool \<times> ptr \<times> ptr \<times> ptr list \<times> bool" where
  "pa_key x = (pa_state x, pa_pending_free x, pa_net x, pa_phys x, connected_virt_list x, explicitly_attached x)"

definition same_keys :: "lsdn_context \<Rightarrow> lsdn_context \<Rightarrow> bool" where
  "same_keys cs c \<longleftrightarrow> map_option virt_key \<circ> virts c = map_option virt_key \<circ> virts cs \<and>
     map_option pa_key \<circ> pas c = map_option pa_key \<circ> pas cs \<and> nets c = nets cs \<and> physes c = physes cs \<and>
     settingss c = settingss cs \<and> networks_list c = networks_list cs \<and> phys_list c = phys_list cs \<and>
     settings_list c = settings_list cs"

definition vr_del :: "lsdn_context \<Rightarrow> bool" where
  "vr_del c \<longleftrightarrow> (\<forall>r y. vrs c r = Some y \<longrightarrow> (vr_pending_free y \<longleftrightarrow> vr_state y = LSDN_STATE_DELETE))"

definition kept :: "lsdn_context \<Rightarrow> lsdn_context \<Rightarrow> bool" where
  "kept cs c \<longleftrightarrow> core_inv c \<and> vr_del c \<and> same_keys cs c"

definition shrunk :: "lsdn_context \<Rightarrow> lsdn_context \<Rightarrow> bool" where
  "shrunk cs c \<longleftrightarrow> le_heap (\<lambda>r r'. rp_local r' = rp_local r \<and> rp_remote r' = rp_remote r) (rpas cs) (rpas c) \<and>
     le_heap (=) (rvirts cs) (rvirts c)"

definition dec :: "lsdn_context \<Rightarrow> lsdn_context \<Rightarrow> bool" where
  "dec cs c \<longleftrightarrow> kept cs c \<and> shrunk cs c"

lemma same_keys_refl: "same_keys c c"
  by (simp add: same_keys_def)

lemma same_keys_trans: "same_keys cs c1 \<Longrightarrow> same_keys c1 c2 \<Longrightarrow> same_keys cs c2"
  by (simp add: same_keys_def)

lemma shrunk_refl: "shrunk c c"
  by (simp add: shrunk_def le_heap_refl)

lemma shrunk_trans: "shrunk cs c1 \<Longrightarrow> shrunk c1 c2 \<Longrightarrow> shrunk cs c2"
  unfolding shrunk_def by (auto elim!: le_heap_trans)

lemma keys_upd:
  "(\<And>x. virt_key (f x) = virt_key x) \<Longrightarrow> map_option virt_key \<circ> (h(v := map_option f (h v))) = map_option virt_key \<circ> h"
  "(\<And>y. pa_key (g y) = pa_key y) \<Longrightarrow> map_option pa_key \<circ> (k(a := map_option g (k a))) = map_option pa_key \<circ> k"
  by (auto simp: fun_eq_iff option.map_comp o_def)

lemma same_keys_upd [simp]:
  "(\<And>x. virt_key (f x) = virt_key x) \<Longrightarrow> same_keys cs (upd_virt v f c) = same_keys cs c"
  "(\<And>y. pa_key (g y) = pa_key y) \<Longrightarrow> same_keys cs (upd_pa a g c) = same_keys cs c"
  by (simp_all add: same_keys_def upd_virt_def upd_pa_def keys_upd)

lemma same_keys_irrelevant [simp]:
  "same_keys cs (upd_vr r f6 c) = same_keys cs c" "same_keys cs (upd_rpa p f7 c) = same_keys cs c"
  "same_keys cs (set_rules st c) = same_keys cs c" "same_keys cs (set_nl nl c) = same_keys cs c"
  "same_keys cs (c\<lparr>run := r2\<rparr>) = same_keys cs c" "same_keys cs (c\<lparr>rpas := h1\<rparr>) = same_keys cs c"
  "same_keys cs (c\<lparr>rvirts := h2\<rparr>) = same_keys cs c" "same_keys cs (c\<lparr>rep := rp\<rparr>) = same_keys cs c"
  "same_keys cs (c\<lparr>next_ptr := q\<rparr>) = same_keys cs c"
  by (simp_all add: same_keys_def upd_defs)

lemma vr_del_irrelevant [simp]:
  "vr_del (upd_virt p f1 c) = vr_del c" "vr_del (upd_pa p f2 c) = vr_del c" "vr_del (upd_rpa p f7 c) = vr_del c"
  "vr_del (set_rules st c) = vr_del c" "vr_del (set_nl nl c) = vr_del c" "vr_del (c\<lparr>run := r2\<rparr>) = vr_del c"
  "vr_del (c\<lparr>rpas := h1\<rparr>) = vr_del c" "vr_del (c\<lparr>rvirts := h2\<rparr>) = vr_del c" "vr_del (c\<lparr>rep := rp\<rparr>) = vr_del c"
  "vr_del (c\<lparr>next_ptr := q\<rparr>) = vr_del c"
  by (simp_all add: vr_del_def upd_defs)

lemma shrunk_irrelevant [simp]:
  "shrunk cs (upd_virt p f1 c) = shrunk cs c" "shrunk cs (upd_pa p f2 c) = shrunk cs c" "shrunk cs (upd_vr p f6 c) = shrunk cs c"
  "shrunk cs (set_rules st c) = shrunk cs c" "shrunk cs (set_nl nl c) = shrunk cs c" "shrunk cs (c\<lparr>run := r2\<rparr>) = shrunk cs c"
  "shrunk cs (c\<lparr>rep := rp\<rparr>) = shrunk cs c"
  by (simp_all add: shrunk_def upd_defs)

lemma dec_irrelevant [simp]:
  "dec cs (set_rules st c) = dec cs c" "dec cs (set_nl nl c) = dec cs c" "dec cs (c\<lparr>run := r2\<rparr>) = dec cs c"
  "dec cs (c\<lparr>rep := rp\<rparr>) = dec cs c"
  by (simp_all add: dec_def kept_def)

lemma dec_upd:
  "dec cs c \<Longrightarrow> (\<And>x. virt_key (f x) = virt_key x \<and> virt_links x (f x)) \<Longrightarrow> dec cs (upd_virt v f c)"
  "dec cs c \<Longrightarrow> (\<And>pr. vr_prio_num (g pr) = vr_prio_num pr \<and> rules_list (g pr) = rules_list pr) \<Longrightarrow> dec cs (upd_prio v d n g c)"
  "dec cs c \<Longrightarrow> (\<And>y. vr_home (h y) = vr_home y) \<Longrightarrow>
    (\<And>y. vrs c r = Some y \<Longrightarrow> (vr_pending_free y \<longleftrightarrow> vr_state y = LSDN_STATE_DELETE) \<Longrightarrow> (vr_pending_free (h y) \<longleftrightarrow> vr_state (h y) = LSDN_STATE_DELETE)) \<Longrightarrow>
    dec cs (upd_vr r h c)"
proof -
  show "dec cs (upd_virt v f c)" if "dec cs c" "\<And>x. virt_key (f x) = virt_key x \<and> virt_links x (f x)"
    using that by (simp add: dec_def kept_def core_inv_upd_virt)
  show "dec cs (upd_prio v d n g c)" if "dec cs c" "\<And>pr. vr_prio_num (g pr) = vr_prio_num pr \<and> rules_list (g pr) = rules_list pr"
    using that unfolding dec_def kept_def upd_prio_def
    by (auto simp: virt_key_def intro!: core_inv_upd_virt_ht vr_inv_upd_prio dest: core_invD(4))
  show "dec cs (upd_vr r h c)" if "dec cs c" "\<And>y. vr_home (h y) = vr_home y"
    "\<And>y. vrs c r = Some y \<Longrightarrow> (vr_pending_free y \<longleftrightarrow> vr_state y = LSDN_STATE_DELETE) \<Longrightarrow> (vr_pending_free (h y) \<longleftrightarrow> vr_state (h y) = LSDN_STATE_DELETE)"
    using that by (simp add: dec_def kept_def core_inv_upd_vr) (auto simp: vr_del_def upd_vr_def)
qed

end
