(* ===== verification/CommitFrame.thy ===== *)
theory CommitFrame
  imports CommitKeep
begin

text \<open>
  The steps of a commit that touch no link and no commit state: recording an error, calling a back-end, installing and
  removing rules and rates. The locale states what a predicate on the context has to ignore for such a step to keep
  it in a quiet run; it is interpreted for the predicates of the decommit and of the recommit.
\<close>

lemma mark_quietly:
  assumes "quietly P c"
  shows "wlp (mark_virt v b e c) (\<lambda>(r, c'). quietly P c')" "wlp (mark_pa a b e c) (\<lambda>(r, c'). quietly P c')"
proof -
  have "wlp m (\<lambda>(r, c'). quietly P c')" if "wlp m (\<lambda>(r, c'). loud c' \<or> c' = c)" "loud c \<Longrightarrow> wlp m (\<lambda>(r, c'). loud c')" for m :: "('x \<times> _) option"
    using that assms by (auto simp: quietly_def wlp_def)
  from this [OF mark_quiet(1) mark_loud(1)] this [OF mark_quiet(2) mark_loud(2)]
  show "wlp (mark_virt v b e c) (\<lambda>(r, c'). quietly P c')" "wlp (mark_pa a b e c) (\<lambda>(r, c'). quietly P c')" by simp_all
qed

lemma ack_decommit_delete: "ack_decommit (propagate a b) = (d, s) \<Longrightarrow> s = LSDN_STATE_DELETE \<longleftrightarrow> b = LSDN_STATE_DELETE"
  by (cases a; cases b) (auto simp: propagate_def)

lemma ack_state_delete [simp]: "ack_state s = LSDN_STATE_DELETE \<longleftrightarrow> s = LSDN_STATE_DELETE"
  by (cases s) simp_all

locale commit_frame =
  fixes Q :: "lsdn_context \<Rightarrow> bool"
  assumes frame_run: "Q (c\<lparr>run := ru\<rparr>) = Q c"
    and frame_rep: "Q (c\<lparr>rep := rp\<rparr>) = Q c"
    and frame_virt: "Q c \<Longrightarrow> (\<And>x. virt_key (f x) = virt_key x \<and> virt_links x (f x)) \<Longrightarrow> Q (upd_virt v f c)"
    and frame_prio: "Q c \<Longrightarrow> (\<And>pr. vr_prio_num (g pr) = vr_prio_num pr \<and> rules_list (g pr) = rules_list pr) \<Longrightarrow> Q (upd_prio v d n g c)"
    and frame_vr: "Q c \<Longrightarrow> (\<And>y. vr_home (h y) = vr_home y) \<Longrightarrow>
      (\<And>y. vrs c r = Some y \<Longrightarrow> (vr_pending_free y \<longleftrightarrow> vr_state y = LSDN_STATE_DELETE) \<Longrightarrow> (vr_pending_free (h y) \<longleftrightarrow> vr_state (h y) = LSDN_STATE_DELETE)) \<Longrightarrow>
      Q (upd_vr r h c)"
begin

lemma frame_rules: "Q (set_rules st c) = Q c" "Q (set_nl nl c) = Q c"
  by (simp_all add: set_nl_def set_rules_def frame_run)

lemma bind:
  "wlp m (quietly Q) \<Longrightarrow> (\<And>c. quietly Q c \<Longrightarrow> wlp (f c) R) \<Longrightarrow> wlp (Option.bind m f) R"
  "wlp n (\<lambda>(b, c). quietly Q c) \<Longrightarrow> (\<And>b c. quietly Q c \<Longrightarrow> wlp (g (b, c)) R) \<Longrightarrow> wlp (Option.bind n g) R"
  by (fact quietly_bind [where Q = Q])+

lemma fold:
  "quietly Q c \<Longrightarrow> (\<And>x c. x \<in> set xs \<Longrightarrow> quietly Q c \<Longrightarrow> wlp (f x c) (quietly Q)) \<Longrightarrow> wlp (foldM f xs c) (quietly Q)"
  by (rule quietly_foldM)

lemma mark:
  assumes "quietly Q c"
  shows "wlp (mark_virt v b e c) (\<lambda>(r, c'). quietly Q c')" "wlp (mark_pa a b e c) (\<lambda>(r, c'). quietly Q c')"
  by (rule mark_quietly [OF assms])+

lemma call: "quietly Q c \<Longrightarrow> wlp (call_op op p c) (\<lambda>(e, c'). quietly Q c')"
  by (auto simp: wlp_def call_op_def bind_eq_Some_conv quietly_def frame_run)

lemma run_op:
  assumes "quietly Q c" and "\<And>e c. quietly Q c \<Longrightarrow> wlp (mark e c) (\<lambda>(r, c'). quietly Q c')"
  shows "wlp (run_op op p mark c) (\<lambda>(r, c'). quietly Q c')"
  unfolding run_op_def using assms by (intro bind call loud_control; simp)

lemma quiet_upd:
  "quietly Q c \<Longrightarrow> quietly Q (set_rules st c)" "quietly Q c \<Longrightarrow> quietly Q (set_nl nl c)"
  "quietly Q c \<Longrightarrow> quietly Q (set_policing d b v c)" "quietly Q c \<Longrightarrow> quietly Q (c\<lparr>rep := (rep c)\<lparr>inconsistent := i\<rparr>\<rparr>)"
  "quietly Q c \<Longrightarrow> (\<And>pr. vr_prio_num (g pr) = vr_prio_num pr \<and> rules_list (g pr) = rules_list pr) \<Longrightarrow> quietly Q (upd_prio v d n g c)"
  by (auto simp: quietly_def frame_rules frame_rep set_policing_def virt_key_def virt_links_def intro!: frame_prio frame_virt)

lemmas steps = bind fold mark call run_op loud_control loud_lookup

lemma vr:
  assumes "quietly Q c"
  shows "wlp (commit_vr be v d n r c) (quietly Q)" "wlp (decommit_vr be v d n r c) (quietly Q)"
  unfolding commit_vr_def decommit_vr_def using assms by (intro steps quiet_upd; simp)+

lemma rules:
  assumes "quietly Q c"
  shows "wlp (commit_rules be v d c) (quietly Q)" "wlp (decommit_rules be v d c) (quietly Q)"
  unfolding commit_rules_def decommit_rules_def using assms
  by (intro steps vr; auto simp: quietly_def dest: ack_decommit_delete intro!: frame_vr)+

lemma rates_inout:
  assumes "quietly Q c"
  shows "wlp (commit_rates_inout be v d c) (\<lambda>(e, c'). quietly Q c')" "wlp (decommit_rates_inout be v d c) (quietly Q)"
  unfolding commit_rates_inout_def decommit_rates_inout_def using assms by (intro steps; auto intro!: quiet_upd simp del: rep_upd)+

lemma rates:
  assumes "quietly Q c"
  shows "wlp (decommit_rates be v c) (quietly Q)" "wlp (commit_rates be v c) (\<lambda>(e, c'). quietly Q c')"
  unfolding commit_rates_def decommit_rates_def using assms by (intro steps rates_inout; simp)+

end

interpretation dq: commit_frame "dec cs" for cs
  by unfold_locales (simp_all add: dec_upd)

end
