(* ===== verification/Decommit.thy ===== *)
theory Decommit
  imports CommitFrame
begin

text \<open>Decommitting: a quiet run keeps links and states, creates no views and removes those of the object.\<close>

section \<open>Views\<close>

lemma run_op_quiet:
  "wlp (run_op op p (mark_virt v b) c) (\<lambda>(d, c'). quietly (\<lambda>c'. \<exists>r. c' = c\<lparr>run := r\<rparr>) c')"
  "wlp (run_op op p (mark_pa a b) c) (\<lambda>(d, c'). quietly (\<lambda>c'. \<exists>r. c' = c\<lparr>run := r\<rparr>) c')"
proof -
  have same: "\<exists>r. c = c\<lparr>run := r\<rparr>" by (rule exI [of _ "run c"]) simp
  have "wlp (run_op op p mark c) (\<lambda>(d, c'). quietly (\<lambda>c'. \<exists>r. c' = c\<lparr>run := r\<rparr>) c')"
    if "\<And>e c. wlp (mark e c) (\<lambda>(d, c'). loud c' \<or> c' = c)" for mark :: "lsdn_err_t \<Rightarrow> lsdn_context \<Rightarrow> (bool \<times> lsdn_context) option"
    using that same unfolding run_op_def call_op_def quietly_def
    by (fastforce simp: wlp_def bind_eq_Some_conv split: option.splits)
  from this [OF mark_quiet(1)] this [OF mark_quiet(2)]
  show "wlp (run_op op p (mark_virt v b) c) (\<lambda>(d, c'). quietly (\<lambda>c'. \<exists>r. c' = c\<lparr>run := r\<rparr>) c')"
    "wlp (run_op op p (mark_pa a b) c) (\<lambda>(d, c'). quietly (\<lambda>c'. \<exists>r. c' = c\<lparr>run := r\<rparr>) c')" by simp_all
qed

lemma dec_free_rvirt:
  assumes "dec cs c" and r: "rvirts c q = Some r"
  shows "dec cs ((upd_virt (rv_virt r) (\<lambda>x. x\<lparr>virt_view_list := remove1 q (virt_view_list x)\<rparr>)
    (upd_rpa (rv_pa r) (\<lambda>p. p\<lparr>remote_virt_list := remove1 q (remote_virt_list p)\<rparr>) c))\<lparr>rvirts := (rvirts c)(q := None)\<rparr>)"
    (is "dec cs ?c")
proof -
  have "core_inv ?c" by (rule core_inv_free_rvirt) (use assms in \<open>auto simp: dec_def kept_def\<close>)
  moreover have "shrunk c ?c" by (simp add: shrunk_def upd_defs le_heap_upd le_heap_free)
  moreover have "vr_del ?c" "same_keys cs ?c" using assms by (simp_all add: dec_def kept_def virt_key_def)
  ultimately show ?thesis using assms shrunk_trans by (auto simp: dec_def kept_def)
qed

lemma decommit_remote_virt_dec:
  assumes "quietly (dec cs) c"
  shows "wlp (decommit_remote_virt be rv c) (quietly (\<lambda>c'. dec cs c' \<and> rvirts c' rv = None))"
proof (rule quietly_step [OF assms])
  assume d: "dec cs c"
  show "wlp (decommit_remote_virt be rv c) (quietly (\<lambda>c'. dec cs c' \<and> rvirts c' rv = None))"
    unfolding decommit_remote_virt_def
  proof (intro wlp_bind_any [where 'a = lsdn_remote_virt] loud_lookup, rule quietly_bind(2) [OF run_op_quiet(1)], intro loud_control)
    fix r x ops b c' b' c''
    assume r: "rvirts c rv = Some r" and q: "quietly (\<lambda>c'. \<exists>r. c' = c\<lparr>run := r\<rparr>) c'" and "(b, c') = (b', c'')"
    let ?c = "(upd_virt (rv_virt r) (\<lambda>x. x\<lparr>virt_view_list := remove1 rv (virt_view_list x)\<rparr>)
      (upd_rpa (rv_pa r) (\<lambda>p. p\<lparr>remote_virt_list := remove1 rv (remote_virt_list p)\<rparr>) c''))"
    have "dec cs (?c\<lparr>rvirts := (rvirts c'')(rv := None)\<rparr>)" if "c'' = c\<lparr>run := ru\<rparr>" for ru
      using dec_free_rvirt [of cs "c\<lparr>run := ru\<rparr>" rv r] d r that by simp
    moreover have "rvirts ?c = rvirts c''" by (simp add: upd_defs)
    ultimately show "quietly (\<lambda>c'. dec cs c' \<and> rvirts c' rv = None) (?c\<lparr>rvirts := (rvirts ?c)(rv := None)\<rparr>)"
      using q \<open>(b, c') = (b', c'')\<close> by (auto simp: quietly_def)
  qed
qed (rule decommit_remote_virt_loud)

lemma dec_self: "dec cs c \<Longrightarrow> dec c c"
  by (simp add: dec_def kept_def same_keys_refl shrunk_refl)

lemma dec_trans: "dec cs c \<Longrightarrow> dec c c' \<Longrightarrow> dec cs c'"
  unfolding dec_def kept_def using same_keys_trans shrunk_trans by blast

lemma wlp_conj: "wlp m P \<Longrightarrow> wlp m Q \<Longrightarrow> wlp m (\<lambda>x. P x \<and> Q x)"
  by (simp add: wlp_def)

lemma foldM_gone:
  assumes step: "\<And>x c cs. x \<in> set xs \<Longrightarrow> quietly (dec cs) c \<Longrightarrow> wlp (f x c) (quietly (\<lambda>c'. dec cs c' \<and> gone x c'))"
    and loud: "\<And>x c. loud c \<Longrightarrow> wlp (f x c) loud"
    and stay: "\<And>x c c'. gone x c \<Longrightarrow> dec c c' \<Longrightarrow> gone x c'"
    and "quietly (dec cs) c"
  shows "wlp (foldM f xs c) (quietly (\<lambda>c'. dec cs c' \<and> (\<forall>x\<in>set xs. gone x c')))"
  using assms(1,4)
proof (induction xs arbitrary: c)
  case Nil
  then show ?case by (simp add: wlp_Some)
next
  case (Cons x xs)
  have keep: "wlp (foldM f xs c1) (quietly (dec c1))" if "dec c1 c1" for c1
    by (rule quietly_foldM [OF quietlyI [of "dec c1", OF that]], rule wlp_mono [OF Cons.prems(1)]) (auto elim: quietly_mono)
  show ?case unfolding foldM.simps
  proof (rule quietly_bind(1) [OF Cons.prems(1)])
    fix c1 assume c1: "quietly (\<lambda>c'. dec cs c' \<and> gone x c') c1"
    show "wlp (foldM f xs c1) (quietly (\<lambda>c'. dec cs c' \<and> (\<forall>x\<in>set (x # xs). gone x c')))"
    proof (rule quietly_step [OF c1])
      assume d: "dec cs c1 \<and> gone x c1"
      then have "wlp (foldM f xs c1) (quietly (\<lambda>c'. dec cs c' \<and> (\<forall>x\<in>set xs. gone x c')))"
        by (intro Cons.IH Cons.prems(1) quietlyI [of "dec cs"]) auto
      from wlp_conj [OF this keep] d dec_self [of cs c1] show "wlp (foldM f xs c1) (quietly (\<lambda>c'. dec cs c' \<and> (\<forall>x\<in>set (x # xs). gone x c')))"
        by (auto simp: wlp_def quietly_def intro: stay)
    qed (auto intro: loud_foldM loud)
  qed (use Cons.prems in simp_all)
qed

section \<open>Virts and attachments\<close>

definition unseen_virt :: "ptr \<Rightarrow> lsdn_context \<Rightarrow> bool" where
  "unseen_virt v c \<longleftrightarrow> (\<forall>q z. rvirts c q = Some z \<longrightarrow> rv_virt z \<noteq> v)"

definition unseen_pa :: "ptr \<Rightarrow> lsdn_context \<Rightarrow> bool" where
  "unseen_pa a c \<longleftrightarrow> (\<forall>q z. rpas c q = Some z \<longrightarrow> rp_local z \<noteq> a \<and> rp_remote z \<noteq> a)"

lemma unseen_dec: "unseen_virt v c \<Longrightarrow> dec c c' \<Longrightarrow> unseen_virt v c'" "unseen_pa a c \<Longrightarrow> dec c c' \<Longrightarrow> unseen_pa a c'"
  unfolding unseen_virt_def unseen_pa_def dec_def shrunk_def le_heap_def by metis+

lemma unseen_irrelevant [simp]:
  "unseen_virt v (upd_virt p f1 c) = unseen_virt v c" "unseen_virt v (set_rules st c) = unseen_virt v c"
  "unseen_virt v (c\<lparr>run := r\<rparr>) = unseen_virt v c" "unseen_pa a (c\<lparr>run := r\<rparr>) = unseen_pa a c"
  by (simp_all add: unseen_virt_def unseen_pa_def upd_defs)

lemma unseen_lists:
  assumes "core_inv c"
  shows "unseen_virt v c \<Longrightarrow> virts c v = Some x \<Longrightarrow> virt_view_list x = []"
    "unseen_pa a c \<Longrightarrow> pas c a = Some y \<Longrightarrow> remote_pa_list y = []" "unseen_pa a c \<Longrightarrow> pas c a = Some y \<Longrightarrow> pa_view_list y = []"
  using owns_none [OF viewsD(4) [OF assms], of v x] owns_none [OF viewsD(1) [OF assms], of a y] owns_none [OF viewsD(2) [OF assms], of a y]
  by (auto simp: unseen_virt_def unseen_pa_def)

lemma remote_virts_gone:
  assumes "quietly (dec cs) c"
  shows "wlp (foldM (decommit_remote_virt be) rvs c) (quietly (\<lambda>c'. dec cs c' \<and> (\<forall>q\<in>set rvs. rvirts c' q = None)))"
  by (rule foldM_gone [where gone = "\<lambda>q c. rvirts c q = None", OF decommit_remote_virt_dec decommit_remote_virt_loud _ assms])
    (auto simp: dec_def shrunk_def intro: le_heap_None)

lemma virt_views_gone:
  assumes d: "dec cs c" and x: "virts c v = Some x"
  shows "wlp (foldM (decommit_remote_virt be) (virt_view_list x) c) (quietly (\<lambda>c'. dec cs c' \<and> unseen_virt v c'))"
proof -
  have "unseen_virt v c'" if "dec c c'" "\<forall>q\<in>set (virt_view_list x). rvirts c' q = None" for c'
    unfolding unseen_virt_def
  proof (intro allI impI notI)
    fix q z assume z: "rvirts c' q = Some z" "rv_virt z = v"
    then have "rvirts c q = Some z" using that(1) by (auto simp: dec_def shrunk_def dest: le_heapD)
    then have "q \<in> set (virt_view_list x)" using owns_member [OF viewsD(4) x, of q] d z(2) by (auto simp: dec_def kept_def)
    then show False using that(2) z(1) by simp
  qed
  then have "wlp (foldM (decommit_remote_virt be) (virt_view_list x) c) (quietly (\<lambda>c'. dec c c' \<and> unseen_virt v c'))"
    by (intro wlp_mono [OF remote_virts_gone [OF quietlyI [of "dec c", OF dec_self [OF d]]]]) (auto elim: quietly_mono)
  then show ?thesis using d by (elim wlp_mono) (auto elim!: quietly_mono intro: dec_trans)
qed

lemma decommit_virt_tail:
  assumes "quietly (\<lambda>c. dec cs c \<and> unseen_virt v c) c"
  shows "wlp (case to of
        None \<Rightarrow> Some c
      | Some a \<Rightarrow> do {
          (_, c) \<leftarrow> (if op = None then Some (False, c) else do { _ \<leftarrow> pas c a; run_op op v (mark_virt v True) c });
          Some (upd_virt v (\<lambda>x. x\<lparr>committed_to := None, committed_if := lsdn_if_reset (committed_if x)\<rparr>) c)
        }) (quietly (\<lambda>c. dec cs c \<and> unseen_virt v c))" (is "wlp _ (quietly ?P)")
proof -
  have run: "wlp (run_op op v (mark_virt v True) c) (\<lambda>(b, c'). quietly ?P c')"
    by (rule quietly_step2 [OF assms]) (auto intro!: loud_intros wlp_mono [OF run_op_quiet(1)] simp: quietly_def)
  have upd: "quietly ?P (upd_virt v (\<lambda>x. x\<lparr>committed_to := None, committed_if := lsdn_if_reset (committed_if x)\<rparr>) c)"
    if "quietly ?P c" for c
    using that by (auto simp: quietly_def virt_key_def virt_links_def intro!: dec_upd)
  show ?thesis
    using assms by (intro quietly_bind(2) [where Q = ?P] loud_control loud_lookup run) (auto intro: upd)
qed

lemma decommit_virt_dec:
  assumes "quietly (dec cs) c"
  shows "wlp (decommit_virt be v c) (quietly (\<lambda>c'. dec cs c' \<and> unseen_virt v c'))"
  unfolding decommit_virt_def
proof (intro loud_lookup, rule dq.bind(1) [OF dq.rates(1) [OF assms]], rule dq.bind(1), erule dq.rules(2), rule dq.bind(1), erule dq.rules(2), rule loud_lookup,
    rule quietly_bind(1) [where Q = "\<lambda>c. dec cs c \<and> unseen_virt v c", OF _ decommit_virt_tail])
  fix c3 y
  assume q: "quietly (dec cs) c3" and y: "virts c3 v = Some y"
  show "wlp (foldM (decommit_remote_virt be) (virt_view_list y) c3) (quietly (\<lambda>c'. dec cs c' \<and> unseen_virt v c'))"
    by (rule quietly_step [OF q virt_views_gone [OF _ y]]) (auto intro!: loud_intros)
qed

lemma dec_free_rpa:
  assumes "dec cs c" and r: "rpas c q = Some r" "remote_virt_list r = []"
  shows "dec cs ((upd_pa (rp_local r) (\<lambda>x. x\<lparr>remote_pa_list := remove1 q (remote_pa_list x)\<rparr>)
    (upd_pa (rp_remote r) (\<lambda>x. x\<lparr>pa_view_list := remove1 q (pa_view_list x)\<rparr>) c))\<lparr>rpas := (rpas c)(q := None)\<rparr>)"
    (is "dec cs ?c")
proof -
  have "core_inv ?c" by (rule core_inv_free_rpa) (use assms in \<open>auto simp: dec_def kept_def\<close>)
  moreover have "shrunk c ?c" by (simp add: shrunk_def upd_defs le_heap_free)
  moreover have "vr_del ?c" "same_keys cs ?c" using assms by (simp_all add: dec_def kept_def pa_key_def)
  ultimately show ?thesis using assms shrunk_trans by (auto simp: dec_def kept_def)
qed

text \<open>It is enough to compare with the state before the step.\<close>

lemma dec_from_self:
  assumes "quietly (dec cs) c" and self: "dec c c \<Longrightarrow> wlp m (quietly (\<lambda>c'. dec c c' \<and> Q c'))" and "loud c \<Longrightarrow> wlp m loud"
  shows "wlp m (quietly (\<lambda>c'. dec cs c' \<and> Q c'))"
proof (rule quietly_step [OF assms(1) _ assms(3)])
  assume "dec cs c"
  then show "wlp m (quietly (\<lambda>c'. dec cs c' \<and> Q c'))"
    by (intro wlp_mono [OF self [OF dec_self]]) (auto elim: quietly_mono intro: dec_trans)
qed

lemma decommit_remote_pa_dec:
  assumes "quietly (dec cs) c"
  shows "wlp (decommit_remote_pa be q c) (quietly (\<lambda>c'. dec cs c' \<and> rpas c' q = None))"
proof (rule dec_from_self [OF assms])
  assume d: "dec c c"
  show "wlp (decommit_remote_pa be q c) (quietly (\<lambda>c'. dec c c' \<and> rpas c' q = None))"
    unfolding decommit_remote_pa_def
  proof (intro loud_lookup, rule quietly_bind(1) [OF remote_virts_gone [OF quietlyI [of "dec c", OF d]]],
      rule quietly_bind(2) [where Q = "dec c"])
    fix r ops c1
    assume r: "rpas c q = Some r" and "quietly (\<lambda>c'. dec c c' \<and> (\<forall>q\<in>set (remote_virt_list r). rvirts c' q = None)) c1"
    then have "quietly (dec c) c1" by (auto elim: quietly_mono)
    then show "wlp (run_op (remove_remote_pa ops) q (mark_pa (rp_remote r) True) c1) (\<lambda>(b, c'). quietly (dec c) c')"
      by (intro dq.run_op dq.mark)
  next
    fix r l ops c1 b c2
    assume r: "rpas c q = Some r" and c2: "quietly (dec c) c2"
    let ?c = "upd_pa (rp_local r) (\<lambda>x. x\<lparr>remote_pa_list := remove1 q (remote_pa_list x)\<rparr>)
      (upd_pa (rp_remote r) (\<lambda>x. x\<lparr>pa_view_list := remove1 q (pa_view_list x)\<rparr>) c2)"
    have "dec c (?c\<lparr>rpas := (rpas c2)(q := None)\<rparr>)" if "dec c c2" "rpas c2 q = Some s" "remote_virt_list s = []" for s
    proof -
      have "rp_local s = rp_local r" "rp_remote s = rp_remote r"
        using that(1,2) r by (auto simp: dec_def shrunk_def dest!: le_heapD)
      with dec_free_rpa [OF that] show ?thesis by simp
    qed
    moreover have "rpas ?c = rpas c2" by (simp add: upd_defs)
    ultimately show "wlp (case (b, c2) of (_, c) \<Rightarrow>
        let c = upd_pa (rp_remote r) (\<lambda>x. x\<lparr>pa_view_list := remove1 q (pa_view_list x)\<rparr>) c;
            c = upd_pa (rp_local r) (\<lambda>x. x\<lparr>remote_pa_list := remove1 q (remote_pa_list x)\<rparr>) c
        in Option.bind (rpas c q) (\<lambda>s. Option.bind (c_assert (remote_virt_list s = [])) (\<lambda>_. Some (c\<lparr>rpas := (rpas c)(q := None)\<rparr>))))
      (quietly (\<lambda>c'. dec c c' \<and> rpas c' q = None))"
      using c2 by (auto simp: wlp_def bind_eq_Some_conv quietly_def Let_def)
  qed
qed (rule decommit_remote_pa_loud)

lemma remote_pas_gone:
  assumes "quietly (dec cs) c"
  shows "wlp (foldM (decommit_remote_pa be) rs c) (quietly (\<lambda>c'. dec cs c' \<and> (\<forall>q\<in>set rs. rpas c' q = None)))"
  by (rule foldM_gone [where gone = "\<lambda>q c. rpas c q = None", OF decommit_remote_pa_dec decommit_remote_pa_loud _ assms])
    (auto simp: dec_def shrunk_def intro: le_heap_None)

text \<open>After the views on a list are gone, nobody points to the owner of the list through that field any more.\<close>

lemma rpas_gone:
  assumes own: "owns (pas c) lst (rpas c) (Some \<circ> fld)" and x: "pas c a = Some x" and d: "dec c c'"
    and gone: "\<forall>q\<in>set (lst x). rpas c' q = None"
    and same: "\<And>q z z'. rpas c q = Some z \<Longrightarrow> rpas c' q = Some z' \<Longrightarrow> rp_local z' = rp_local z \<Longrightarrow> rp_remote z' = rp_remote z \<Longrightarrow> fld z' = fld z"
  shows "\<forall>q z. rpas c' q = Some z \<longrightarrow> fld z \<noteq> a"
proof (intro allI impI notI)
  fix q z' assume z: "rpas c' q = Some z'" "fld z' = a"
  then obtain z where "rpas c q = Some z" "rp_local z' = rp_local z" "rp_remote z' = rp_remote z"
    using d by (auto simp: dec_def shrunk_def dest: le_heapD)
  then have "q \<in> set (lst x)" using owns_member [OF own x, of q] same z by fastforce
  then show False using gone z(1) by simp
qed

lemma decommit_pa_dec:
  assumes "quietly (dec cs) c"
  shows "wlp (decommit_pa be a c) (quietly (\<lambda>c'. dec cs c' \<and> unseen_pa a c'))"
proof (rule dec_from_self [OF assms])
  assume d: "dec c c"
  let ?P1 = "\<lambda>c'. dec c c' \<and> (\<forall>q z. rpas c' q = Some z \<longrightarrow> rp_remote z \<noteq> a)" and ?P2 = "\<lambda>c'. dec c c' \<and> unseen_pa a c'"
  have core: "core_inv c1" if "dec c c1" for c1 using that by (simp add: dec_def kept_def)
  have fold1: "wlp (foldM (decommit_remote_pa be) (pa_view_list x) c) (quietly ?P1)" if "pas c a = Some x" for x
    using rpas_gone [OF viewsD(2) [OF core [OF d]] that]
    by (intro wlp_mono [OF remote_pas_gone [OF quietlyI [of "dec c", OF d]]]) (auto elim!: quietly_mono)
  have fold2: "wlp (foldM (decommit_remote_pa be) (remote_pa_list x) c1) (quietly ?P2)" if "?P1 c1" "pas c1 a = Some x" for c1 x
  proof -
    have d1: "dec c1 c1" using that dec_self by blast
    have "?P2 c2" if "dec c1 c2" "\<forall>q\<in>set (remote_pa_list x). rpas c2 q = None" for c2
    proof -
      have "\<forall>q z. rpas c2 q = Some z \<longrightarrow> rp_local z \<noteq> a"
        by (rule rpas_gone [OF viewsD(1) [OF core] \<open>pas c1 a = Some x\<close> that]) (use \<open>?P1 c1\<close> in auto)
      moreover have "\<forall>q z. rpas c2 q = Some z \<longrightarrow> rp_remote z \<noteq> a"
        using that(1) \<open>?P1 c1\<close> unfolding dec_def shrunk_def le_heap_def by metis
      ultimately show ?thesis using dec_trans [OF _ that(1)] \<open>?P1 c1\<close> by (simp add: unseen_pa_def)
    qed
    then show ?thesis by (intro wlp_mono [OF remote_pas_gone [OF quietlyI [of "dec c1", OF d1]]]) (auto elim!: quietly_mono)
  qed
  show "wlp (decommit_pa be a c) (quietly ?P2)"
    unfolding decommit_pa_def
  proof (intro loud_lookup, rule quietly_bind(1) [OF fold1], assumption, rule loud_lookup, rule quietly_bind(1) [where Q = ?P2])
    fix c1 x assume "quietly ?P1 c1" "pas c1 a = Some x"
    then show "wlp (foldM (decommit_remote_pa be) (remote_pa_list x) c1) (quietly ?P2)"
      by (intro quietly_step [OF _ fold2]) (auto intro!: loud_intros)
  next
    fix ops c2 x assume c2: "quietly ?P2 c2"
    have "wlp (run_op (destroy_pa ops) a (mark_pa a True) c2) (\<lambda>(b, c'). quietly ?P2 c')"
      by (rule quietly_step2 [OF c2]) (auto intro!: loud_intros wlp_mono [OF run_op_quiet(2)] simp: quietly_def)
    then show "wlp (Option.bind (physes c2 (pa_phys x)) (\<lambda>p. if committed_as_local p
        then Option.bind (run_op (destroy_pa ops) a (mark_pa a True) c2) (\<lambda>(_, c). Some c) else Some c2)) (quietly ?P2)"
      using c2 by (intro loud_lookup loud_control quietly_bind(2) [where Q = ?P2]) auto
  qed
qed (rule decommit_pa_loud)

end
