(* ===== verification/Sweep.thy ===== *)
theory Sweep
  imports Decommit
begin

text \<open>
  The decommit phase of \<^verbatim>\<open>lsdn_commit\<close>. After a quiet run no object waits for deletion or renewal any more, and the
  links of what is left are intact.
\<close>

definition live :: "lsdn_state \<Rightarrow> bool" where
  "live s \<longleftrightarrow> s \<noteq> LSDN_STATE_RENEW \<and> s \<noteq> LSDN_STATE_DELETE"

text \<open>Attachments with views are not new.\<close>

definition clean_rpas :: "lsdn_context \<Rightarrow> bool" where
  "clean_rpas c \<longleftrightarrow> (\<forall>r z a x. rpas c r = Some z \<longrightarrow> rp_local z = a \<or> rp_remote z = a \<longrightarrow> pas c a = Some x \<longrightarrow> pa_state x \<noteq> LSDN_STATE_NEW)"

definition state_inv :: "lsdn_context \<Rightarrow> bool" where
  "state_inv c \<longleftrightarrow> core_inv c \<and> delete_inv c \<and> noerr_inv c \<and> doomed_inv c"

definition sweep_inv :: "lsdn_context \<Rightarrow> bool" where
  "sweep_inv c \<longleftrightarrow> state_inv c \<and> clean_rpas c"

text \<open>No object is created and the live ones stay so, but for the attachments of the networks \<open>ns\<close>.\<close>

definition fades :: "ptr set \<Rightarrow> lsdn_context \<Rightarrow> lsdn_context \<Rightarrow> bool" where
  "fades ns c c' \<longleftrightarrow>
     le_heap (\<lambda>x x'. network x' = network x \<and> (live (vi_state x) \<longrightarrow> live (vi_state x'))) (virts c) (virts c') \<and>
     le_heap (\<lambda>x x'. pa_net x' = pa_net x \<and> (live (pa_state x) \<longrightarrow> live (pa_state x') \<or> pa_net x \<in> ns)) (pas c) (pas c') \<and>
     le_heap (\<lambda>x x'. live (ne_state x) \<longrightarrow> live (ne_state x')) (nets c) (nets c') \<and>
     le_heap (\<lambda>x x'. live (ph_state x) \<longrightarrow> live (ph_state x')) (physes c) (physes c') \<and>
     le_heap (\<lambda>x x'. live (se_state x) \<longrightarrow> live (se_state x')) (settingss c) (settingss c')"

lemma fades_refl [simp]: "fades ns c c"
  by (simp add: fades_def)

lemma fades_trans: "fades ns c c' \<Longrightarrow> fades ns c' c'' \<Longrightarrow> fades ns c c''"
  unfolding fades_def by (elim conjE, intro conjI) (erule (1) le_heap_trans, auto)+

lemma fades_mono: "fades ns c c' \<Longrightarrow> ns \<subseteq> ms \<Longrightarrow> fades ms c c'"
  unfolding fades_def le_heap_def by blast

lemma same_keysD:
  assumes "same_keys c c'"
  shows "virts c' v = Some x' \<Longrightarrow> \<exists>x. virts c v = Some x \<and> virt_key x' = virt_key x"
    "pas c' a = Some y' \<Longrightarrow> \<exists>y. pas c a = Some y \<and> pa_key y' = pa_key y"
proof -
  have "map_option virt_key (virts c' v) = map_option virt_key (virts c v)" "map_option pa_key (pas c' a) = map_option pa_key (pas c a)"
    using assms by (auto simp: same_keys_def fun_eq_iff)
  then show "virts c' v = Some x' \<Longrightarrow> \<exists>x. virts c v = Some x \<and> virt_key x' = virt_key x"
    "pas c' a = Some y' \<Longrightarrow> \<exists>y. pas c a = Some y \<and> pa_key y' = pa_key y"
    by (auto dest!: sym [of "Some _"])
qed

lemma same_keys_sym: "same_keys c c' \<Longrightarrow> same_keys c' c"
  by (simp add: same_keys_def)

lemma le_heap_mono: "le_heap R h h' \<Longrightarrow> (\<And>x y. R x y \<Longrightarrow> S x y) \<Longrightarrow> le_heap S h h'"
  unfolding le_heap_def by blast

lemma same_keys_le:
  assumes "same_keys c c'"
  shows "le_heap (\<lambda>x x'. virt_key x' = virt_key x) (virts c) (virts c')" "le_heap (\<lambda>y y'. pa_key y' = pa_key y) (pas c) (pas c')"
  using same_keysD [OF assms] by (simp_all add: le_heap_def)

lemma same_keys_fades: "same_keys c c' \<Longrightarrow> fades ns c c'"
  unfolding fades_def
  by (auto simp: virt_key_def pa_key_def same_keys_def [of c c'] intro: le_heap_mono [OF same_keys_le(1)] le_heap_mono [OF same_keys_le(2)])

lemma dec_fades: "dec c c' \<Longrightarrow> fades ns c c'"
  by (simp add: dec_def kept_def same_keys_fades)

lemma same_keys_states:
  assumes "same_keys c c'" "vr_del c'"
  shows "delete_inv c \<Longrightarrow> delete_inv c'" "noerr_inv c \<Longrightarrow> noerr_inv c'" "doomed_inv c \<Longrightarrow> doomed_inv c'"
proof -
  have eq: "nets c' = nets c" "physes c' = physes c" "settingss c' = settingss c" using assms by (simp_all add: same_keys_def)
  note d = same_keysD [OF assms(1)]
  show "delete_inv c \<Longrightarrow> delete_inv c'"
    using assms(2) unfolding delete_inv_def vr_del_def eq by (fastforce dest!: d simp: virt_key_def pa_key_def)
  show "noerr_inv c \<Longrightarrow> noerr_inv c'" unfolding noerr_inv_def eq by (fastforce dest!: d simp: virt_key_def pa_key_def)
  show "doomed_inv c \<Longrightarrow> doomed_inv c'" unfolding doomed_inv_def eq by (fastforce dest!: d simp: pa_key_def)
qed

lemma dec_state_inv: "dec c c' \<Longrightarrow> state_inv c \<Longrightarrow> state_inv c'"
  unfolding dec_def kept_def state_inv_def using same_keys_states by blast

lemma dec_clean_rpas:
  assumes "dec c c'" "clean_rpas c"
  shows "clean_rpas c'"
  unfolding clean_rpas_def
proof (intro allI impI)
  fix r z a x
  assume z: "rpas c' r = Some z" "rp_local z = a \<or> rp_remote z = a" and x: "pas c' a = Some x"
  obtain w where "rpas c r = Some w" "rp_local w = a \<or> rp_remote w = a"
    using assms(1) z by (auto simp: dec_def shrunk_def dest!: le_heapD)
  moreover obtain y where "pas c a = Some y" "pa_state x = pa_state y"
    using assms(1) same_keysD(2) [OF _ x, of c] by (auto simp: dec_def kept_def pa_key_def)
  ultimately show "pa_state x \<noteq> LSDN_STATE_NEW" using assms(2) by (auto simp: clean_rpas_def)
qed

lemma state_inv_dec: "state_inv c \<Longrightarrow> dec c c"
  by (auto simp: state_inv_def delete_inv_def dec_def kept_def vr_del_def same_keys_refl shrunk_refl)

section \<open>Virts\<close>

lemma free_pa_if_possible_rest:
  assumes "free_pa_if_possible a c = Some c'"
  shows "virts c' = virts c" "settingss c' = settingss c" "rpas c' = rpas c" "rvirts c' = rvirts c"
    "map_option ne_state \<circ> nets c' = map_option ne_state \<circ> nets c" "map_option ph_state \<circ> physes c' = map_option ph_state \<circ> physes c"
    "b \<noteq> a \<Longrightarrow> pas c' b = pas c b"
  using assms
  by (auto simp: free_pa_if_possible_def pa_do_free_def bind_eq_Some_conv upd_defs Let_def fun_eq_iff option.map_comp o_def
      split: if_splits free_action.splits)

definition rest_same :: "ptr option \<Rightarrow> lsdn_context \<Rightarrow> lsdn_context \<Rightarrow> bool" where
  "rest_same a c c' \<longleftrightarrow> settingss c' = settingss c \<and> rpas c' = rpas c \<and> rvirts c' = rvirts c \<and>
     map_option ne_state \<circ> nets c' = map_option ne_state \<circ> nets c \<and> map_option ph_state \<circ> physes c' = map_option ph_state \<circ> physes c \<and>
     (\<forall>b. a \<noteq> Some b \<longrightarrow> pas c' b = pas c b)"

lemma rest_same_upd [simp]:
  "rest_same a c (upd_virt v f d) = rest_same a c d" "rest_same (Some b) c (upd_pa b g d) = rest_same (Some b) c d"
  "(\<And>n. ne_state (h n) = ne_state n) \<Longrightarrow> rest_same a c (upd_net m h d) = rest_same a c d"
  "rest_same a c (set_rules st d) = rest_same a c d" "rest_same a c (d\<lparr>virts := hv\<rparr>) = rest_same a c d"
proof -
  have eq: "map_option ne_state \<circ> (k(m := map_option h (k m))) = map_option ne_state \<circ> k" if "\<And>n. ne_state (h n) = ne_state n" for k
    using that by (auto simp: fun_eq_iff option.map_comp o_def)
  show "rest_same a c (upd_virt v f d) = rest_same a c d" "rest_same (Some b) c (upd_pa b g d) = rest_same (Some b) c d"
    "rest_same a c (set_rules st d) = rest_same a c d" "rest_same a c (d\<lparr>virts := hv\<rparr>) = rest_same a c d"
    by (auto simp: rest_same_def upd_defs)
  show "rest_same a c (upd_net m h d) = rest_same a c d" if "\<And>n. ne_state (h n) = ne_state n"
    using eq [OF that] by (simp add: rest_same_def upd_net_def)
qed

lemma rest_same_trans: "rest_same a c c' \<Longrightarrow> rest_same a c' c'' \<Longrightarrow> rest_same a c c''"
  by (simp add: rest_same_def)

lemma virt_do_free_rest:
  assumes inv: "core_inv c" and x: "virts c v = Some x" and free: "virt_do_free v c = Some c'"
  shows "rest_same (connected_through x) c c'"
proof -
  obtain c1 y where 1: "lsdn_vr_do_free_all_rules v c = Some c1" "vr_frame v c c1" "virts c1 v = Some y"
    by (rule lsdn_vr_do_free_all_rules_total [OF inv x])
  have c1: "rest_same (connected_through x) c c1" using vr_frame_fields [OF 1(2)] by (simp add: rest_same_def)
  have y: "connected_through y = connected_through x" using vr_frame_live [OF 1(2) x] 1(3) by auto
  have "wlp (case connected_through y of
          None \<Rightarrow> Some c1
        | Some a \<Rightarrow> do {
            let c = upd_pa a (\<lambda>y. y\<lparr>connected_virt_list := remove1 v (connected_virt_list y)\<rparr>) c1;
            c \<leftarrow> free_pa_if_possible a c;
            Some (upd_virt v (\<lambda>x. x\<lparr>connected_through := None\<rparr>) c)
          }) (rest_same (connected_through x) c)"
  proof (cases "connected_through x")
    case None
    then show ?thesis using c1 y by (simp add: wlp_Some)
  next
    case (Some a)
    have "rest_same (Some a) c (upd_virt v f c2)" if "free_pa_if_possible a (upd_pa a g c1) = Some c2" for c2 f g
    proof -
      have "rest_same (Some a) (upd_pa a g c1) c2" using free_pa_if_possible_rest [OF that] by (simp add: rest_same_def)
      from rest_same_trans [OF _ this, of c] c1 Some show ?thesis by simp
    qed
    then show ?thesis using y Some by (auto simp: wlp_def bind_eq_Some_conv Let_def)
  qed
  then have "wlp (virt_do_free v c) (rest_same (connected_through x) c)"
    unfolding virt_do_free_def using 1(1,3)
    by (auto intro!: loud_control wlp_bind elim!: wlp_mono)
  then show ?thesis using free by (rule wlpD)
qed

lemma states_le:
  "map_option f \<circ> h' = map_option f \<circ> h \<Longrightarrow> le_heap (\<lambda>x x'. P (f x) \<longrightarrow> P (f x')) h h'"
  unfolding le_heap_def fun_eq_iff o_apply by (metis map_option_eq_Some)

lemma clean_pa_lists:
  assumes "sweep_inv c" "pas c a = Some y" "pa_state y = LSDN_STATE_NEW"
  shows "remote_pa_list y = [] \<and> pa_view_list y = []"
proof -
  have "unseen_pa a c" using assms by (auto simp: sweep_inv_def clean_rpas_def unseen_pa_def)
  then show ?thesis using unseen_lists(2,3) [of c a y] assms by (simp add: sweep_inv_def state_inv_def)
qed

lemma virt_do_free_sweep:
  assumes inv: "sweep_inv c" and x: "virts c v = Some x" "unseen_virt v c" and free: "virt_do_free v c = Some c'"
  shows "sweep_inv c'" "fades {network x} c c'" "virts c' v = None"
proof -
  have core: "core_inv c" using inv by (simp add: sweep_inv_def state_inv_def)
  have c': "core_inv c'" "virt_frame v c c'" "virts c' v = None"
    using virt_do_free_total [OF core x(1) unseen_lists(1) [OF core x(2,1)] clean_pa_lists [OF inv]] free by auto
  have ev: "evolves c c'" using c'(2) by (simp add: virt_frame_def)
  have rest: "rest_same (connected_through x) c c'" by (rule virt_do_free_rest [OF core x(1) free])
  have pa: "\<exists>y. pas c a = Some y \<and> pa_phase y y'" if "pas c' a = Some y'" for a y'
    using ev that by (auto simp: evolves_def dest: le_heapD)
  have "clean_rpas c'" using inv rest pa by (fastforce simp: sweep_inv_def clean_rpas_def rest_same_def pa_phase_def)
  then show "sweep_inv c'" using inv c'(1) evolves_parts [OF ev] by (simp add: sweep_inv_def state_inv_def)
  have "pa_net y = network x" if "connected_through x = Some a" "pas c a = Some y" for a y
    using core_invD(3) [OF core] connected_okD [of "virts c" "pas c"] x(1) that by (simp add: attach_inv_def)
  then have "le_heap (\<lambda>y y'. pa_net y' = pa_net y \<and> (live (pa_state y) \<longrightarrow> live (pa_state y') \<or> pa_net y \<in> {network x})) (pas c) (pas c')"
    using pa rest unfolding le_heap_def rest_same_def pa_phase_def by (metis insertI1 option.sel)
  moreover have "le_heap (\<lambda>x x'. network x' = network x \<and> (live (vi_state x) \<longrightarrow> live (vi_state x'))) (virts c) (virts c')"
    using c'(2,3) unfolding le_heap_def virt_frame_def by (metis option.distinct(1))
  ultimately show "fades {network x} c c'" using rest unfolding fades_def rest_same_def by (auto intro: states_le)
  show "virts c' v = None" by fact
qed

lemma ack_decommit_live: "ack_decommit s = (d, s') \<Longrightarrow> s' \<noteq> LSDN_STATE_DELETE \<Longrightarrow> live s'"
  "ack_decommit s = (d, s') \<Longrightarrow> \<not> d \<Longrightarrow> s' = s \<and> live s" "ack_decommit s = (d, s') \<Longrightarrow> s' = LSDN_STATE_DELETE \<longleftrightarrow> s = LSDN_STATE_DELETE"
  "ack_decommit s = (d, s') \<Longrightarrow> failed_state s' \<longleftrightarrow> failed_state s" "ack_decommit s = (d, s') \<Longrightarrow> live s \<Longrightarrow> s' = s"
  by (cases s; auto simp: live_def)+

lemma ack_virt_sweep:
  assumes inv: "sweep_inv c" and x: "virts c v = Some x" and ack: "ack_decommit (vi_state x) = (d, s)"
  shows "sweep_inv (upd_virt v (\<lambda>x. x\<lparr>vi_state := s\<rparr>) c)" "fades ns c (upd_virt v (\<lambda>x. x\<lparr>vi_state := s\<rparr>) c)"
proof -
  let ?c = "upd_virt v (\<lambda>x. x\<lparr>vi_state := s\<rparr>) c"
  have "core_inv ?c" by (rule core_inv_upd_virt) (use inv in \<open>auto simp: sweep_inv_def state_inv_def virt_links_def\<close>)
  then show "sweep_inv ?c"
    using inv x ack_decommit_live(3,4) [OF ack]
    by (auto simp: sweep_inv_def state_inv_def clean_rpas_def delete_inv_def noerr_inv_def doomed_inv_def upd_virt_def)
  show "fades ns c ?c" using x ack_decommit_live(5) [OF ack] by (auto simp: fades_def upd_virt_def le_heap_def)
qed

lemma sweep_virt_step:
  assumes inv: "sweep_inv c" and x: "virts c v = Some x"
  shows "wlp (sweep_virt be v c) (quietly (\<lambda>c'. sweep_inv c' \<and> fades {network x} c c' \<and> (\<forall>x'. virts c' v = Some x' \<longrightarrow> live (vi_state x'))))"
    (is "wlp _ (quietly ?P)")
proof -
  obtain d s where ack: "ack_decommit (vi_state x) = (d, s)" by fastforce
  let ?c = "upd_virt v (\<lambda>x. x\<lparr>vi_state := s\<rparr>) c"
  note 1 = ack_virt_sweep [OF inv x ack]
  have dec1: "dec ?c ?c" using 1(1) by (simp add: sweep_inv_def state_inv_dec)
  have x1: "virts ?c v = Some (x\<lparr>vi_state := s\<rparr>)" using x by (simp add: upd_virt_def)
  have tail: "wlp (Option.bind (virts c2 v) (\<lambda>x. if ack_delete (vi_pending_free x) then virt_do_free v c2 else Some c2)) (quietly ?P)"
    if c2: "dec ?c c2" "unseen_virt v c2" for c2
  proof (intro loud_lookup loud_control)
    fix x2 assume x2: "virts c2 v = Some x2"
    have key: "network x2 = network x" "vi_state x2 = s" "vi_pending_free x2 = vi_pending_free x"
      using same_keysD(1) [OF _ x2, of ?c] c2(1) x1 by (auto simp: dec_def kept_def virt_key_def)
    have inv2: "sweep_inv c2" using 1(1) dec_state_inv [OF c2(1)] dec_clean_rpas [OF c2(1)] by (simp add: sweep_inv_def)
    have f2: "fades {network x} c c2" by (rule fades_trans [OF 1(2) dec_fades [OF c2(1)]])
    show "wlp (virt_do_free v c2) (quietly ?P)" if "ack_delete (vi_pending_free x2)"
      using virt_do_free_sweep [OF inv2 x2 c2(2)] key(1) fades_trans [OF f2] by (auto simp: wlp_def quietly_def)
    show "quietly ?P c2" if "\<not> ack_delete (vi_pending_free x2)"
    proof -
      have "s \<noteq> LSDN_STATE_DELETE" using that key inv2 x2 by (auto simp: ack_delete_def sweep_inv_def state_inv_def delete_inv_def)
      then show ?thesis using ack_decommit_live(1) [OF ack] x2 key inv2 f2 by (simp add: quietly_def)
    qed
  qed
  have "wlp (Option.bind (decommit_virt be v ?c) (\<lambda>c. Option.bind (virts c v) (\<lambda>x. if ack_delete (vi_pending_free x) then virt_do_free v c else Some c)))
      (quietly ?P)"
    by (rule quietly_bind(1) [OF decommit_virt_dec [OF quietlyI [of "dec ?c", OF dec1]]], erule quietly_step)
      (rule tail, simp_all, intro loud_intros)
  then show ?thesis
    using 1 ack_decommit_live(2) [OF ack] x x1 ack
    unfolding sweep_virt_def by (auto simp: wlp_Some quietly_def Let_def)
qed

section \<open>Attachments\<close>

lemma ack_pa_state:
  assumes inv: "state_inv c" and x: "pas c a = Some x" and ack: "ack_decommit (pa_state x) = (d, s)"
  shows "state_inv (upd_pa a (\<lambda>x. x\<lparr>pa_state := s\<rparr>) c)" "fades ns c (upd_pa a (\<lambda>x. x\<lparr>pa_state := s\<rparr>) c)"
proof -
  let ?c = "upd_pa a (\<lambda>x. x\<lparr>pa_state := s\<rparr>) c"
  have "core_inv ?c" by (rule core_inv_upd_pa) (use inv in \<open>auto simp: state_inv_def pa_links_def\<close>)
  then show "state_inv ?c"
    using inv x ack_decommit_live(3,4) [OF ack]
    by (auto simp: state_inv_def delete_inv_def noerr_inv_def doomed_inv_def upd_pa_def)
  show "fades ns c ?c" using x ack_decommit_live(5) [OF ack] by (auto simp: fades_def upd_pa_def le_heap_def)
qed

lemma pa_do_free_sweep:
  assumes inv: "sweep_inv c" and x: "pas c a = Some x" "unseen_pa a c" and free: "pa_do_free a c = Some c'"
  shows "sweep_inv c'" "fades ns c c'" "pas c' a = None"
proof -
  have core: "core_inv c" using inv by (simp add: sweep_inv_def state_inv_def)
  have c': "core_inv c'" by (rule pa_do_free_inv [OF core free x(1)]) (use unseen_lists(2,3) [OF core x(2,1)] in simp_all)
  have ev: "evolves c c'" by (rule pa_do_free_evolves [OF free])
  have eq: "pas c' = (pas c)(a := None)" "virts c' = virts c" "rpas c' = rpas c" "settingss c' = settingss c"
    "map_option ne_state \<circ> nets c' = map_option ne_state \<circ> nets c" "map_option ph_state \<circ> physes c' = map_option ph_state \<circ> physes c"
    using free by (auto simp: pa_do_free_def bind_eq_Some_conv upd_defs Let_def fun_eq_iff option.map_comp o_def)
  have "clean_rpas c'" using inv eq by (auto simp: sweep_inv_def clean_rpas_def)
  then show "sweep_inv c'" using inv c' evolves_parts [OF ev] by (simp add: sweep_inv_def state_inv_def)
  show "fades ns c c'" unfolding fades_def using eq by (auto intro: states_le le_heap_free)
  show "pas c' a = None" using eq by simp
qed

lemma sweep_pa_step:
  assumes inv: "sweep_inv c" and x: "pas c a = Some x"
  shows "wlp (sweep_pa be a c) (quietly (\<lambda>c'. sweep_inv c' \<and> fades {} c c' \<and> (\<forall>x'. pas c' a = Some x' \<longrightarrow> live (pa_state x'))))"
    (is "wlp _ (quietly ?P)")
proof -
  obtain d s where ack: "ack_decommit (pa_state x) = (d, s)" by fastforce
  let ?c = "upd_pa a (\<lambda>x. x\<lparr>pa_state := s\<rparr>) c"
  have st: "state_inv c" and cl: "clean_rpas c" using inv by (simp_all add: sweep_inv_def)
  note 1 = ack_pa_state [OF st x ack]
  have x1: "pas ?c a = Some (x\<lparr>pa_state := s\<rparr>)" using x by (simp add: upd_pa_def)
  have tail: "wlp (Option.bind (pas c2 a) (\<lambda>x. if ack_delete (pa_pending_free x) then pa_do_free a c2 else Some c2)) (quietly ?P)"
    if c2: "dec ?c c2" "unseen_pa a c2" for c2
  proof (intro loud_lookup loud_control)
    fix x2 assume x2: "pas c2 a = Some x2"
    have key: "pa_state x2 = s" "pa_pending_free x2 = pa_pending_free x"
      using same_keysD(2) [OF _ x2, of ?c] c2(1) x1 by (auto simp: dec_def kept_def pa_key_def)
    have other: "\<exists>z. pas c b = Some z \<and> pa_state y = pa_state z" if "pas c2 b = Some y" "b \<noteq> a" for b y
      using same_keysD(2) [OF _ that(1), of ?c] c2(1) that(2) by (auto simp: dec_def kept_def pa_key_def upd_pa_def)
    have view: "\<exists>w. rpas c r = Some w \<and> rp_local w = rp_local z \<and> rp_remote w = rp_remote z" if "rpas c2 r = Some z" for r z
      using c2(1) that by (auto simp: dec_def shrunk_def upd_pa_def dest!: le_heapD)
    have "clean_rpas c2" unfolding clean_rpas_def
    proof (intro allI impI)
      fix r z b y assume "rpas c2 r = Some z" "rp_local z = b \<or> rp_remote z = b" "pas c2 b = Some y"
      moreover then have "b \<noteq> a" using c2(2) by (auto simp: unseen_pa_def)
      ultimately show "pa_state y \<noteq> LSDN_STATE_NEW" using view [of r z] other [of b y] cl unfolding clean_rpas_def by metis
    qed
    then have inv2: "sweep_inv c2" using dec_state_inv [OF c2(1) 1(1)] by (simp add: sweep_inv_def)
    have f2: "fades {} c c2" by (rule fades_trans [OF 1(2) dec_fades [OF c2(1)]])
    show "wlp (pa_do_free a c2) (quietly ?P)" if "ack_delete (pa_pending_free x2)"
      using pa_do_free_sweep [OF inv2 x2 c2(2)] fades_trans [OF f2] by (auto simp: wlp_def quietly_def)
    show "quietly ?P c2" if "\<not> ack_delete (pa_pending_free x2)"
    proof -
      have "s \<noteq> LSDN_STATE_DELETE" using that key inv2 x2 by (auto simp: ack_delete_def sweep_inv_def state_inv_def delete_inv_def)
      then show ?thesis using ack_decommit_live(1) [OF ack] x2 key inv2 f2 by (simp add: quietly_def)
    qed
  qed
  have "wlp (Option.bind (decommit_pa be a ?c) (\<lambda>c. Option.bind (pas c a) (\<lambda>x. if ack_delete (pa_pending_free x) then pa_do_free a c else Some c)))
      (quietly ?P)"
    by (rule quietly_bind(1) [OF decommit_pa_dec [OF quietlyI [of "dec ?c", OF state_inv_dec [OF 1(1)]]]], erule quietly_step)
      (rule tail, simp_all, intro loud_intros)
  moreover have "?c = c" "live (pa_state x)" if "\<not> d" using ack_decommit_live(2) [OF ack that] x by (simp_all add: upd_same)
  ultimately show ?thesis
    using inv x ack unfolding sweep_pa_def by (auto simp: wlp_Some quietly_def Let_def)
qed

section \<open>Networks\<close>

lemma quietly_foldM_prefix:
  assumes "quietly (I xs) c" "\<And>x ys c. quietly (I (x # ys)) c \<Longrightarrow> wlp (f x c) (quietly (I ys))"
  shows "wlp (foldM f xs c) (quietly (I []))"
  using assms(1)
proof (induction xs arbitrary: c)
  case (Cons x xs)
  show ?case unfolding foldM.simps by (rule quietly_bind(1) [OF assms(2) [OF Cons.prems]]) (rule Cons.IH)
qed (simp add: wlp_Some)

definition virts_live :: "ptr \<Rightarrow> lsdn_context \<Rightarrow> bool" where
  "virts_live n c \<longleftrightarrow> (\<forall>v x. virts c v = Some x \<longrightarrow> network x = n \<longrightarrow> live (vi_state x))"

definition pas_live :: "ptr \<Rightarrow> lsdn_context \<Rightarrow> bool" where
  "pas_live n c \<longleftrightarrow> (\<forall>a x. pas c a = Some x \<longrightarrow> pa_net x = n \<longrightarrow> live (pa_state x))"

definition settled :: "ptr \<Rightarrow> lsdn_context \<Rightarrow> bool" where
  "settled n c \<longleftrightarrow> virts_live n c \<and> pas_live n c \<and> (\<forall>x. nets c n = Some x \<longrightarrow> live (ne_state x))"

lemma fades_live:
  "fades ns c c' \<Longrightarrow> virts_live n c \<Longrightarrow> virts_live n c'"
  "fades ns c c' \<Longrightarrow> n \<notin> ns \<Longrightarrow> settled n c \<Longrightarrow> settled n c'"
proof -
  have v: "virts_live n c'" if "fades ns c c'" "virts_live n c"
    using that unfolding fades_def virts_live_def le_heap_def by metis
  have p: "pas_live n c'" if "fades ns c c'" "n \<notin> ns" "pas_live n c"
    using that unfolding fades_def pas_live_def le_heap_def by metis
  have n: "\<forall>x. nets c' n = Some x \<longrightarrow> live (ne_state x)" if "fades ns c c'" "\<forall>x. nets c n = Some x \<longrightarrow> live (ne_state x)"
    using that unfolding fades_def le_heap_def by metis
  show "fades ns c c' \<Longrightarrow> virts_live n c \<Longrightarrow> virts_live n c'" by (rule v)
  show "fades ns c c' \<Longrightarrow> n \<notin> ns \<Longrightarrow> settled n c \<Longrightarrow> settled n c'" unfolding settled_def using v p n by blast
qed

lemma sweep_virts:
  assumes inv: "sweep_inv c" and n: "nets c n = Some x"
  shows "wlp (foldM (sweep_virt be) (virt_list x) c) (quietly (\<lambda>c'. sweep_inv c' \<and> fades {n} c c' \<and> virts_live n c'))"
proof -
  have own: "owns (nets c) virt_list (virts c) (Some \<circ> network)"
    using inv core_invD(2) [of c] by (simp add: sweep_inv_def state_inv_def owners_inv_def)
  let ?I = "\<lambda>vs c'. sweep_inv c' \<and> fades {n} c c' \<and> (\<forall>v y. virts c' v = Some y \<longrightarrow> (v \<in> set vs \<longrightarrow> network y = n) \<and> (network y = n \<longrightarrow> v \<notin> set vs \<longrightarrow> live (vi_state y)))"
  have "wlp (foldM (sweep_virt be) (virt_list x) c) (quietly (?I []))"
  proof (rule quietly_foldM_prefix)
    have "virts c v = Some y \<longrightarrow> (v \<in> set (virt_list x) \<longleftrightarrow> network y = n)" for v y
      using owns_member [OF own n, of v] by auto
    then show "quietly (?I (virt_list x)) c" using inv by (auto simp: quietly_def)
  next
    fix v vs c1 assume q: "quietly (?I (v # vs)) c1"
    show "wlp (sweep_virt be v c1) (quietly (?I vs))"
    proof (rule quietly_step [OF q])
      assume i: "?I (v # vs) c1"
      show "wlp (sweep_virt be v c1) (quietly (?I vs))"
      proof (cases "virts c1 v")
        case None
        then show ?thesis by (simp add: sweep_virt_def wlp_None)
      next
        case (Some y)
        then have "network y = n" using i by auto
        have "?I vs c2" if c2: "sweep_inv c2" "fades {network y} c1 c2" "\<forall>x'. virts c2 v = Some x' \<longrightarrow> live (vi_state x')" for c2
        proof -
          have "\<exists>z. virts c1 w = Some z \<and> network z' = network z \<and> (live (vi_state z) \<longrightarrow> live (vi_state z'))" if "virts c2 w = Some z'" for w z'
            using c2(2) that unfolding fades_def by (auto dest: le_heapD)
          then have "\<forall>w z'. virts c2 w = Some z' \<longrightarrow> (w \<in> set vs \<longrightarrow> network z' = n) \<and> (network z' = n \<longrightarrow> w \<notin> set vs \<longrightarrow> live (vi_state z'))"
            using i c2(3) by (metis list.set_intros(2) set_ConsD)
          then show ?thesis using c2 i fades_trans \<open>network y = n\<close> by blast
        qed
        then show ?thesis using i by (intro wlp_mono [OF sweep_virt_step [OF _ Some]]) (auto elim!: quietly_mono)
      qed
    qed (rule sweep_loud)
  qed
  then show ?thesis by (elim wlp_mono) (auto elim!: quietly_mono simp: virts_live_def)
qed

lemma sweep_pas:
  assumes inv: "sweep_inv c" and n: "nets c n = Some x"
  shows "wlp (foldM (sweep_pa be) (attached_list x) c) (quietly (\<lambda>c'. sweep_inv c' \<and> fades {} c c' \<and> pas_live n c'))"
proof -
  have own: "owns (nets c) attached_list (pas c) (Some \<circ> pa_net)"
    using inv core_invD(2) [of c] by (simp add: sweep_inv_def state_inv_def owners_inv_def)
  let ?I = "\<lambda>as c'. sweep_inv c' \<and> fades {} c c' \<and> (\<forall>a y. pas c' a = Some y \<longrightarrow> pa_net y = n \<longrightarrow> a \<notin> set as \<longrightarrow> live (pa_state y))"
  have "wlp (foldM (sweep_pa be) (attached_list x) c) (quietly (?I []))"
  proof (rule quietly_foldM_prefix)
    have "pas c a = Some y \<longrightarrow> (a \<in> set (attached_list x) \<longleftrightarrow> pa_net y = n)" for a y
      using owns_member [OF own n, of a] by auto
    then show "quietly (?I (attached_list x)) c" using inv by (auto simp: quietly_def)
  next
    fix a as c1 assume q: "quietly (?I (a # as)) c1"
    show "wlp (sweep_pa be a c1) (quietly (?I as))"
    proof (rule quietly_step [OF q])
      assume i: "?I (a # as) c1"
      show "wlp (sweep_pa be a c1) (quietly (?I as))"
      proof (cases "pas c1 a")
        case None
        then show ?thesis by (simp add: sweep_pa_def wlp_None)
      next
        case (Some y)
        have "?I as c2" if c2: "sweep_inv c2" "fades {} c1 c2" "\<forall>x'. pas c2 a = Some x' \<longrightarrow> live (pa_state x')" for c2
        proof -
          have "\<exists>z. pas c1 w = Some z \<and> pa_net z' = pa_net z \<and> (live (pa_state z) \<longrightarrow> live (pa_state z'))" if "pas c2 w = Some z'" for w z'
            using c2(2) that unfolding fades_def by (auto dest: le_heapD)
          then have "\<forall>w z'. pas c2 w = Some z' \<longrightarrow> pa_net z' = n \<longrightarrow> w \<notin> set as \<longrightarrow> live (pa_state z')"
            using i c2(3) by (metis set_ConsD)
          then show ?thesis using c2 i fades_trans by blast
        qed
        then show ?thesis using i by (intro wlp_mono [OF sweep_pa_step [OF _ Some]]) (auto elim!: quietly_mono)
      qed
    qed (rule sweep_loud)
  qed
  then show ?thesis by (elim wlp_mono) (auto elim!: quietly_mono simp: pas_live_def)
qed

lemma ack_net_sweep:
  assumes inv: "sweep_inv c" and x: "nets c n = Some x" and ack: "ack_decommit (ne_state x) = (d, s)"
  shows "sweep_inv (upd_net n (\<lambda>x. x\<lparr>ne_state := s\<rparr>) c)" "fades ns c (upd_net n (\<lambda>x. x\<lparr>ne_state := s\<rparr>) c)"
proof -
  let ?c = "upd_net n (\<lambda>x. x\<lparr>ne_state := s\<rparr>) c"
  have "core_inv ?c" by (rule core_inv_upd_net) (use inv in \<open>auto simp: sweep_inv_def state_inv_def net_links_def\<close>)
  then show "sweep_inv ?c"
    using inv x ack_decommit_live(3,4) [OF ack]
    by (auto simp: sweep_inv_def state_inv_def clean_rpas_def delete_inv_def noerr_inv_def doomed_inv_def upd_net_def)
  show "fades ns c ?c" using x ack_decommit_live(5) [OF ack] by (auto simp: fades_def upd_net_def le_heap_def)
qed

lemma net_do_free_sweep:
  assumes inv: "sweep_inv c" and free: "net_do_free n c = Some c'"
  shows "sweep_inv c'" "fades ns c c'" "nets c' n = None"
proof -
  have core: "core_inv c'" using inv net_do_free_inv [OF _ free] by (simp add: sweep_inv_def state_inv_def)
  have eq: "pas c' = pas c" "virts c' = virts c" "rpas c' = rpas c" "nets c' = (nets c)(n := None)" "physes c' = physes c" "vrs c' = vrs c"
    "map_option (\<lambda>s. (se_state s, se_pending_free s)) \<circ> settingss c' = map_option (\<lambda>s. (se_state s, se_pending_free s)) \<circ> settingss c"
    using free by (auto simp: net_do_free_def bind_eq_Some_conv upd_defs Let_def fun_eq_iff option.map_comp o_def)
  have se: "\<exists>t. settingss c p = Some t \<and> se_state t = se_state t' \<and> se_pending_free t = se_pending_free t'" if "settingss c' p = Some t'" for p t'
    using fun_cong [OF eq(7), of p] that by (cases "settingss c p") auto
  have "delete_inv c'" "noerr_inv c'"
    using inv se eq by (fastforce simp: sweep_inv_def state_inv_def delete_inv_def noerr_inv_def)+
  then show "sweep_inv c'" using inv core eq by (auto simp: sweep_inv_def state_inv_def clean_rpas_def doomed_inv_def)
  show "fades ns c c'" unfolding fades_def using eq se by (fastforce simp: le_heap_def)
  show "nets c' n = None" using eq by simp
qed

lemma sweep_net_tail:
  assumes inv: "sweep_inv c" and live: "virts_live n c" "pas_live n c" and x: "nets c n = Some x"
  shows "wlp (let (decommit, s) = ack_decommit (ne_state x); c = upd_net n (\<lambda>x. x\<lparr>ne_state := s\<rparr>) c
        in if decommit \<and> ack_delete (ne_pending_free x) then net_do_free n c else Some c)
      (\<lambda>c'. sweep_inv c' \<and> fades {} c c' \<and> settled n c')"
proof -
  obtain d s where ack: "ack_decommit (ne_state x) = (d, s)" by fastforce
  let ?c = "upd_net n (\<lambda>x. x\<lparr>ne_state := s\<rparr>) c"
  note 1 = ack_net_sweep [OF inv x ack]
  have stay: "virts_live n c'" "pas_live n c'" if "fades {} c c'" for c'
    using fades_live(1) [OF that live(1)] that live(2) unfolding fades_def pas_live_def le_heap_def by (blast, metis empty_iff)
  have "sweep_inv c' \<and> fades {} c c' \<and> settled n c'" if "net_do_free n ?c = Some c'" for c'
    using net_do_free_sweep [OF 1(1) that] fades_trans [OF 1(2)] stay by (simp add: settled_def)
  moreover have "settled n ?c" if "\<not> (d \<and> ack_delete (ne_pending_free x))"
  proof -
    have "live s" using that ack_decommit_live(1,2) [OF ack] ack_decommit_live(3) [OF ack] inv x ack
      by (cases "ne_state x") (auto simp: live_def ack_delete_def sweep_inv_def state_inv_def delete_inv_def)
    then show ?thesis using stay [OF 1(2)] x by (simp add: settled_def) (simp add: upd_net_def)
  qed
  ultimately show ?thesis using 1 ack by (auto simp: wlp_def Let_def)
qed

lemma sweep_net_step:
  assumes inv: "sweep_inv c"
  shows "wlp (sweep_net be n c) (quietly (\<lambda>c'. sweep_inv c' \<and> fades {n} c c' \<and> settled n c'))" (is "wlp _ (quietly ?P)")
  unfolding sweep_net_def
proof (rule loud_lookup, rule quietly_bind(1) [OF sweep_virts [OF inv]], assumption)
  let ?tail = "\<lambda>c x. let (decommit, s) = ack_decommit (ne_state x); c = upd_net n (\<lambda>x. x\<lparr>ne_state := s\<rparr>) c in if decommit \<and> ack_delete (ne_pending_free x) then net_do_free n c else Some c"
  fix c1 assume q: "quietly (\<lambda>c'. sweep_inv c' \<and> fades {n} c c' \<and> virts_live n c') c1"
  show "wlp (Option.bind (nets c1 n) (\<lambda>x. Option.bind (foldM (sweep_pa be) (attached_list x) c1) (\<lambda>c. Option.bind (nets c n) (?tail c)))) (quietly ?P)"
  proof (rule quietly_step [OF q])
    assume c1: "sweep_inv c1 \<and> fades {n} c c1 \<and> virts_live n c1"
    show "wlp (Option.bind (nets c1 n) (\<lambda>x. Option.bind (foldM (sweep_pa be) (attached_list x) c1) (\<lambda>c. Option.bind (nets c n) (?tail c)))) (quietly ?P)"
    proof (rule loud_lookup, rule quietly_bind(1) [OF sweep_pas [OF conjunct1 [OF c1]]], assumption)
      fix c2 assume q2: "quietly (\<lambda>c'. sweep_inv c' \<and> fades {} c1 c' \<and> pas_live n c') c2"
      show "wlp (Option.bind (nets c2 n) (?tail c2)) (quietly ?P)"
      proof (rule quietly_step [OF q2])
        assume c2: "sweep_inv c2 \<and> fades {} c1 c2 \<and> pas_live n c2"
        then have f2: "fades {n} c c2" "virts_live n c2" using c1 fades_mono [of "{}" c1 c2 "{n}"] fades_trans fades_live(1) by blast+
        show "wlp (Option.bind (nets c2 n) (?tail c2)) (quietly ?P)"
        proof (rule loud_lookup)
          fix x assume "nets c2 n = Some x"
          with c2 have "wlp (?tail c2 x) (\<lambda>c'. sweep_inv c' \<and> fades {} c2 c' \<and> settled n c')"
            by (intro sweep_net_tail f2(2)) auto
          then show "wlp (?tail c2 x) (quietly ?P)"
            by (elim wlp_mono) (auto simp: quietly_def intro: fades_trans [OF f2(1)] fades_mono)
        qed
      qed (intro loud_intros; simp)
    qed
  qed (intro loud_intros; simp)
qed

section \<open>The decommit phase\<close>

definition all_live :: "lsdn_context \<Rightarrow> bool" where
  "all_live c \<longleftrightarrow> (\<forall>v x. virts c v = Some x \<longrightarrow> live (vi_state x)) \<and> (\<forall>a x. pas c a = Some x \<longrightarrow> live (pa_state x)) \<and>
     (\<forall>n x. nets c n = Some x \<longrightarrow> live (ne_state x)) \<and> (\<forall>p x. physes c p = Some x \<longrightarrow> live (ph_state x)) \<and>
     (\<forall>s x. settingss c s = Some x \<longrightarrow> live (se_state x))"

definition nets_live :: "lsdn_context \<Rightarrow> bool" where
  "nets_live c \<longleftrightarrow> (\<forall>v x. virts c v = Some x \<longrightarrow> live (vi_state x)) \<and> (\<forall>a x. pas c a = Some x \<longrightarrow> live (pa_state x)) \<and>
     (\<forall>n x. nets c n = Some x \<longrightarrow> live (ne_state x))"

lemma settled_all:
  assumes "core_inv c" "\<And>n. settled n c"
  shows "nets_live c"
  using assms(2) unfolding nets_live_def settled_def virts_live_def pas_live_def by blast

lemma sweep_nets:
  assumes inv: "sweep_inv c"
  shows "wlp (foldM (sweep_net be) (networks_list c) c) (quietly (\<lambda>c'. sweep_inv c' \<and> nets_live c'))"
proof -
  have core: "core_inv c" using inv by (simp add: sweep_inv_def state_inv_def)
  let ?I = "\<lambda>ns c'. sweep_inv c' \<and> distinct ns \<and> (\<forall>n. n \<notin> set ns \<longrightarrow> settled n c')"
  have "wlp (foldM (sweep_net be) (networks_list c) c) (quietly (?I []))"
  proof (rule quietly_foldM_prefix)
    have l: "lists_all (networks_list c) (nets c)" using core_invD(1) [OF core] by (simp add: lists_inv_def)
    have none: "nets c n = None" if "n \<notin> set (networks_list c)" for n using that lists_all_mem [OF l, of n] by auto
    have own: "owns (nets c) virt_list (virts c) (Some \<circ> network)" "owns (nets c) attached_list (pas c) (Some \<circ> pa_net)"
      using core_invD(2) [OF core] by (simp_all add: owners_inv_def)
    have "settled n c" if "n \<notin> set (networks_list c)" for n
      using none [OF that] by (auto simp: settled_def virts_live_def pas_live_def elim: owns_owner [OF own(1)] owns_owner [OF own(2)])
    then show "quietly (?I (networks_list c)) c" using inv l by (auto simp: quietly_def lists_all_def)
  next
    fix n ns c1 assume q: "quietly (?I (n # ns)) c1"
    show "wlp (sweep_net be n c1) (quietly (?I ns))"
    proof (rule quietly_step [OF q])
      assume i: "?I (n # ns) c1"
      have "?I ns c2" if "sweep_inv c2" "fades {n} c1 c2" "settled n c2" for c2
        using that i fades_live(2) [OF that(2)] by (auto) (metis singletonD)
      then show "wlp (sweep_net be n c1) (quietly (?I ns))"
        using i by (intro wlp_mono [OF sweep_net_step]) (auto elim!: quietly_mono)
    qed (rule sweep_net_loud)
  qed
  then show ?thesis by (elim wlp_mono) (auto elim!: quietly_mono intro!: settled_all simp: sweep_inv_def state_inv_def)
qed

lemma sweep_phys_step:
  assumes inv: "state_inv c" "nets_live c"
  shows "wlp (sweep_phys p c) (\<lambda>c'. state_inv c' \<and> nets_live c' \<and> settingss c' = settingss c \<and> settings_list c' = settings_list c \<and>
    (\<forall>q. q \<noteq> p \<longrightarrow> physes c' q = physes c q) \<and> (\<forall>x. physes c' p = Some x \<longrightarrow> live (ph_state x)))"
  unfolding sweep_phys_def
proof (intro loud_lookup loud_control)
  fix x d s
  assume x: "physes c p = Some x" and ack: "ack_decommit (ph_state x) = (d, s)"
  let ?c = "upd_phys p (\<lambda>x. x\<lparr>ph_state := s\<rparr>) c"
  have core: "core_inv c" "core_inv ?c" using inv(1) by (auto simp: state_inv_def phys_links_def intro!: core_inv_upd_phys)
  have st: "state_inv ?c"
    using inv(1) x ack_decommit_live(3,4) [OF ack] core(2)
    by (auto simp: state_inv_def delete_inv_def noerr_inv_def doomed_inv_def upd_phys_def)
  show "wlp (phys_do_free p ?c) (\<lambda>c'. state_inv c' \<and> nets_live c' \<and> settingss c' = settingss c \<and> settings_list c' = settings_list c \<and>
      (\<forall>q. q \<noteq> p \<longrightarrow> physes c' q = physes c q) \<and> (\<forall>x. physes c' p = Some x \<longrightarrow> live (ph_state x)))"
    if del: "d \<and> ack_delete (ph_pending_free x)"
  proof (rule wlpI)
    fix c' assume free: "phys_do_free p ?c = Some c'"
    have own: "owns (physes c) attached_to_list (pas c) (Some \<circ> pa_phys)" using core_invD(2) [OF core(1)] by (simp add: owners_inv_def)
    have "ph_state x = LSDN_STATE_DELETE" using del inv(1) x by (auto simp: ack_delete_def state_inv_def delete_inv_def)
    then have "(Some \<circ> pa_phys) y \<noteq> Some p" if "pas c a = Some y" for a y
      using that inv x by (fastforce simp: state_inv_def doomed_inv_def nets_live_def live_def)
    then have "attached_to_list x = []" using owns_none [OF own x] by blast
    then have "core_inv c'" using phys_do_free_inv [OF core(2) free, of "x\<lparr>ph_state := s\<rparr>"] x by (simp add: upd_phys_def)
    moreover have "c' = (c\<lparr>phys_list := remove1 p (phys_list c), phys_names := lsdn_name_free p (phys_names c), physes := (physes c)(p := None)\<rparr>)"
      using free by (auto simp: phys_do_free_def upd_phys_def bind_eq_Some_conv)
    ultimately show "state_inv c' \<and> nets_live c' \<and> settingss c' = settingss c \<and> settings_list c' = settings_list c \<and>
      (\<forall>q. q \<noteq> p \<longrightarrow> physes c' q = physes c q) \<and> (\<forall>x. physes c' p = Some x \<longrightarrow> live (ph_state x))"
      using inv by (simp add: state_inv_def delete_inv_def noerr_inv_def doomed_inv_def nets_live_def)
  qed
  have "live s" if "\<not> (d \<and> ack_delete (ph_pending_free x))"
    using that ack_decommit_live(1,2) [OF ack] inv(1) x ack
    by (cases "ph_state x") (auto simp: live_def ack_delete_def state_inv_def delete_inv_def)
  then show "state_inv ?c \<and> nets_live ?c \<and> settingss ?c = settingss c \<and> settings_list ?c = settings_list c \<and>
      (\<forall>q. q \<noteq> p \<longrightarrow> physes ?c q = physes c q) \<and> (\<forall>x. physes ?c p = Some x \<longrightarrow> live (ph_state x))"
    if "\<not> (d \<and> ack_delete (ph_pending_free x))"
    using that st inv(2) x by (simp add: nets_live_def) (simp add: upd_phys_def)
qed

lemma wlp_foldM_prefix:
  assumes "I xs c" "\<And>x ys c. I (x # ys) c \<Longrightarrow> wlp (f x c) (I ys)"
  shows "wlp (foldM f xs c) (I [])"
  using assms(1)
proof (induction xs arbitrary: c)
  case (Cons x xs)
  show ?case unfolding foldM.simps by (rule wlp_bind, rule wlp_mono [OF assms(2) [OF Cons.prems]]) (rule Cons.IH)
qed (simp add: wlp_Some)

lemma sweep_physes:
  assumes "state_inv c" "nets_live c"
  shows "wlp (foldM sweep_phys (phys_list c) c)
    (\<lambda>c'. state_inv c' \<and> nets_live c' \<and> (\<forall>p x. physes c' p = Some x \<longrightarrow> live (ph_state x)))"
proof -
  let ?I = "\<lambda>ps c'. state_inv c' \<and> nets_live c' \<and> (\<forall>p x. physes c' p = Some x \<longrightarrow> p \<notin> set ps \<longrightarrow> live (ph_state x))"
  have "wlp (foldM sweep_phys (phys_list c) c) (?I [])"
  proof (rule wlp_foldM_prefix)
    have "lists_all (phys_list c) (physes c)" using core_invD(1) [of c] assms(1) by (simp add: state_inv_def lists_inv_def)
    then show "?I (phys_list c) c" using assms by (auto dest: lists_all_mem)
  next
    fix p ps c1 assume i: "?I (p # ps) c1"
    show "wlp (sweep_phys p c1) (?I ps)"
      using i by (intro wlp_mono [OF sweep_phys_step [of c1 p]]) (auto, metis)
  qed
  then show ?thesis by simp
qed

lemma sweep_settings_step:
  assumes inv: "state_inv c"
  shows "wlp (sweep_settings p c) (\<lambda>c'. state_inv c' \<and> virts c' = virts c \<and> pas c' = pas c \<and> nets c' = nets c \<and> physes c' = physes c \<and>
    (\<forall>q. q \<noteq> p \<longrightarrow> settingss c' q = settingss c q) \<and> (\<forall>x. settingss c' p = Some x \<longrightarrow> live (se_state x)))" (is "wlp _ ?P")
  unfolding sweep_settings_def
proof (intro loud_lookup loud_control)
  fix x d s
  assume x: "settingss c p = Some x" and ack: "ack_decommit (se_state x) = (d, s)"
  let ?c = "upd_settings p (\<lambda>x. x\<lparr>se_state := s\<rparr>) c"
  have "core_inv ?c" using inv by (auto simp: state_inv_def settings_links_def intro!: core_inv_upd_settings)
  then have st: "state_inv ?c"
    using inv x ack_decommit_live(3,4) [OF ack]
    by (auto simp: state_inv_def delete_inv_def noerr_inv_def doomed_inv_def upd_settings_def)
  show "wlp (settings_do_free p ?c) ?P"
  proof (rule wlpI)
    fix c' assume free: "settings_do_free p ?c = Some c'"
    then have "core_inv c'" using settings_do_free_inv st by (auto simp: state_inv_def)
    moreover have "c' = c\<lparr>settings_list := remove1 p (settings_list c), setting_names := lsdn_name_free p (setting_names c),
             settingss := (settingss c)(p := None)\<rparr>"
      using free by (auto simp: settings_do_free_def upd_settings_def bind_eq_Some_conv)
    ultimately show "?P c'" using inv by (simp add: state_inv_def delete_inv_def noerr_inv_def doomed_inv_def)
  qed
  have "live s" if "\<not> (d \<and> ack_delete (se_pending_free x))"
    using that inv x ack by (cases "se_state x") (auto simp: live_def ack_delete_def state_inv_def delete_inv_def)
  then show "?P ?c" if "\<not> (d \<and> ack_delete (se_pending_free x))"
    using that st x by simp (simp add: upd_settings_def)
qed

lemma sweep_settingss:
  assumes "state_inv c" "nets_live c" "\<forall>p x. physes c p = Some x \<longrightarrow> live (ph_state x)"
  shows "wlp (foldM sweep_settings (settings_list c) c) (\<lambda>c'. state_inv c' \<and> all_live c')"
proof -
  let ?I = "\<lambda>ps c'. state_inv c' \<and> nets_live c' \<and> (\<forall>p x. physes c' p = Some x \<longrightarrow> live (ph_state x)) \<and>
    (\<forall>p x. settingss c' p = Some x \<longrightarrow> p \<notin> set ps \<longrightarrow> live (se_state x))"
  have "wlp (foldM sweep_settings (settings_list c) c) (?I [])"
  proof (rule wlp_foldM_prefix)
    have "lists_all (settings_list c) (settingss c)" using core_invD(1) [of c] assms(1) by (simp add: state_inv_def lists_inv_def)
    then show "?I (settings_list c) c" using assms by (auto dest: lists_all_mem)
  next
    fix p ps c1 assume i: "?I (p # ps) c1"
    show "wlp (sweep_settings p c1) (?I ps)"
      using i by (intro wlp_mono [OF sweep_settings_step [of c1 p]]) (auto simp: nets_live_def, metis)
  qed
  then show ?thesis by (elim wlp_mono) (auto simp: nets_live_def all_live_def)
qed

theorem decommit_phase_settles:
  assumes "sweep_inv c"
  shows "wlp (decommit_phase be c) (quietly (\<lambda>c'. state_inv c' \<and> all_live c'))" (is "wlp _ (quietly ?P)")
  unfolding decommit_phase_def
proof (rule quietly_bind(1) [OF sweep_nets [OF assms]], erule quietly_step)
  fix c1 assume c1: "sweep_inv c1 \<and> nets_live c1"
  have "wlp (Option.bind (foldM sweep_phys (phys_list c1) c1) (\<lambda>c. foldM sweep_settings (settings_list c) c)) ?P"
    by (rule wlp_bind, rule wlp_mono [OF sweep_physes]) (use c1 sweep_settingss in \<open>auto simp: sweep_inv_def\<close>)
  then show "wlp (Option.bind (foldM sweep_phys (phys_list c1) c1) (\<lambda>c. foldM sweep_settings (settings_list c) c)) (quietly ?P)"
    by (elim wlp_mono) (rule quietlyI)
qed (intro loud_intros; simp)

end
