(* ===== verification/Recommit.thy ===== *)
theory Recommit
  imports Sweep
begin

text \<open>
  The recommit phase of \<^verbatim>\<open>lsdn_commit\<close>. A quiet run keeps the links and the commit states; what it creates are views
  between attachments and the kernel objects of the back-ends.
\<close>

lemma quietly_cases: "quietly P c \<Longrightarrow> (P c \<Longrightarrow> thesis) \<Longrightarrow> (loud c \<Longrightarrow> thesis) \<Longrightarrow> thesis"
  by (auto simp: quietly_def)

lemma calm_bind:
  assumes "wlp m (\<lambda>(r, c'). loud c' \<or> P c' \<and> \<not> r)"
  shows "(\<And>c. P c \<Longrightarrow> wlp (f (False, c)) (quietly R)) \<Longrightarrow> (\<And>r c. loud c \<Longrightarrow> wlp (f (r, c)) loud) \<Longrightarrow> wlp (Option.bind m f) (quietly R)"
    "(\<And>c. P c \<Longrightarrow> wlp (g (False, c)) (\<lambda>(b, c'). quietly R c')) \<Longrightarrow> (\<And>r c. loud c \<Longrightarrow> wlp (g (r, c)) (\<lambda>(b, c'). loud c')) \<Longrightarrow>
      wlp (Option.bind m g) (\<lambda>(b, c'). quietly R c')"
  using assms by (fastforce simp: wlp_def bind_eq_Some_conv quietly_def)+

lemma report_bind:
  "(\<And>c. loud c \<Longrightarrow> wlp (f c) loud) \<Longrightarrow> wlp (Option.bind (c_report cd rs c) f) (quietly P)"
  "(\<And>c. loud c \<Longrightarrow> wlp (g c) (\<lambda>(b, c'). loud c')) \<Longrightarrow> wlp (Option.bind (c_report cd rs c) g) (\<lambda>(b, c'). quietly P c')"
  using c_report_loud [of cd rs c] by (fastforce simp: wlp_def bind_eq_Some_conv quietly_def)+

text \<open>Between states without failed objects a quiet step does not fail.\<close>

definition calm :: "lsdn_context \<Rightarrow> lsdn_context \<Rightarrow> bool" where
  "calm cs c \<longleftrightarrow> kept cs c \<and> noerr_inv c \<and> rpas c = rpas cs \<and> rvirts c = rvirts cs"

lemma kept_noerr: "kept cs c \<Longrightarrow> kept cs c' \<Longrightarrow> noerr_inv c \<Longrightarrow> noerr_inv c'"
  by (rule same_keys_states(2) [of c]) (auto simp: kept_def intro: same_keys_trans same_keys_sym)

lemma calm_upd:
  assumes "calm cs c"
  shows "dec c c' \<Longrightarrow> rpas c' = rpas c \<Longrightarrow> rvirts c' = rvirts c \<Longrightarrow> calm cs c'" and "dec c c"
  using assms same_keys_trans [of cs c] kept_noerr [of c c c']
  by (auto simp: calm_def dec_def kept_def same_keys_refl shrunk_refl)

locale calm_frame = commit_frame +
  assumes no_failure: "Q c \<Longrightarrow> noerr_inv c"
begin

lemma mark_calm:
  assumes "quietly Q c"
  shows "wlp (mark_virt v b e c) (\<lambda>(r, c'). loud c' \<or> (Q c' \<and> c' = c) \<and> \<not> r)"
    "wlp (mark_pa a b e c) (\<lambda>(r, c'). loud c' \<or> (Q c' \<and> c' = c) \<and> \<not> r)"
proof -
  have m: "\<not> d \<and> s' = s \<and> r' = r" if "mark_commit_err r s subj b e = Some (d, s', r')" "\<not> failed_state s" "problem_count r' = 0" for r s subj d s' r'
    using that mark_commit_err_result(1,2) [OF that(1)] mark_commit_err_result(3) [OF that(1)]
    by (auto simp: mark_commit_err_def bind_eq_Some_conv split: if_splits dest: lsdn_problem_report_SomeD)
  show "wlp (mark_virt v b e c) (\<lambda>(r, c'). loud c' \<or> (Q c' \<and> c' = c) \<and> \<not> r)"
  proof (rule quietly_cases [OF assms])
    assume q: "Q c"
    then have "\<not> failed_state (vi_state x)" if "virts c v = Some x" for x using no_failure that by (auto simp: noerr_inv_def)
    with q show ?thesis using m by (fastforce simp: wlp_def mark_virt_def bind_eq_Some_conv loud_def upd_same)
  qed (rule wlp_mono [OF mark_loud(1)], auto)
  show "wlp (mark_pa a b e c) (\<lambda>(r, c'). loud c' \<or> (Q c' \<and> c' = c) \<and> \<not> r)"
  proof (rule quietly_cases [OF assms])
    assume q: "Q c"
    then have "\<not> failed_state (pa_state x)" if "pas c a = Some x" for x using no_failure that by (auto simp: noerr_inv_def)
    with q show ?thesis using m by (fastforce simp: wlp_def mark_pa_def bind_eq_Some_conv loud_def upd_same)
  qed (rule wlp_mono [OF mark_loud(2)], auto)
qed

lemma run_op_calm:
  assumes "quietly Q c"
  shows "wlp (run_op op p (mark_virt v b) c) (\<lambda>(r, c'). loud c' \<or> (Q c' \<and> (\<exists>ru. c' = c\<lparr>run := ru\<rparr>)) \<and> \<not> r)"
    "wlp (run_op op p (mark_pa a b) c) (\<lambda>(r, c'). loud c' \<or> (Q c' \<and> (\<exists>ru. c' = c\<lparr>run := ru\<rparr>)) \<and> \<not> r)"
proof -
  have same: "\<exists>r. c = c\<lparr>run := r\<rparr>" by (rule exI [of _ "run c"]) simp
  have "wlp (run_op op p mark c) (\<lambda>(r, c'). loud c' \<or> (Q c' \<and> (\<exists>ru. c' = c\<lparr>run := ru\<rparr>)) \<and> \<not> r)"
    if "\<And>e c. quietly Q c \<Longrightarrow> wlp (mark e c) (\<lambda>(r, c'). loud c' \<or> (Q c' \<and> c' = c) \<and> \<not> r)" for mark :: "lsdn_err_t \<Rightarrow> lsdn_context \<Rightarrow> (bool \<times> lsdn_context) option"
  proof -
    have "quietly Q (c\<lparr>run := ru\<rparr>)" for ru using assms by (simp add: quietly_def frame_run)
    from that [OF this] same assms show ?thesis unfolding run_op_def call_op_def quietly_def
      by (fastforce simp: wlp_def bind_eq_Some_conv split: option.splits)
  qed
  from this [OF mark_calm(1)] this [OF mark_calm(2)]
  show "wlp (run_op op p (mark_virt v b) c) (\<lambda>(r, c'). loud c' \<or> (Q c' \<and> (\<exists>ru. c' = c\<lparr>run := ru\<rparr>)) \<and> \<not> r)"
    "wlp (run_op op p (mark_pa a b) c) (\<lambda>(r, c'). loud c' \<or> (Q c' \<and> (\<exists>ru. c' = c\<lparr>run := ru\<rparr>)) \<and> \<not> r)" by simp_all
qed

lemma quiet_virt: "quietly Q c \<Longrightarrow> quietly Q (upd_virt v (\<lambda>x. x\<lparr>committed_to := t, committed_if := i\<rparr>) c)"
  by (auto simp: quietly_def virt_key_def virt_links_def intro: frame_virt)

lemma new_virt_rates:
  assumes "quietly Q c" "\<And>c. loud c \<Longrightarrow> wlp (f c) (\<lambda>(b, c'). loud c')"
  shows "wlp (do { (err, c) \<leftarrow> commit_rates be v c; (failed, c) \<leftarrow> mark_virt v False err c; if \<not> failed then Some (True, c) else f c })
    (\<lambda>(b, c'). quietly Q c')"
proof (rule bind(2) [OF rates(2) [OF assms(1)]], unfold prod.case)
  fix e c assume "quietly Q c"
  note m = mark_calm(1) [OF this]
  show "wlp (Option.bind (mark_virt v False e c) (\<lambda>(failed, c). if \<not> failed then Some (True, c) else f c)) (\<lambda>(b, c'). quietly Q c')"
    by (rule calm_bind(2) [OF m]) (auto simp: wlp_Some quietly_def intro: assms(2))
qed

lemma new_virt:
  assumes "quietly Q c"
  shows "wlp (commit_new_virt be ops a v c) (\<lambda>(b, c'). quietly Q c')"
proof -
  have roll: "wlp (if b then Some (False, upd_virt v f c)
      else do { (err, c) \<leftarrow> commit_rates be v c; (failed, c) \<leftarrow> mark_virt v False err c; if \<not> failed then Some (True, c) else g c })
    (\<lambda>(b, c'). loud c')" if "loud c" "\<And>c. loud c \<Longrightarrow> wlp (g c) (\<lambda>(b, c'). loud c')" for b f g c
    using that by (intro loud_intros; simp)
  note 1 = calm_bind(2) [OF run_op_calm(1)]
  show ?thesis
    unfolding commit_new_virt_def
    by (intro loud_lookup wlp_let wlp_case_prod wlp_if, rule report_bind(2), simp add: wlp_Some, rule 1,
        intro quiet_virt quiet_upd(2) assms, unfold prod.case if_False, rule new_virt_rates, rule quietlyI, simp,
        (intro loud_intros; simp), rule roll, simp, (intro loud_intros; simp))
qed

lemma virt:
  assumes "quietly Q c"
  shows "wlp (commit_virt be ops a v c) (quietly Q)"
  unfolding commit_virt_def using assms by (intro steps new_virt rules; simp)

end

interpretation cq: calm_frame "calm cs" for cs
proof unfold_locales
  fix c v d n r and f :: "lsdn_virt \<Rightarrow> lsdn_virt" and g :: "vr_prio \<Rightarrow> vr_prio" and h :: "lsdn_vr \<Rightarrow> lsdn_vr"
  assume c: "calm cs c"
  note step = calm_upd(1) [OF c]
  have views: "rpas (upd_virt v f c) = rpas c" "rvirts (upd_virt v f c) = rvirts c" "rpas (upd_prio v d n g c) = rpas c"
    "rvirts (upd_prio v d n g c) = rvirts c" "rpas (upd_vr r h c) = rpas c" "rvirts (upd_vr r h c) = rvirts c"
    by (simp_all add: upd_defs upd_prio_def)
  show "calm cs (upd_virt v f c)" if "\<And>x. virt_key (f x) = virt_key x \<and> virt_links x (f x)"
    by (rule step [OF dec_upd(1) [OF calm_upd(2) [OF c]] views(1,2)]) (rule that)
  show "calm cs (upd_prio v d n g c)" if "\<And>pr. vr_prio_num (g pr) = vr_prio_num pr \<and> rules_list (g pr) = rules_list pr"
    by (rule step [OF dec_upd(2) [OF calm_upd(2) [OF c]] views(3,4)]) (rule that)
  show "calm cs (upd_vr r h c)" if "\<And>y. vr_home (h y) = vr_home y"
    "\<And>y. vrs c r = Some y \<Longrightarrow> (vr_pending_free y \<longleftrightarrow> vr_state y = LSDN_STATE_DELETE) \<Longrightarrow> (vr_pending_free (h y) \<longleftrightarrow> vr_state (h y) = LSDN_STATE_DELETE)"
    by (rule step [OF dec_upd(3) [OF calm_upd(2) [OF c]] views(5,6)]) (use that in auto)
qed (auto simp: calm_def kept_def noerr_inv_def)

section \<open>Views\<close>

definition add_rpa :: "ptr \<Rightarrow> ptr \<Rightarrow> ptr \<Rightarrow> lsdn_context \<Rightarrow> lsdn_context" where
  "add_rpa q a b c = upd_pa a (\<lambda>x. x\<lparr>remote_pa_list := q # remote_pa_list x\<rparr>)
    (upd_pa b (\<lambda>x. x\<lparr>pa_view_list := q # pa_view_list x\<rparr>)
      (c\<lparr>rpas := (rpas c)(q \<mapsto> \<lparr>rp_local = a, rp_remote = b, remote_virt_list = []\<rparr>)\<rparr>))"

definition add_rvirt :: "ptr \<Rightarrow> ptr \<Rightarrow> ptr \<Rightarrow> lsdn_context \<Rightarrow> lsdn_context" where
  "add_rvirt q p v c = upd_rpa p (\<lambda>p. p\<lparr>remote_virt_list := q # remote_virt_list p\<rparr>)
    (upd_virt v (\<lambda>x. x\<lparr>virt_view_list := q # virt_view_list x\<rparr>) (c\<lparr>rvirts := (rvirts c)(q \<mapsto> \<lparr>rv_pa = p, rv_virt = v\<rparr>)\<rparr>))"

definition pa_new :: "lsdn_context \<Rightarrow> ptr \<Rightarrow> bool" where
  "pa_new c a \<longleftrightarrow> (\<exists>x. pas c a = Some x \<and> pa_state x = LSDN_STATE_NEW)"

definition virt_new :: "lsdn_context \<Rightarrow> ptr \<Rightarrow> bool" where
  "virt_new c v \<longleftrightarrow> (\<exists>x. virts c v = Some x \<and> vi_state x = LSDN_STATE_NEW)"

text \<open>The object got the next address and the back-end was called.\<close>

definition created :: "(ptr \<Rightarrow> lsdn_context \<Rightarrow> lsdn_context) \<Rightarrow> lsdn_context \<Rightarrow> lsdn_context \<Rightarrow> bool" where
  "created f c c' \<longleftrightarrow> (\<exists>ru. c' = (f (next_ptr c) (c\<lparr>next_ptr := next_ptr c + 1\<rparr>))\<lparr>run := ru\<rparr>)"

lemma run_comm:
  "add_rpa q a b (c\<lparr>run := ru\<rparr>) = (add_rpa q a b c)\<lparr>run := ru\<rparr>" "add_rvirt q p v (c\<lparr>run := ru\<rparr>) = (add_rvirt q p v c)\<lparr>run := ru\<rparr>"
  by (simp_all add: add_rpa_def add_rvirt_def upd_defs)

lemma kept_run [simp]: "kept cs (c\<lparr>run := ru\<rparr>) = kept cs c"
  by (simp add: kept_def)

lemma calm_self: "kept cs c \<Longrightarrow> noerr_inv c \<Longrightarrow> calm c c"
  by (simp add: calm_def kept_def same_keys_refl)

lemma fresh_next: "core_inv c \<Longrightarrow> core_inv (c\<lparr>next_ptr := next_ptr c + 1\<rparr>) \<and> fresh (next_ptr c) (c\<lparr>next_ptr := next_ptr c + 1\<rparr>)"
  by (auto simp: core_inv_defs fresh_def)

lemma kept_add:
  assumes "kept cs c"
  shows "pas c a \<noteq> None \<Longrightarrow> pas c b \<noteq> None \<Longrightarrow> kept cs (add_rpa (next_ptr c) a b (c\<lparr>next_ptr := next_ptr c + 1\<rparr>))"
    "rpas c p \<noteq> None \<Longrightarrow> virts c v \<noteq> None \<Longrightarrow> kept cs (add_rvirt (next_ptr c) p v (c\<lparr>next_ptr := next_ptr c + 1\<rparr>))"
proof -
  let ?c = "c\<lparr>next_ptr := next_ptr c + 1\<rparr>"
  have c: "core_inv ?c" "fresh (next_ptr c) ?c" "vr_del ?c" "same_keys cs ?c" using assms fresh_next [of c] by (simp_all add: kept_def)
  show "kept cs (add_rpa (next_ptr c) a b ?c)" if "pas c a \<noteq> None" "pas c b \<noteq> None"
    using core_inv_add_rpa [OF c(1,2), of "\<lparr>rp_local = a, rp_remote = b, remote_virt_list = []\<rparr>"] that c(3,4)
    by (simp add: kept_def add_rpa_def pa_key_def)
  show "kept cs (add_rvirt (next_ptr c) p v ?c)" if "rpas c p \<noteq> None" "virts c v \<noteq> None"
    using core_inv_add_rvirt [OF c(1,2), of "\<lparr>rv_pa = p, rv_virt = v\<rparr>"] that c(3,4)
    by (simp add: kept_def add_rvirt_def virt_key_def)
qed

lemma c_malloc_run:
  assumes "c_malloc c = (Some q, c')"
  obtains ru where "q = next_ptr c" "c' = (c\<lparr>next_ptr := next_ptr c + 1\<rparr>)\<lparr>run := ru\<rparr>"
proof (rule c_malloc_cases [OF assms])
  fix nl assume "Some q = Some (next_ptr c)" "c' = set_nl nl (c\<lparr>next_ptr := next_ptr c + 1\<rparr>)"
  then show thesis unfolding set_nl_def set_rules_def by (intro that) simp_all
qed simp

lemma commit_remote_pa_calm:
  assumes k: "kept cs c" "noerr_inv c"
  shows "wlp (commit_remote_pa be ops a b c)
    (quietly (\<lambda>c'. if a \<noteq> b \<and> (pa_new c a \<or> pa_new c b) then created (\<lambda>q. add_rpa q a b) c c' else c' = c))" (is "wlp _ (quietly ?P)")
  unfolding commit_remote_pa_def Let_def
proof (intro loud_control loud_lookup)
  fix x y r c1 q
  assume x: "b \<noteq> a" "pas c a = Some x" "pas c b = Some y" "\<not> (pa_state x \<noteq> LSDN_STATE_NEW \<and> pa_state y \<noteq> LSDN_STATE_NEW)"
    and m: "c_malloc c = (r, c1)" "r = Some q"
  obtain ru where c1: "q = next_ptr c" "c1 = (c\<lparr>next_ptr := next_ptr c + 1\<rparr>)\<lparr>run := ru\<rparr>" by (rule c_malloc_run [OF m(1) [unfolded m(2)]])
  let ?d = "add_rpa q a b (c\<lparr>next_ptr := next_ptr c + 1\<rparr>)"
  have add: "upd_pa a (\<lambda>x. x\<lparr>remote_pa_list := q # remote_pa_list x\<rparr>) (upd_pa b (\<lambda>y. y\<lparr>pa_view_list := q # pa_view_list y\<rparr>)
      (c1\<lparr>rpas := (rpas c1)(q \<mapsto> \<lparr>rp_local = a, rp_remote = b, remote_virt_list = []\<rparr>)\<rparr>)) = ?d\<lparr>run := ru\<rparr>"
    unfolding add_rpa_def [symmetric] c1(2) run_comm by simp
  have d: "kept cs (?d\<lparr>run := ru\<rparr>)" using kept_add(1) [OF k(1), of a b] x c1(1) by simp
  then have "noerr_inv (?d\<lparr>run := ru\<rparr>)" using kept_noerr [OF k(1) _ k(2)] by blast
  then have q: "quietly (calm (?d\<lparr>run := ru\<rparr>)) (?d\<lparr>run := ru\<rparr>)" using d by (intro quietlyI calm_self)
  have P: "?P ((?d\<lparr>run := ru\<rparr>)\<lparr>run := ru'\<rparr>)" for ru' using x c1 by (auto simp: pa_new_def created_def)
  show "wlp (Option.bind (run_op (add_remote_pa ops) q (mark_pa b False)
        (upd_pa a (\<lambda>x. x\<lparr>remote_pa_list := q # remote_pa_list x\<rparr>) (upd_pa b (\<lambda>y. y\<lparr>pa_view_list := q # pa_view_list y\<rparr>)
          (c1\<lparr>rpas := (rpas c1)(q \<mapsto> \<lparr>rp_local = a, rp_remote = b, remote_virt_list = []\<rparr>)\<rparr>))))
      (\<lambda>(failed, c). if failed then decommit_pa be b
          ((upd_pa a (\<lambda>x. x\<lparr>remote_pa_list := remove1 q (remote_pa_list x)\<rparr>) (upd_pa b (\<lambda>y. y\<lparr>pa_view_list := remove1 q (pa_view_list y)\<rparr>) c))
           \<lparr>rpas := (rpas (upd_pa a (\<lambda>x. x\<lparr>remote_pa_list := remove1 q (remote_pa_list x)\<rparr>)
                      (upd_pa b (\<lambda>y. y\<lparr>pa_view_list := remove1 q (pa_view_list y)\<rparr>) c)))(q := None)\<rparr>)
        else Some c)) (quietly ?P)"
    unfolding add
    by (rule calm_bind(1) [OF cq.run_op_calm(2) [OF q]]) (use P in \<open>auto intro!: loud_intros quietlyI\<close>)
next
  show "wlp (Option.bind (c_report cd rs c1) (\<lambda>c. decommit_pa be b (upd_pa a f c))) (quietly ?P)" for cd rs c1 f
    by (rule report_bind(1)) (intro loud_intros; simp)
qed (auto simp: pa_new_def intro!: quietlyI)

lemma commit_remote_virt_calm:
  assumes k: "kept cs c" "noerr_inv c" and p: "rpas c p \<noteq> None"
  shows "wlp (commit_remote_virt be ops a p v c)
    (quietly (\<lambda>c'. if pa_new c a \<or> virt_new c v then created (\<lambda>q. add_rvirt q p v) c c' else c' = c))" (is "wlp _ (quietly ?P)")
  unfolding commit_remote_virt_def Let_def
proof (intro loud_control loud_lookup)
  fix x y r c1 q
  assume x: "pas c a = Some x" "virts c v = Some y" "\<not> (pa_state x \<noteq> LSDN_STATE_NEW \<and> vi_state y \<noteq> LSDN_STATE_NEW)"
    and m: "c_malloc c = (r, c1)" "r = Some q"
  obtain ru where c1: "q = next_ptr c" "c1 = (c\<lparr>next_ptr := next_ptr c + 1\<rparr>)\<lparr>run := ru\<rparr>" by (rule c_malloc_run [OF m(1) [unfolded m(2)]])
  let ?d = "add_rvirt q p v (c\<lparr>next_ptr := next_ptr c + 1\<rparr>)"
  have add: "upd_rpa p (\<lambda>p. p\<lparr>remote_virt_list := q # remote_virt_list p\<rparr>)
    (upd_virt v (\<lambda>x. x\<lparr>virt_view_list := q # virt_view_list x\<rparr>) (c1\<lparr>rvirts := (rvirts c1)(q \<mapsto> \<lparr>rv_pa = p, rv_virt = v\<rparr>)\<rparr>)) = ?d\<lparr>run := ru\<rparr>"
    unfolding add_rvirt_def [symmetric] c1(2) run_comm by simp
  have d: "kept cs (?d\<lparr>run := ru\<rparr>)" using kept_add(2) [OF k(1), of p v] x p c1(1) by simp
  then have "noerr_inv (?d\<lparr>run := ru\<rparr>)" using kept_noerr [OF k(1) _ k(2)] by blast
  then have q: "quietly (calm (?d\<lparr>run := ru\<rparr>)) (?d\<lparr>run := ru\<rparr>)" using d by (intro quietlyI calm_self)
  have P: "?P ((?d\<lparr>run := ru\<rparr>)\<lparr>run := ru'\<rparr>)" for ru' using x c1 by (auto simp: pa_new_def virt_new_def created_def)
  show "wlp (Option.bind (run_op (add_remote_virt ops) q (mark_virt v False)
      (upd_rpa p (\<lambda>p. p\<lparr>remote_virt_list := q # remote_virt_list p\<rparr>)
        (upd_virt v (\<lambda>x. x\<lparr>virt_view_list := q # virt_view_list x\<rparr>) (c1\<lparr>rvirts := (rvirts c1)(q \<mapsto> \<lparr>rv_pa = p, rv_virt = v\<rparr>)\<rparr>))))
      (\<lambda>(failed, c). if failed then decommit_virt be v c else Some c)) (quietly ?P)"
    unfolding add
    by (rule calm_bind(1) [OF cq.run_op_calm(1) [OF q]]) (use P in \<open>auto intro!: loud_intros quietlyI\<close>)
next
  show "wlp (Option.bind (c_report cd rs c1) (\<lambda>c. decommit_virt be v (upd_pa a f c))) (quietly ?P)" for cd rs c1 f
    by (rule report_bind(1)) (intro loud_intros; simp)
qed (auto simp: pa_new_def virt_new_def intro!: quietlyI)

section \<open>Attachments\<close>

text \<open>A calm state keeps the links and states and has no failed object.\<close>

definition calmly :: "lsdn_context \<Rightarrow> lsdn_context \<Rightarrow> bool" where
  "calmly cs c \<longleftrightarrow> kept cs c \<and> noerr_inv c"

lemma calmly_step:
  assumes "quietly (calmly cs) c" "calmly cs c \<Longrightarrow> wlp m (quietly (\<lambda>c'. kept cs c' \<and> P c'))" "loud c \<Longrightarrow> wlp m loud"
  shows "wlp m (quietly (\<lambda>c'. calmly cs c' \<and> P c'))"
proof (rule quietly_step [OF assms(1) _ assms(3)])
  assume c: "calmly cs c"
  from assms(2) [OF c] show "wlp m (quietly (\<lambda>c'. calmly cs c' \<and> P c'))"
    by (elim wlp_mono quietly_mono) (use c kept_noerr in \<open>auto simp: calmly_def\<close>)
qed

lemma calm_calmly: "calmly cs c \<Longrightarrow> calm c c' \<Longrightarrow> calmly cs c'"
  unfolding calmly_def calm_def kept_def using same_keys_trans by blast

lemma commit_virt_calmly:
  assumes "quietly (calmly cs) c"
  shows "wlp (commit_virt be ops a v c) (quietly (calmly cs))"
proof (rule quietly_step [OF assms])
  assume c: "calmly cs c"
  then have "quietly (calm c) c" by (auto simp: calmly_def intro: quietlyI calm_self)
  from this show "wlp (commit_virt be ops a v c) (quietly (calmly cs))"
    by (intro wlp_mono [OF cq.virt]) (auto elim: quietly_mono intro: calm_calmly [OF c])
qed (intro loud_intros)

lemma same_keys_mem:
  assumes "same_keys cs c"
  shows "pas c a = None \<longleftrightarrow> pas cs a = None" "virts c v = None \<longleftrightarrow> virts cs v = None"
  using same_keysD [OF assms] same_keysD [OF same_keys_sym [OF assms]] by (metis not_None_eq)+

lemma created_calmly:
  assumes "calmly cs c"
  shows "created (\<lambda>q. add_rpa q a b) c c' \<Longrightarrow> pas c a \<noteq> None \<Longrightarrow> pas c b \<noteq> None \<Longrightarrow> calmly cs c'"
    "created (\<lambda>q. add_rvirt q p v) c c' \<Longrightarrow> rpas c p \<noteq> None \<Longrightarrow> virts c v \<noteq> None \<Longrightarrow> calmly cs c'"
proof -
  have k: "kept cs c" "noerr_inv c" using assms by (simp_all add: calmly_def)
  have "calmly cs c'" if "created f c c'" "kept cs (f (next_ptr c) (c\<lparr>next_ptr := next_ptr c + 1\<rparr>))" for f
    using that kept_noerr [OF k(1) _ k(2)] by (auto simp: created_def calmly_def)
  then show "created (\<lambda>q. add_rpa q a b) c c' \<Longrightarrow> pas c a \<noteq> None \<Longrightarrow> pas c b \<noteq> None \<Longrightarrow> calmly cs c'"
    "created (\<lambda>q. add_rvirt q p v) c c' \<Longrightarrow> rpas c p \<noteq> None \<Longrightarrow> virts c v \<noteq> None \<Longrightarrow> calmly cs c'"
    using kept_add [OF k(1)] by blast+
qed

lemma commit_remote_pa_calmly:
  assumes q: "quietly (calmly cs) c" and ab: "pas cs a \<noteq> None" "pas cs b \<noteq> None"
  shows "wlp (commit_remote_pa be ops a b c) (quietly (calmly cs))"
proof (rule quietly_step [OF q])
  assume c: "calmly cs c"
  have "pas c a \<noteq> None" "pas c b \<noteq> None" using c ab same_keys_mem(1) [of cs c] by (simp_all add: calmly_def kept_def)
  with c show "wlp (commit_remote_pa be ops a b c) (quietly (calmly cs))"
    by (intro wlp_mono [OF commit_remote_pa_calm [of cs c]])
      (auto simp: calmly_def elim!: quietly_mono split: if_splits dest: created_calmly(1) [OF c])
qed (intro loud_intros)

lemma commit_remote_virts_calmly:
  assumes q: "quietly (calmly cs) c" and p: "quietly (\<lambda>c. rpas c p \<noteq> None) c" and vs: "\<And>v. v \<in> set vs \<Longrightarrow> virts cs v \<noteq> None"
  shows "wlp (foldM (commit_remote_virt be ops a p) vs c) (quietly (calmly cs))"
proof -
  have "wlp (foldM (commit_remote_virt be ops a p) vs c) (quietly (\<lambda>c. calmly cs c \<and> rpas c p \<noteq> None))"
  proof (rule quietly_foldM)
    show "quietly (\<lambda>c. calmly cs c \<and> rpas c p \<noteq> None) c" using q p by (auto simp: quietly_def)
    fix v c assume v: "v \<in> set vs" and q: "quietly (\<lambda>c. calmly cs c \<and> rpas c p \<noteq> None) c"
    show "wlp (commit_remote_virt be ops a p v c) (quietly (\<lambda>c. calmly cs c \<and> rpas c p \<noteq> None))"
    proof (rule quietly_step [OF q])
      assume c: "calmly cs c \<and> rpas c p \<noteq> None"
      have v: "virts c v \<noteq> None" using c vs [OF v] same_keys_mem(2) [of cs c] by (simp add: calmly_def kept_def)
      have "calmly cs c' \<and> rpas c' p \<noteq> None" if "created (\<lambda>q. add_rvirt q p v) c c'" for c'
        using created_calmly(2) [of cs c p v c'] that c v by (auto simp: created_def add_rvirt_def upd_defs)
      with c show "wlp (commit_remote_virt be ops a p v c) (quietly (\<lambda>c. calmly cs c \<and> rpas c p \<noteq> None))"
        by (intro wlp_mono [OF commit_remote_virt_calm [of cs c]]) (auto simp: calmly_def elim!: quietly_mono split: if_splits)
    qed (intro loud_intros)
  qed
  then show ?thesis by (elim wlp_mono) (auto elim: quietly_mono)
qed

lemma owned_exists: "owns h f k g \<Longrightarrow> h p = Some x \<Longrightarrow> q \<in> set (f x) \<Longrightarrow> k q \<noteq> None"
  using owns_member by fastforce

lemma calmlyD:
  assumes "calmly cs c"
  shows "nets c n = Some x \<Longrightarrow> b \<in> set (attached_list x) \<Longrightarrow> pas cs b \<noteq> None"
    "pas c a = Some y \<Longrightarrow> v \<in> set (connected_virt_list y) \<Longrightarrow> virts cs v \<noteq> None"
    "pas c a = Some y \<Longrightarrow> pas cs a \<noteq> None"
proof -
  have core: "core_inv c" and keys: "same_keys cs c" using assms by (simp_all add: calmly_def kept_def)
  have own: "owns (nets c) attached_list (pas c) (Some \<circ> pa_net)" "owns (pas c) connected_virt_list (virts c) connected_through"
    using core_invD(2) [OF core] by (simp_all add: owners_inv_def)
  show "nets c n = Some x \<Longrightarrow> b \<in> set (attached_list x) \<Longrightarrow> pas cs b \<noteq> None"
    using owned_exists [OF own(1)] same_keys_mem(1) [OF keys] by blast
  show "pas c a = Some y \<Longrightarrow> v \<in> set (connected_virt_list y) \<Longrightarrow> virts cs v \<noteq> None"
    using owned_exists [OF own(2)] same_keys_mem(2) [OF keys] by blast
  show "pas c a = Some y \<Longrightarrow> pas cs a \<noteq> None" using same_keys_mem(1) [OF keys, of a] by simp
qed

lemma commit_views_calmly:
  assumes "quietly (calmly cs) c" and a: "pas cs a \<noteq> None"
  shows "wlp (do {
       n \<leftarrow> nets c m;
       c \<leftarrow> foldM (commit_remote_pa be ops a) (attached_list n) c;
       x \<leftarrow> pas c a;
       foldM (\<lambda>remote c. do {
           r \<leftarrow> rpas c remote;
           y \<leftarrow> pas c (rp_remote r);
           foldM (commit_remote_virt be ops a remote) (connected_virt_list y) c
         }) (remote_pa_list x) c }) (quietly (calmly cs))"
proof (rule quietly_step [OF assms(1)])
  assume c: "calmly cs c"
  have virts: "wlp (do { r \<leftarrow> rpas c p; y \<leftarrow> pas c (rp_remote r); foldM (commit_remote_virt be ops a p) (connected_virt_list y) c }) (quietly (calmly cs))"
    if "quietly (calmly cs) c" for p c
    by (rule quietly_step [OF that]; intro loud_intros commit_remote_virts_calmly) (auto intro: quietlyI dest: calmlyD(2))
  show "wlp (do {
       n \<leftarrow> nets c m;
       c \<leftarrow> foldM (commit_remote_pa be ops a) (attached_list n) c;
       x \<leftarrow> pas c a;
       foldM (\<lambda>remote c. do {
           r \<leftarrow> rpas c remote;
           y \<leftarrow> pas c (rp_remote r);
           foldM (commit_remote_virt be ops a remote) (connected_virt_list y) c
         }) (remote_pa_list x) c }) (quietly (calmly cs))"
    by (intro loud_lookup quietly_bind(1) [where Q = "calmly cs"] quietly_foldM commit_remote_pa_calmly virts)
      (use c a calmlyD(1) [OF c] in \<open>auto intro: quietlyI\<close>)
qed (intro loud_intros; simp)

lemma commit_pa_calmly:
  assumes "quietly (calmly cs) c"
  shows "wlp (commit_pa be a c) (quietly (calmly cs))"
proof (rule quietly_step [OF assms])
  assume c: "calmly cs c"
  have create: "wlp (if b then run_op op a (mark_pa a False) c else Some (False, c)) (\<lambda>(r, c'). quietly (calmly cs) c')" for b op
    using c by (auto intro!: wlp_mono [OF run_op_quiet(2)] wlp_Some simp: quietly_def calmly_def noerr_inv_def)
  show "wlp (commit_pa be a c) (quietly (calmly cs))"
    unfolding commit_pa_def
    by (intro loud_lookup quietly_bind(2) [OF create] loud_control quietly_bind(1) [where Q = "calmly cs"] quietly_foldM
        commit_virt_calmly commit_views_calmly) (use calmlyD(3) [OF c] in auto)
qed (intro loud_intros)

definition alive :: "lsdn_context \<Rightarrow> bool" where
  "alive c \<longleftrightarrow> state_inv c \<and> all_live c"

lemma kept_alive:
  assumes "kept cs c" "alive cs"
  shows "alive c"
proof -
  have k: "core_inv c" "vr_del c" "same_keys cs c" using assms(1) by (simp_all add: kept_def)
  have "state_inv c" using same_keys_states [OF k(3,2)] k(1) assms(2) by (simp add: alive_def state_inv_def)
  moreover have "all_live c"
    using assms(2) k(3) unfolding alive_def all_live_def
    by (auto simp: same_keys_def [of cs c] virt_key_def pa_key_def dest!: same_keysD [OF k(3)])
  ultimately show ?thesis by (simp add: alive_def)
qed

lemma recommit_phase_alive:
  assumes "quietly alive c"
  shows "wlp (recommit_phase be c) (quietly alive)"
  unfolding recommit_phase_def
proof (rule quietly_foldM [OF assms])
  fix p c assume "quietly alive c"
  then show "wlp (do { x \<leftarrow> physes c p;
      if is_local x then foldM (commit_pa be) (attached_to_list x) (upd_phys p (\<lambda>x. x\<lparr>committed_as_local := is_local x\<rparr>) c)
      else Some c }) (quietly alive)"
  proof (rule quietly_step)
    assume c: "alive c"
    let ?d = "upd_phys p (\<lambda>x. x\<lparr>committed_as_local := is_local x\<rparr>) c"
    have "core_inv ?d" using c by (auto simp: alive_def state_inv_def phys_links_def intro!: core_inv_upd_phys)
    then have d: "alive ?d" using c
      by (auto simp: alive_def state_inv_def all_live_def delete_inv_def noerr_inv_def doomed_inv_def upd_phys_def)
    then have "quietly (calmly ?d) ?d"
      by (auto simp: alive_def state_inv_def delete_inv_def calmly_def kept_def vr_del_def same_keys_refl intro!: quietlyI)
    then have "wlp (foldM (commit_pa be) xs ?d) (quietly (calmly ?d))" for xs by (rule quietly_foldM) (rule commit_pa_calmly)
    then have "wlp (foldM (commit_pa be) xs ?d) (quietly alive)" for xs
      by (rule wlp_mono) (auto simp: calmly_def elim!: quietly_mono intro: kept_alive [OF _ d])
    then show "wlp (do { x \<leftarrow> physes c p;
      if is_local x then foldM (commit_pa be) (attached_to_list x) (upd_phys p (\<lambda>x. x\<lparr>committed_as_local := is_local x\<rparr>) c)
      else Some c }) (quietly alive)" using c by (intro loud_control loud_lookup) (auto intro: quietlyI)
  qed (intro loud_intros; simp)
qed

end
