(* ===== verification/Ack.thy ===== *)
theory Ack
  imports Recommit
begin

text \<open>
  The end of \<^verbatim>\<open>lsdn_commit\<close>: after a quiet decommit and recommit the acknowledgement leaves every object in the
  state \<^verbatim>\<open>OK\<close>.
\<close>

definition steady :: "lsdn_context \<Rightarrow> lsdn_context \<Rightarrow> bool" where
  "steady c c' \<longleftrightarrow>
     le_heap (\<lambda>x x'. network x' = network x \<and> (vi_state x = LSDN_STATE_OK \<longrightarrow> vi_state x' = LSDN_STATE_OK)) (virts c) (virts c') \<and>
     le_heap (\<lambda>x x'. pa_net x' = pa_net x \<and> (pa_state x = LSDN_STATE_OK \<longrightarrow> pa_state x' = LSDN_STATE_OK)) (pas c) (pas c') \<and>
     le_heap (\<lambda>x x'. ne_state x = LSDN_STATE_OK \<longrightarrow> ne_state x' = LSDN_STATE_OK) (nets c) (nets c') \<and>
     le_heap (\<lambda>x x'. ph_state x = LSDN_STATE_OK \<longrightarrow> ph_state x' = LSDN_STATE_OK) (physes c) (physes c') \<and>
     le_heap (\<lambda>x x'. se_state x = LSDN_STATE_OK \<longrightarrow> se_state x' = LSDN_STATE_OK) (settingss c) (settingss c')"

lemma steady_refl [simp]: "steady c c"
  by (simp add: steady_def)

lemma steady_trans: "steady c c' \<Longrightarrow> steady c' c'' \<Longrightarrow> steady c c''"
  unfolding steady_def by (elim conjE, intro conjI) (erule (1) le_heap_trans, auto)+

lemma ack_live: "live s \<Longrightarrow> \<not> failed_state s \<Longrightarrow> ack_state s = LSDN_STATE_OK"
  by (cases s) (simp_all add: live_def)

lemma aliveD:
  assumes "alive c"
  shows "virts c v = Some x1 \<Longrightarrow> ack_state (vi_state x1) = LSDN_STATE_OK" "pas c a = Some x2 \<Longrightarrow> ack_state (pa_state x2) = LSDN_STATE_OK"
    "nets c n = Some x3 \<Longrightarrow> ack_state (ne_state x3) = LSDN_STATE_OK" "physes c p = Some x4 \<Longrightarrow> ack_state (ph_state x4) = LSDN_STATE_OK"
    "settingss c s = Some x5 \<Longrightarrow> ack_state (se_state x5) = LSDN_STATE_OK"
  using assms by (auto simp: alive_def state_inv_def noerr_inv_def all_live_def intro: ack_live)

lemma ack_upd:
  assumes c: "alive c"
  shows "alive (upd_settings p (\<lambda>x. x\<lparr>se_state := ack_state (se_state x)\<rparr>) c)" "steady c (upd_settings p (\<lambda>x. x\<lparr>se_state := ack_state (se_state x)\<rparr>) c)"
    "alive (upd_phys p (\<lambda>x. x\<lparr>ph_state := ack_state (ph_state x)\<rparr>) c)" "steady c (upd_phys p (\<lambda>x. x\<lparr>ph_state := ack_state (ph_state x)\<rparr>) c)"
    "alive (upd_net p (\<lambda>x. x\<lparr>ne_state := ack_state (ne_state x)\<rparr>) c)" "steady c (upd_net p (\<lambda>x. x\<lparr>ne_state := ack_state (ne_state x)\<rparr>) c)"
    "alive (upd_pa p (\<lambda>x. x\<lparr>pa_state := ack_state (pa_state x)\<rparr>) c)" "steady c (upd_pa p (\<lambda>x. x\<lparr>pa_state := ack_state (pa_state x)\<rparr>) c)"
    "alive (upd_virt p (\<lambda>x. x\<lparr>vi_state := ack_state (vi_state x)\<rparr>) c)" "steady c (upd_virt p (\<lambda>x. x\<lparr>vi_state := ack_state (vi_state x)\<rparr>) c)"
proof -
  have inv: "core_inv c" using c by (simp add: alive_def state_inv_def)
  have "core_inv (upd_settings p (\<lambda>x. x\<lparr>se_state := ack_state (se_state x)\<rparr>) c)" "core_inv (upd_phys p (\<lambda>x. x\<lparr>ph_state := ack_state (ph_state x)\<rparr>) c)"
    "core_inv (upd_net p (\<lambda>x. x\<lparr>ne_state := ack_state (ne_state x)\<rparr>) c)" "core_inv (upd_pa p (\<lambda>x. x\<lparr>pa_state := ack_state (pa_state x)\<rparr>) c)"
    "core_inv (upd_virt p (\<lambda>x. x\<lparr>vi_state := ack_state (vi_state x)\<rparr>) c)"
    using inv by (auto simp: settings_links_def phys_links_def net_links_def pa_links_def virt_links_def
        intro: core_inv_upd_settings core_inv_upd_phys core_inv_upd_net core_inv_upd_pa core_inv_upd_virt)
  then show "alive (upd_settings p (\<lambda>x. x\<lparr>se_state := ack_state (se_state x)\<rparr>) c)" "alive (upd_phys p (\<lambda>x. x\<lparr>ph_state := ack_state (ph_state x)\<rparr>) c)"
    "alive (upd_net p (\<lambda>x. x\<lparr>ne_state := ack_state (ne_state x)\<rparr>) c)" "alive (upd_pa p (\<lambda>x. x\<lparr>pa_state := ack_state (pa_state x)\<rparr>) c)"
    "alive (upd_virt p (\<lambda>x. x\<lparr>vi_state := ack_state (vi_state x)\<rparr>) c)"
    using c aliveD [OF c]
    by (auto simp: alive_def state_inv_def all_live_def live_def delete_inv_def noerr_inv_def doomed_inv_def upd_defs)
qed (use aliveD [OF c] in \<open>auto simp: steady_def upd_defs le_heap_def\<close>)

lemma ack_loop:
  assumes "alive c" and step: "\<And>p c. alive c \<Longrightarrow> wlp (f p c) (\<lambda>c'. alive c' \<and> steady c c' \<and> ok p c')"
    and stay: "\<And>p c c'. ok p c \<Longrightarrow> steady c c' \<Longrightarrow> ok p c'"
  shows "wlp (foldM f ps c) (\<lambda>c'. alive c' \<and> steady c c' \<and> (\<forall>p\<in>set ps. ok p c'))"
  using assms(1)
proof (induction ps arbitrary: c)
  case (Cons p ps)
  show ?case unfolding foldM.simps
  proof (rule wlp_bind, rule wlp_mono [OF step [OF Cons.prems]])
    fix c1 assume c1: "alive c1 \<and> steady c c1 \<and> ok p c1"
    then show "wlp (foldM f ps c1) (\<lambda>c'. alive c' \<and> steady c c' \<and> (\<forall>p\<in>set (p # ps). ok p c'))"
      by (intro wlp_mono [OF Cons.IH]) (auto intro: steady_trans stay)
  qed
qed (simp add: wlp_Some)

definition settings_acked :: "ptr \<Rightarrow> lsdn_context \<Rightarrow> bool" where
  "settings_acked s c \<longleftrightarrow> (\<forall>x. settingss c s = Some x \<longrightarrow> se_state x = LSDN_STATE_OK)"

definition phys_acked :: "ptr \<Rightarrow> lsdn_context \<Rightarrow> bool" where
  "phys_acked p c \<longleftrightarrow> (\<forall>x. physes c p = Some x \<longrightarrow> ph_state x = LSDN_STATE_OK)"

definition pa_acked :: "ptr \<Rightarrow> lsdn_context \<Rightarrow> bool" where
  "pa_acked a c \<longleftrightarrow> (\<forall>x. pas c a = Some x \<longrightarrow> pa_state x = LSDN_STATE_OK)"

definition virt_acked :: "ptr \<Rightarrow> lsdn_context \<Rightarrow> bool" where
  "virt_acked v c \<longleftrightarrow> (\<forall>x. virts c v = Some x \<longrightarrow> vi_state x = LSDN_STATE_OK)"

definition net_acked :: "ptr \<Rightarrow> lsdn_context \<Rightarrow> bool" where
  "net_acked n c \<longleftrightarrow> (\<forall>x. nets c n = Some x \<longrightarrow> ne_state x = LSDN_STATE_OK) \<and>
     (\<forall>a x. pas c a = Some x \<longrightarrow> pa_net x = n \<longrightarrow> pa_state x = LSDN_STATE_OK) \<and>
     (\<forall>v x. virts c v = Some x \<longrightarrow> network x = n \<longrightarrow> vi_state x = LSDN_STATE_OK)"

lemma steadyD:
  assumes "steady c c'"
  shows "virts c' v = Some x1 \<Longrightarrow> \<exists>x. virts c v = Some x \<and> network x1 = network x \<and> (vi_state x = LSDN_STATE_OK \<longrightarrow> vi_state x1 = LSDN_STATE_OK)"
    "pas c' a = Some x2 \<Longrightarrow> \<exists>x. pas c a = Some x \<and> pa_net x2 = pa_net x \<and> (pa_state x = LSDN_STATE_OK \<longrightarrow> pa_state x2 = LSDN_STATE_OK)"
    "nets c' n = Some x3 \<Longrightarrow> \<exists>x. nets c n = Some x \<and> (ne_state x = LSDN_STATE_OK \<longrightarrow> ne_state x3 = LSDN_STATE_OK)"
    "physes c' p = Some x4 \<Longrightarrow> \<exists>x. physes c p = Some x \<and> (ph_state x = LSDN_STATE_OK \<longrightarrow> ph_state x4 = LSDN_STATE_OK)"
    "settingss c' s = Some x5 \<Longrightarrow> \<exists>x. settingss c s = Some x \<and> (se_state x = LSDN_STATE_OK \<longrightarrow> se_state x5 = LSDN_STATE_OK)"
  using assms by (simp_all add: steady_def le_heap_def)

lemma acked_stay:
  assumes "steady c c'"
  shows "settings_acked p c \<Longrightarrow> settings_acked p c'" "phys_acked p c \<Longrightarrow> phys_acked p c'" "pa_acked p c \<Longrightarrow> pa_acked p c'"
    "virt_acked p c \<Longrightarrow> virt_acked p c'" "net_acked p c \<Longrightarrow> net_acked p c'"
proof -
  note D = steadyD [OF assms]
  show "settings_acked p c \<Longrightarrow> settings_acked p c'" unfolding settings_acked_def using D(5) by blast
  show "phys_acked p c \<Longrightarrow> phys_acked p c'" unfolding phys_acked_def using D(4) by blast
  show "pa_acked p c \<Longrightarrow> pa_acked p c'" unfolding pa_acked_def using D(2) by blast
  show "virt_acked p c \<Longrightarrow> virt_acked p c'" unfolding virt_acked_def using D(1) by blast
  show "net_acked p c \<Longrightarrow> net_acked p c'" unfolding net_acked_def using D(1,2,3) by metis
qed

lemma ack_acked:
  assumes "alive c"
  shows "settings_acked p (upd_settings p (\<lambda>x. x\<lparr>se_state := ack_state (se_state x)\<rparr>) c)" "phys_acked p (upd_phys p (\<lambda>x. x\<lparr>ph_state := ack_state (ph_state x)\<rparr>) c)"
    "pa_acked p (upd_pa p (\<lambda>x. x\<lparr>pa_state := ack_state (pa_state x)\<rparr>) c)" "virt_acked p (upd_virt p (\<lambda>x. x\<lparr>vi_state := ack_state (vi_state x)\<rparr>) c)"
  using aliveD [OF assms] by (auto simp: settings_acked_def phys_acked_def pa_acked_def virt_acked_def upd_defs)

lemma ack_net_step:
  assumes c: "alive c"
  shows "wlp (do {
         x \<leftarrow> nets c n;
         let c = upd_net n (\<lambda>x. x\<lparr>ne_state := ack_state (ne_state x)\<rparr>) c;
         c \<leftarrow> foldM ack_pa (attached_list x) c;
         foldM ack_virt (virt_list x) c }) (\<lambda>c'. alive c' \<and> steady c c' \<and> net_acked n c')"
  unfolding Let_def
proof (rule loud_lookup, rule wlp_bind, rule wlp_mono [OF ack_loop [OF ack_upd(5) [OF c], where ok = pa_acked]])
  fix x c1
  let ?c = "upd_net n (\<lambda>x. x\<lparr>ne_state := ack_state (ne_state x)\<rparr>) c"
  assume x: "nets c n = Some x" and c1: "alive c1 \<and> steady ?c c1 \<and> (\<forall>a\<in>set (attached_list x). pa_acked a c1)"
  show "wlp (foldM ack_virt (virt_list x) c1) (\<lambda>c'. alive c' \<and> steady c c' \<and> net_acked n c')"
  proof (rule wlp_mono [OF ack_loop [where ok = virt_acked]])
    fix c2 assume c2: "alive c2 \<and> steady c1 c2 \<and> (\<forall>v\<in>set (virt_list x). virt_acked v c2)"
    have own: "owns (nets c) virt_list (virts c) (Some \<circ> network)" "owns (nets c) attached_list (pas c) (Some \<circ> pa_net)"
      using core_invD(2) [of c] c by (simp_all add: alive_def state_inv_def owners_inv_def)
    have st: "steady ?c c2" "steady c c2" using c1 c2 steady_trans ack_upd(6) [OF c] by blast+
    have "nets ?c n = Some x' \<Longrightarrow> ne_state x' = LSDN_STATE_OK" for x' using x aliveD(3) [OF c x] by (simp add: upd_net_def) (auto simp: aliveD(3) [OF c x])
    then have "\<forall>x'. nets c2 n = Some x' \<longrightarrow> ne_state x' = LSDN_STATE_OK" using steadyD(3) [OF st(1)] by blast
    moreover have "virt_acked v c2" if "virts c2 v = Some y" "network y = n" for v y
      using steadyD(1) [OF st(2) that(1)] that(2) owns_member [OF own(1) x, of v] c2 by auto
    moreover have "pa_acked a c2" if "pas c2 a = Some y" "pa_net y = n" for a y
      using steadyD(2) [OF st(2) that(1)] that(2) owns_member [OF own(2) x, of a] c1 c2 acked_stay(3) by auto
    ultimately show "alive c2 \<and> steady c c2 \<and> net_acked n c2"
      using c2 st(2) by (auto simp: net_acked_def virt_acked_def pa_acked_def)
  qed (use c1 in \<open>auto simp: ack_virt_def intro!: loud_lookup wlp_Some ack_upd ack_acked dest: acked_stay(4)\<close>)
qed (auto simp: ack_pa_def intro!: loud_lookup wlp_Some ack_upd ack_acked dest: acked_stay(3))

definition all_ok :: "lsdn_context \<Rightarrow> bool" where
  "all_ok c \<longleftrightarrow> (\<forall>v x. virts c v = Some x \<longrightarrow> vi_state x = LSDN_STATE_OK) \<and> (\<forall>a x. pas c a = Some x \<longrightarrow> pa_state x = LSDN_STATE_OK) \<and>
     (\<forall>n x. nets c n = Some x \<longrightarrow> ne_state x = LSDN_STATE_OK) \<and> (\<forall>p x. physes c p = Some x \<longrightarrow> ph_state x = LSDN_STATE_OK) \<and>
     (\<forall>s x. settingss c s = Some x \<longrightarrow> se_state x = LSDN_STATE_OK)"

lemma acked_all_ok:
  assumes c: "alive c" and ss: "\<And>s. settings_acked s c" and ps: "\<And>p. phys_acked p c" and ns: "\<And>n. nets c n \<noteq> None \<Longrightarrow> net_acked n c"
  shows "all_ok c" "model_inv c"
proof -
  have core: "core_inv c" using c by (simp add: alive_def state_inv_def)
  have own: "owns (nets c) virt_list (virts c) (Some \<circ> network)" "owns (nets c) attached_list (pas c) (Some \<circ> pa_net)"
    using core_invD(2) [OF core] by (simp_all add: owners_inv_def)
  have "virts c v = Some x \<Longrightarrow> net_acked (network x) c" "pas c a = Some y \<Longrightarrow> net_acked (pa_net y) c" for v x a y
    by (rule ns, auto elim: owns_owner [OF own(1)] owns_owner [OF own(2)])+
  then have "virts c v = Some x \<Longrightarrow> vi_state x = LSDN_STATE_OK" "pas c a = Some y \<Longrightarrow> pa_state y = LSDN_STATE_OK" for v x a y
    unfolding net_acked_def by blast+
  moreover have "nets c n = Some z \<Longrightarrow> ne_state z = LSDN_STATE_OK" for n z using ns [of n] by (simp add: net_acked_def)
  ultimately show ok: "all_ok c" using ss ps by (simp add: all_ok_def settings_acked_def phys_acked_def)
  have "phase_inv c"
    using c ok unfolding phase_inv_def alive_def state_inv_def all_ok_def new_inv_def clean_inv_def by auto
  with core show "model_inv c" by (simp add: model_inv_def)
qed

theorem ack_phase_ok:
  assumes "alive c"
  shows "wlp (ack_phase c) (\<lambda>c'. model_inv c' \<and> all_ok c')"
  unfolding ack_phase_def
proof (rule wlp_bind, rule wlp_mono [OF ack_loop [OF assms, where ok = settings_acked]])
  fix c1 assume c1: "alive c1 \<and> steady c c1 \<and> (\<forall>s\<in>set (settings_list c). settings_acked s c1)"
  show "wlp (do { c \<leftarrow> foldM (\<lambda>p c. do { _ \<leftarrow> physes c p; Some (upd_phys p (\<lambda>x. x\<lparr>ph_state := ack_state (ph_state x)\<rparr>) c) }) (phys_list c1) c1;
     foldM (\<lambda>n c. do {
         x \<leftarrow> nets c n;
         let c = upd_net n (\<lambda>x. x\<lparr>ne_state := ack_state (ne_state x)\<rparr>) c;
         c \<leftarrow> foldM ack_pa (attached_list x) c;
         foldM ack_virt (virt_list x) c }) (networks_list c) c }) (\<lambda>c'. model_inv c' \<and> all_ok c')"
  proof (rule wlp_bind, rule wlp_mono [OF ack_loop [where ok = phys_acked]])
    fix c2 assume c2: "alive c2 \<and> steady c1 c2 \<and> (\<forall>p\<in>set (phys_list c1). phys_acked p c2)"
    show "wlp (foldM (\<lambda>n c. do {
         x \<leftarrow> nets c n;
         let c = upd_net n (\<lambda>x. x\<lparr>ne_state := ack_state (ne_state x)\<rparr>) c;
         c \<leftarrow> foldM ack_pa (attached_list x) c;
         foldM ack_virt (virt_list x) c }) (networks_list c2) c2) (\<lambda>c'. model_inv c' \<and> all_ok c')"
    proof (rule wlp_mono [OF ack_loop [where ok = net_acked, OF _ ack_net_step]])
      fix c3 assume c3: "alive c3 \<and> steady c2 c3 \<and> (\<forall>n\<in>set (networks_list c2). net_acked n c3)"
      have lists: "lists_all (settings_list c) (settingss c)" "lists_all (phys_list c1) (physes c1)" "lists_all (networks_list c2) (nets c2)"
        using core_invD(1) assms c1 c2 by (auto simp: alive_def state_inv_def lists_inv_def)
      have st: "steady c c3" "steady c1 c3" using c1 c2 c3 steady_trans by blast+
      have "settings_acked s c3" for s
        using acked_stay(1) [OF st(2)] c1 lists_all_mem [OF lists(1), of s] steadyD(5) [OF st(1), of s] by (auto simp: settings_acked_def)
      moreover have "phys_acked p c3" for p
        using acked_stay(2) [of c2 c3] c2 c3 lists_all_mem [OF lists(2), of p] steadyD(4) [OF st(2), of p] by (auto simp: phys_acked_def)
      moreover have "nets c3 n \<noteq> None \<Longrightarrow> net_acked n c3" for n
        using c3 lists_all_mem [OF lists(3), of n] steadyD(3) [of c2 c3 n] by fastforce
      ultimately show "model_inv c3 \<and> all_ok c3" using acked_all_ok [of c3] c3 by blast
    qed (use c2 in \<open>auto dest: acked_stay(5)\<close>)
  qed (use c1 in \<open>auto intro!: loud_lookup wlp_Some ack_upd ack_acked dest: acked_stay(2)\<close>)
qed (auto intro!: loud_lookup wlp_Some ack_upd ack_acked dest: acked_stay(1))

end
