(* ===== verification/ValidateInv.thy ===== *)
theory ValidateInv
  imports CommitCalm
begin

text \<open>
  What the validation leaves alone. \<^verbatim>\<open>lsdn_validate\<close> marks objects for renewal, resolves the interfaces of virts and
  masks the values of their rules; nothing is sent to the kernel and no object is created, freed or moved.
\<close>

text \<open>An object without what the validation may change.\<close>

definition virt_fixed :: "lsdn_virt \<Rightarrow> lsdn_virt" where
  "virt_fixed x = x\<lparr>vi_state := LSDN_STATE_OK, connected_if := lsdn_if_init\<rparr>"

definition pa_fixed :: "lsdn_phys_attachment \<Rightarrow> lsdn_phys_attachment" where
  "pa_fixed x = x\<lparr>pa_state := LSDN_STATE_OK\<rparr>"

definition reviewed :: "lsdn_context \<Rightarrow> lsdn_context \<Rightarrow> bool" where
  "reviewed cs c \<longleftrightarrow> map_option virt_fixed \<circ> virts c = map_option virt_fixed \<circ> virts cs \<and>
     map_option pa_fixed \<circ> pas c = map_option pa_fixed \<circ> pas cs \<and> nets c = nets cs \<and> physes c = physes cs \<and>
     settingss c = settingss cs \<and> vrs c = vrs cs \<and> rpas c = rpas cs \<and> rvirts c = rvirts cs \<and>
     networks_list c = networks_list cs \<and> phys_list c = phys_list cs \<and> settings_list c = settings_list cs \<and>
     net_names c = net_names cs \<and> phys_names c = phys_names cs \<and> setting_names c = setting_names cs \<and> c_nl c = c_nl cs"

definition review :: "lsdn_context \<Rightarrow> lsdn_context \<Rightarrow> bool" where
  "review cs c \<longleftrightarrow> model_inv c \<and> reviewed cs c"

lemma inv_nlsock [simp]: "core_inv (c\<lparr>nlsock := b\<rparr>) = core_inv c" "phase_inv (c\<lparr>nlsock := b\<rparr>) = phase_inv c"
  by (simp_all add: core_inv_defs phase_inv_def delete_inv_def new_inv_def clean_inv_def noerr_inv_def doomed_inv_def)

lemma review_irrelevant [simp]:
  "review cs (c\<lparr>rep := r\<rparr>) = review cs c" "review cs (c\<lparr>hook_log := l\<rparr>) = review cs c"
  "review cs (c\<lparr>nlsock := b\<rparr>) = review cs c" "review cs (c\<lparr>sockets := s\<rparr>) = review cs c"
  by (simp_all add: review_def model_inv_def reviewed_def)

lemma fixed_upd:
  "(\<And>x. virt_fixed (f x) = virt_fixed x) \<Longrightarrow> map_option virt_fixed \<circ> (h(v := map_option f (h v))) = map_option virt_fixed \<circ> h"
  "(\<And>y. pa_fixed (g y) = pa_fixed y) \<Longrightarrow> map_option pa_fixed \<circ> (k(a := map_option g (k a))) = map_option pa_fixed \<circ> k"
  by (auto simp: fun_eq_iff option.map_comp o_def)

lemma review_masks: "review cs c \<Longrightarrow> review cs (set_rules (put_rule p r (c_rules (run c))) c)"
  by (simp add: review_def model_inv_def reviewed_def set_rules_def put_rule_def)

lemma review_upd:
  assumes "review cs c"
  shows "(\<And>x. virts c v = Some x \<Longrightarrow> virt_phase x (f x)) \<Longrightarrow> (\<And>x. virt_links x (f x)) \<Longrightarrow> (\<And>x. virt_fixed (f x) = virt_fixed x) \<Longrightarrow> review cs (upd_virt v f c)"
    "(\<And>x. pas c a = Some x \<Longrightarrow> pa_phase x (g x)) \<Longrightarrow> (\<And>x. pa_links x (g x)) \<Longrightarrow> (\<And>x. pa_fixed (g x) = pa_fixed x) \<Longrightarrow> review cs (upd_pa a g c)"
proof -
  have c: "core_inv c" "phase_inv c" "reviewed cs c" using assms by (simp_all add: review_def model_inv_def)
  show "review cs (upd_virt v f c)" if "\<And>x. virts c v = Some x \<Longrightarrow> virt_phase x (f x)" "\<And>x. virt_links x (f x)" "\<And>x. virt_fixed (f x) = virt_fixed x"
    using core_inv_upd_virt [OF c(1) that(2)] evolves_phase_inv [OF evolves_upd(1) [OF that(1)] c(2)] c(3)
    by (simp add: review_def model_inv_def reviewed_def upd_virt_def fixed_upd(1) [OF that(3)])
  show "review cs (upd_pa a g c)" if "\<And>x. pas c a = Some x \<Longrightarrow> pa_phase x (g x)" "\<And>x. pa_links x (g x)" "\<And>x. pa_fixed (g x) = pa_fixed x"
    using core_inv_upd_pa [OF c(1) that(2)] evolves_phase_inv [OF evolves_upd(2) [OF that(1)] c(2)] c(3)
    by (simp add: review_def model_inv_def reviewed_def upd_pa_def fixed_upd(2) [OF that(3)])
qed

lemma review_if: "review cs c \<Longrightarrow> review cs (upd_virt v (\<lambda>y. y\<lparr>connected_if := i\<rparr>) c)"
  by (erule review_upd) (auto simp: virt_phase_def virt_links_def virt_fixed_def)

lemma review_propagate:
  assumes "review cs c"
  shows "review cs (upd_virt v (\<lambda>y. y\<lparr>vi_state := propagate s (vi_state y)\<rparr>) c)" "review cs (upd_pa a (\<lambda>x. x\<lparr>pa_state := propagate s (pa_state x)\<rparr>) c)"
  using assms
  by (auto intro!: review_upd simp: virt_phase_def virt_links_def virt_fixed_def pa_phase_def pa_links_def pa_fixed_def propagate_def)

lemma wlp_lookups:
  "(\<And>x. m = Some x \<Longrightarrow> wlp (f x) R) \<Longrightarrow> wlp (Option.bind (m :: bool option) f) R"
  "(\<And>x. m2 = Some x \<Longrightarrow> wlp (f2 x) R) \<Longrightarrow> wlp (Option.bind (m2 :: ptr option option) f2) R"
  "(\<And>x. m3 = Some x \<Longrightarrow> wlp (f3 x) R) \<Longrightarrow> wlp (Option.bind (m3 :: (ptr \<times> lsdn_ip_t option) option) f3) R"
  "(\<And>x. m4 = Some x \<Longrightarrow> wlp (f4 x) R) \<Longrightarrow> wlp (Option.bind (m4 :: (lsdn_err_t \<times> lsdn_if) option) f4) R"
  by (auto simp: wlp_def bind_eq_Some_conv)

section \<open>Steps of the validation\<close>

text \<open>
  What a predicate has to ignore to hold after every step of the validation: reports, masked rules, resolved
  interfaces and the renewals that are passed on from states that satisfy \<open>src\<close>.
\<close>

locale validate_frame =
  fixes Q :: "lsdn_context \<Rightarrow> bool" and src :: "lsdn_state \<Rightarrow> bool"
  assumes frame_rep: "Q (c\<lparr>rep := r\<rparr>) = Q c"
    and frame_hook: "Q (c\<lparr>hook_log := l\<rparr>) = Q c"
    and frame_masks: "Q c \<Longrightarrow> Q (set_rules (put_rule rl rx (c_rules (run c))) c)"
    and frame_if: "Q c \<Longrightarrow> Q (upd_virt v (\<lambda>y. y\<lparr>connected_if := i\<rparr>) c)"
    and sources: "Q c \<Longrightarrow> physes c p = Some x1 \<Longrightarrow> src (ph_state x1)" "Q c \<Longrightarrow> nets c n = Some x2 \<Longrightarrow> src (ne_state x2)"
      "Q c \<Longrightarrow> pas c a = Some x3 \<Longrightarrow> src (pa_state x3)"
    and frame_virt: "Q c \<Longrightarrow> src st \<Longrightarrow> Q (upd_virt v (\<lambda>y. y\<lparr>vi_state := propagate st (vi_state y)\<rparr>) c)"
    and frame_pa: "Q c \<Longrightarrow> src st \<Longrightarrow> Q (upd_pa a (\<lambda>x. x\<lparr>pa_state := propagate st (pa_state x)\<rparr>) c)"
begin

lemma report: "Q c \<Longrightarrow> wlp (c_report cd rs c) Q"
  by (auto simp: wlp_def c_report_def bind_eq_Some_conv frame_rep)

lemma check: "Q c \<Longrightarrow> wlp (call_check op p c) Q"
  by (auto simp: wlp_def call_check_def bind_eq_Some_conv frame_rep split: option.splits)

lemma bind: "wlp m Q \<Longrightarrow> (\<And>c. Q c \<Longrightarrow> wlp (f c) R) \<Longrightarrow> wlp (Option.bind m f) R"
  by (auto simp: wlp_def bind_eq_Some_conv)

lemma fold: "Q c \<Longrightarrow> (\<And>x c. Q c \<Longrightarrow> wlp (f x c) Q) \<Longrightarrow> wlp (foldM f xs c) Q"
  by (rule wlp_foldM) auto

lemmas steps = report check bind fold loud_control loud_lookup wlp_lookups

lemma propagate: "Q c \<Longrightarrow> wlp (propagate_states c) Q"
  unfolding propagate_states_def propagate_pa_def by (intro steps; simp add: frame_virt frame_pa sources)

lemma duplicates: "Q c \<Longrightarrow> wlp (duplicate_rule ht rs c) (\<lambda>(d, c'). Q c')"
proof (induction rs arbitrary: ht c)
  case (Cons r rs)
  then show ?case unfolding duplicate_rule.simps Let_def
    by (intro loud_lookup loud_control) (auto intro!: wlp_Some frame_masks split: option.split)
qed (simp add: wlp_Some)

lemma rules: "Q c \<Longrightarrow> wlp (validate_rules v ps c) Q"
proof (induction ps arbitrary: c)
  case (Cons p ps)
  have dup: "wlp (Option.bind (duplicate_rule [] rs c) f) Q" if "\<And>d c'. Q c' \<Longrightarrow> wlp (f (d, c')) Q" for rs f
    using duplicates [OF Cons.prems, of "[]" rs] that by (fastforce simp: wlp_def bind_eq_Some_conv)
  show ?case unfolding validate_rules.simps by (intro dup steps) (use Cons in auto)
qed (simp add: wlp_Some)

lemma rate: "Q c \<Longrightarrow> wlp (validate_rate v n q c) Q"
  unfolding validate_rate_def by (intro steps; simp)

lemma virts_net: "Q c \<Longrightarrow> wlp (validate_virts_net n c) Q"
  unfolding validate_virts_net_def by (intro rules rate steps; simp)

lemma cross: "Q c \<Longrightarrow> wlp (cross_validate_networks n m c) Q"
  unfolding cross_validate_networks_def by (intro steps; simp)

lemma networks: "Q c \<Longrightarrow> wlp (validate_networks c) Q"
  unfolding validate_networks_def by (intro virts_net cross steps; simp)

lemma virts_pa: "Q c \<Longrightarrow> wlp (validate_virts_pa be a c) Q"
  unfolding validate_virts_pa_def by (intro steps; simp add: frame_if)

lemma attachment: "Q c \<Longrightarrow> wlp (validate_attachment be p a c) Q"
  unfolding validate_attachment_def report_virts_def by (intro virts_pa steps; simp)

lemma physes: "Q c \<Longrightarrow> wlp (validate_physes be c) Q"
  unfolding validate_physes_def by (intro attachment steps; simp)

lemma ip_versions: "Q c \<Longrightarrow> wlp (validate_ip_versions c) Q"
  unfolding validate_ip_versions_def by (intro steps; simp)

lemma hooks: "Q c \<Longrightarrow> wlp (trigger_startup_hooks c) Q"
  unfolding trigger_startup_hooks_def by (intro steps; simp add: frame_hook split: option.split)

lemma validate: "Q c \<Longrightarrow> wlp (lsdn_validate be cb c) (\<lambda>(e, c'). Q c')"
  unfolding lsdn_validate_def by (intro propagate networks physes ip_versions steps; simp add: frame_rep)

end

interpretation rv: validate_frame "review cs" "\<lambda>s. True" for cs
  by unfold_locales (auto intro: review_masks review_if review_propagate)

lemma ensure_socket_review: "lsdn_context_ensure_socket c = (e, c') \<Longrightarrow> review cs c \<Longrightarrow> review cs c'"
  by (auto simp: lsdn_context_ensure_socket_def split: if_splits prod.splits bool.splits)

lemma review_self: "model_inv c \<Longrightarrow> review c c"
  by (simp add: review_def reviewed_def)

end
