(* ===== verification/Quiescent.thy ===== *)
theory Quiescent
  imports Ack ValidateInv
begin

text \<open>
  A commit without anything to do: no object was created, changed or freed since the last one. Every step of the commit
  leaves the netlink environment alone.
\<close>

definition idle :: "nlenv \<Rightarrow> lsdn_context \<Rightarrow> bool" where
  "idle nl c \<longleftrightarrow> all_ok c \<and> (\<forall>r y. vrs c r = Some y \<longrightarrow> vr_state y = LSDN_STATE_OK \<or> vr_state y = LSDN_STATE_DELETE) \<and> c_nl c = nl"

lemma idleD:
  assumes "idle nl c"
  shows "virts c v = Some x1 \<Longrightarrow> vi_state x1 = LSDN_STATE_OK" "pas c a = Some x2 \<Longrightarrow> pa_state x2 = LSDN_STATE_OK"
    "nets c n = Some x3 \<Longrightarrow> ne_state x3 = LSDN_STATE_OK" "physes c p = Some x4 \<Longrightarrow> ph_state x4 = LSDN_STATE_OK"
    "settingss c s = Some x5 \<Longrightarrow> se_state x5 = LSDN_STATE_OK" "vrs c r = Some x6 \<Longrightarrow> vr_state x6 = LSDN_STATE_OK \<or> vr_state x6 = LSDN_STATE_DELETE"
  using assms by (auto simp: idle_def all_ok_def)

lemma idle_upd:
  assumes "idle nl c"
  shows "(\<And>x. virts c v = Some x \<Longrightarrow> vi_state (f x) = LSDN_STATE_OK) \<Longrightarrow> idle nl (upd_virt v f c)"
    "(\<And>x. pas c a = Some x \<Longrightarrow> pa_state (g x) = LSDN_STATE_OK) \<Longrightarrow> idle nl (upd_pa a g c)"
    "(\<And>x. nets c n = Some x \<Longrightarrow> ne_state (h x) = LSDN_STATE_OK) \<Longrightarrow> idle nl (upd_net n h c)"
    "(\<And>x. physes c p = Some x \<Longrightarrow> ph_state (k x) = LSDN_STATE_OK) \<Longrightarrow> idle nl (upd_phys p k c)"
    "(\<And>x. settingss c s = Some x \<Longrightarrow> se_state (m x) = LSDN_STATE_OK) \<Longrightarrow> idle nl (upd_settings s m c)"
    "(\<And>x. vrs c r = Some x \<Longrightarrow> vr_state (l x) = LSDN_STATE_OK \<or> vr_state (l x) = LSDN_STATE_DELETE) \<Longrightarrow> idle nl (upd_vr r l c)"
  using assms by (auto simp: idle_def all_ok_def upd_defs)

interpretation iv: validate_frame "idle nl" "\<lambda>s. s \<noteq> LSDN_STATE_RENEW" for nl
proof unfold_locales
  fix c v a st i
  assume c: "idle nl c"
  show "idle nl (upd_virt v (\<lambda>y. y\<lparr>connected_if := i\<rparr>) c)" using c by (auto intro!: idle_upd dest: idleD)
  assume "st \<noteq> LSDN_STATE_RENEW"
  then show "idle nl (upd_virt v (\<lambda>y. y\<lparr>vi_state := propagate st (vi_state y)\<rparr>) c)" "idle nl (upd_pa a (\<lambda>x. x\<lparr>pa_state := propagate st (pa_state x)\<rparr>) c)"
    using c by (auto simp: propagate_def intro!: idle_upd dest: idleD)
qed (auto simp: idle_def all_ok_def set_rules_def put_rule_def)

named_theorems idle_intros "steps of the commit without work"

lemma idle_bind [idle_intros]: "wlp m (idle nl) \<Longrightarrow> (\<And>c. idle nl c \<Longrightarrow> wlp (f c) R) \<Longrightarrow> wlp (Option.bind m f) R"
  by (auto simp: wlp_def bind_eq_Some_conv)

lemma idle_foldM [idle_intros]: "idle nl c \<Longrightarrow> (\<And>x c. idle nl c \<Longrightarrow> wlp (f x c) (idle nl)) \<Longrightarrow> wlp (foldM f xs c) (idle nl)"
  by (rule wlp_foldM) auto

lemma sweep_idle [idle_intros]:
  assumes "idle nl c"
  shows "wlp (sweep_virt be v c) (idle nl)" "wlp (sweep_pa be a c) (idle nl)" "wlp (sweep_phys p c) (idle nl)" "wlp (sweep_settings s c) (idle nl)"
  unfolding sweep_virt_def sweep_pa_def sweep_phys_def sweep_settings_def
  using assms by (intro loud_lookup; auto simp: Let_def idleD [OF assms] intro!: wlp_Some idle_upd)+

lemma sweep_net_idle [idle_intros]: "idle nl c \<Longrightarrow> wlp (sweep_net be n c) (idle nl)"
  unfolding sweep_net_def
  by (intro idle_intros [where nl = nl] loud_lookup; (assumption | (auto simp: Let_def idleD intro!: wlp_Some idle_upd)))

lemma decommit_phase_idle [idle_intros]: "idle nl c \<Longrightarrow> wlp (decommit_phase be c) (idle nl)"
  unfolding decommit_phase_def by (intro idle_intros [where nl = nl])

lemma commit_rules_idle [idle_intros]: "idle nl c \<Longrightarrow> wlp (commit_rules be v d c) (idle nl)"
  unfolding commit_rules_def
  by (intro idle_intros [where nl = nl] loud_lookup loud_control) (auto dest: idleD(6) intro!: idle_upd(6))

lemma commit_virt_idle [idle_intros]:
  assumes "idle nl c"
  shows "wlp (commit_virt be ops a v c) (idle nl)"
  unfolding commit_virt_def
proof (rule loud_lookup)
  fix x assume "virts c v = Some x"
  with assms show "wlp (do { (go, c) \<leftarrow> (if vi_state x = LSDN_STATE_NEW then commit_new_virt be ops a v c else Some (True, c));
     if \<not> go then Some c
     else do { x \<leftarrow> virts c v; if state_ok (vi_state x) then do { c \<leftarrow> commit_rules be v LSDN_IN c; commit_rules be v LSDN_OUT c } else Some c } }) (idle nl)"
    by (simp add: idleD(1)) (intro conjI impI idle_intros [where nl = nl] loud_lookup loud_control; assumption)
qed

lemma commit_remote_idle [idle_intros]:
  assumes "idle nl c"
  shows "wlp (commit_remote_pa be ops a b c) (idle nl)" "wlp (commit_remote_virt be ops a r v c) (idle nl)"
  using assms unfolding commit_remote_pa_def commit_remote_virt_def by (auto simp: wlp_def bind_eq_Some_conv idleD split: if_splits)

lemma commit_pa_idle [idle_intros]:
  assumes "idle nl c"
  shows "wlp (commit_pa be a c) (idle nl)"
proof -
  have "wlp (do {
     x \<leftarrow> pas c a;
     if \<not> state_ok (pa_state x) then Some c
     else do {
       c \<leftarrow> foldM (commit_virt be ops a) (connected_virt_list x) c;
       n \<leftarrow> nets c (pa_net x);
       c \<leftarrow> foldM (commit_remote_pa be ops a) (attached_list n) c;
       x \<leftarrow> pas c a;
       foldM (\<lambda>remote c. do {
           r \<leftarrow> rpas c remote;
           y \<leftarrow> pas c (rp_remote r);
           foldM (commit_remote_virt be ops a remote) (connected_virt_list y) c
         }) (remote_pa_list x) c
     } }) (idle nl)" for ops
    by (intro idle_intros [where nl = nl] loud_lookup loud_control) (use assms in simp_all)
  then show ?thesis unfolding commit_pa_def by (intro loud_lookup) (simp add: idleD(2) [OF assms])
qed

lemma recommit_phase_idle [idle_intros]: "idle nl c \<Longrightarrow> wlp (recommit_phase be c) (idle nl)"
  unfolding recommit_phase_def
  by (intro idle_intros [where nl = nl] loud_lookup loud_control) (auto intro!: idle_upd dest: idleD)

lemma ack_phase_idle [idle_intros]: "idle nl c \<Longrightarrow> wlp (ack_phase c) (idle nl)"
  unfolding ack_phase_def ack_pa_def ack_virt_def
  by (intro idle_intros [where nl = nl] loud_lookup loud_control; (assumption | (auto simp: idleD intro!: idle_upd)))

lemma idle_socket [simp]: "idle nl (c\<lparr>nlsock := b\<rparr>) = idle nl c" "idle nl (c\<lparr>sockets := s\<rparr>) = idle nl c"
  by (simp_all add: idle_def all_ok_def)

lemma ensure_socket_idle: "lsdn_context_ensure_socket c = (e, c') \<Longrightarrow> idle nl c \<Longrightarrow> idle nl c'"
  by (auto simp: lsdn_context_ensure_socket_def split: if_splits prod.splits bool.splits)

lemma report_idle: "idle nl c \<Longrightarrow> wlp (c_report cd rs c) (idle nl)"
  by (rule iv.report)

lemma lsdn_commit_idle:
  assumes "idle nl c"
  shows "wlp (lsdn_commit be cb c) (\<lambda>(e, c'). idle nl c')"
proof -
  have val: "wlp (Option.bind (lsdn_validate be cb c) f) R" if "idle nl c" "\<And>e c'. idle nl c' \<Longrightarrow> wlp (f (e, c')) R"
    for c f and R :: "lsdn_err_t \<times> lsdn_context \<Rightarrow> bool"
    using iv.validate [OF that(1), of be cb] that(2) by (fastforce simp: wlp_def bind_eq_Some_conv)
  show ?thesis unfolding lsdn_commit_def
    by (rule idle_bind [OF iv.hooks [OF assms]], rule val, assumption, intro loud_control; (intro idle_intros [where nl = nl] loud_control report_idle)?)
      (auto intro: ensure_socket_idle)
qed

end
