(* ===== verification/CommitProps.thy ===== *)
theory CommitProps
  imports Quiescent ModelProps
begin

text \<open>
  \<^verbatim>\<open>lsdn_commit\<close> as a whole, for every table of back-ends. A commit that returns \<^verbatim>\<open>LSDNE_OK\<close> keeps the invariant of
  the model and leaves every object acknowledged; one that is rejected by the validation touches neither the kernel nor
  the objects; one without anything to do sends nothing.
\<close>

section \<open>Outcomes\<close>

lemma model_inv_sweep:
  assumes "model_inv c"
  shows "sweep_inv c"
proof -
  have c: "core_inv c" "phase_inv c" using assms by (simp_all add: model_inv_def)
  have "pa_state x \<noteq> LSDN_STATE_NEW" if r: "rpas c r = Some z" "rp_local z = a \<or> rp_remote z = a" "pas c a = Some x" for r z a x
  proof -
    have "r \<in> set (remote_pa_list x) \<or> r \<in> set (pa_view_list x)"
      using r owns_member [OF viewsD(1) [OF c(1)] r(3), of r] owns_member [OF viewsD(2) [OF c(1)] r(3), of r] by auto
    then show ?thesis using c(2) r(3) by (auto simp: phase_inv_def clean_inv_def)
  qed
  then show ?thesis using c by (auto simp: sweep_inv_def state_inv_def clean_rpas_def phase_inv_def)
qed

lemma commit_phases:
  assumes "model_inv c"
  shows "wlp (do { c \<leftarrow> decommit_phase be c; c \<leftarrow> recommit_phase be c; ack_phase c }) (quietly (\<lambda>c'. model_inv c' \<and> all_ok c'))"
proof (rule quietly_bind(1) [OF decommit_phase_settles [OF model_inv_sweep [OF assms]]],
    rule quietly_bind(1) [where Q = alive], rule recommit_phase_alive)
  show "quietly (\<lambda>c'. state_inv c' \<and> all_live c') c1 \<Longrightarrow> quietly alive c1" for c1 by (auto simp: quietly_def alive_def)
  show "wlp (ack_phase c2) (quietly (\<lambda>c'. model_inv c' \<and> all_ok c'))" if "quietly alive c2" for c2
    by (rule quietly_step [OF that]) (auto intro!: wlp_mono [OF ack_phase_ok] quietlyI loud_intros)
qed

lemma lsdn_commit_outcomes:
  assumes inv: "model_inv c" and commit: "lsdn_commit be cb c = Some (e, c')"
  shows "e = LSDNE_OK \<Longrightarrow> model_inv c' \<and> all_ok c'" "e = LSDNE_VALIDATE \<or> e = LSDNE_NETLINK \<Longrightarrow> review c c'"
    "e \<in> {LSDNE_OK, LSDNE_VALIDATE, LSDNE_NETLINK, LSDNE_COMMIT, LSDNE_INCONSISTENT}"
proof -
  obtain c1 where c1: "trigger_startup_hooks c = Some c1" using commit by (auto simp: lsdn_commit_def bind_eq_Some_conv)
  have r1: "review c c1" using wlpD [OF rv.hooks [OF review_self [OF inv]] c1] .
  obtain e2 c2 where c2: "lsdn_validate be cb c1 = Some (e2, c2)" using commit c1 by (auto simp: lsdn_commit_def bind_eq_Some_conv)
  have r2: "review c c2" using wlpD [OF rv.validate [OF r1] c2] by simp
  have e2: "e2 = LSDNE_OK \<or> e2 = LSDNE_VALIDATE" using c2 by (auto simp: lsdn_validate_def bind_eq_Some_conv split: if_splits)
  obtain e3 c3 where c3: "lsdn_context_ensure_socket c2 = (e3, c3)" by fastforce
  have r3: "review c c3" by (rule ensure_socket_review [OF c3 r2])
  have e3: "e3 = LSDNE_OK \<or> e3 = LSDNE_NETLINK" using c3 by (auto simp: lsdn_context_ensure_socket_def split: if_splits prod.splits bool.splits)
  have rest: "e2 = LSDNE_OK \<and> e3 = LSDNE_OK \<and>
      do { c \<leftarrow> decommit_phase be c3; c \<leftarrow> recommit_phase be c; ack_phase c } = Some c' \<and>
      e = (if inconsistent (rep c') then LSDNE_INCONSISTENT else if problem_count (rep c') > 0 then LSDNE_COMMIT else LSDNE_OK)"
    if "e \<noteq> LSDNE_VALIDATE" "e \<noteq> LSDNE_NETLINK"
    using commit c1 c2 c3 e2 e3 that by (auto simp: lsdn_commit_def bind_eq_Some_conv split: if_splits)
  show "model_inv c' \<and> all_ok c'" if "e = LSDNE_OK"
    using wlpD [OF commit_phases, of c3 be c'] rest that r3 by (auto simp: quietly_def loud_def review_def split: if_splits)
  show "review c c'" if "e = LSDNE_VALIDATE \<or> e = LSDNE_NETLINK"
    using commit c1 c2 c3 e2 e3 r2 r3 that by (auto simp: lsdn_commit_def bind_eq_Some_conv c_report_def split: if_splits)
  show "e \<in> {LSDNE_OK, LSDNE_VALIDATE, LSDNE_NETLINK, LSDNE_COMMIT, LSDNE_INCONSISTENT}" using rest by (auto split: if_splits)
qed

lemma lsdn_commit_ok_quiet:
  assumes "lsdn_commit be cb c = Some (LSDNE_OK, c')"
  shows "problem_count (rep c') = 0"
  using assms by (auto simp: lsdn_commit_def bind_eq_Some_conv split: if_splits prod.splits)

section \<open>Reachable states\<close>

text \<open>
  The states of a program that creates a context, calls the interface and commits. A commit that fails in the middle of
  its work is not followed: its partial results are not covered by the invariant.
\<close>

inductive reachable :: "backends \<Rightarrow> lsdn_context \<Rightarrow> bool" for be where
  init: "lsdn_context_new name nl socks jnk = (Some c, nl') \<Longrightarrow> reachable be c"
| call: "reachable be c \<Longrightarrow> api_step c c' \<Longrightarrow> reachable be c'"
| validate: "reachable be c \<Longrightarrow> lsdn_validate be cb c = Some (e, c') \<Longrightarrow> reachable be c'"
| commit: "reachable be c \<Longrightarrow> lsdn_commit be cb c = Some (e, c') \<Longrightarrow> e \<noteq> LSDNE_COMMIT \<Longrightarrow> e \<noteq> LSDNE_INCONSISTENT \<Longrightarrow> reachable be c'"

lemma validate_keeps_inv: "model_inv c \<Longrightarrow> lsdn_validate be cb c = Some (e, c') \<Longrightarrow> model_inv c'"
  using wlpD [OF rv.validate [OF review_self]] by (fastforce simp: review_def)

section \<open>A committed model\<close>

text \<open>
  A back-end whose operations succeed without doing anything, and a context with settings 1, network 2, local phys 3,
  attachment 4 and virt 5.
\<close>

definition demo_ops :: lsdn_net_ops where
  "demo_ops = \<lparr>ops_type = ''demo'', get_port = \<lambda>_. 0, get_ip = \<lambda>_. None, create_pa = \<lambda>a c. Some (LSDNE_OK, run c),
     add_virt = None, add_remote_pa = None, add_remote_virt = None, destroy_pa = None, remove_virt = None, remove_remote_pa = None,
     remove_remote_virt = None, validate_net = None, validate_pa = None, validate_virt = None, compute_tunneling_overhead = \<lambda>_ _. None\<rparr>"

definition demo_be :: backends where
  "demo_be = \<lparr>be_ops = \<lambda>_. demo_ops, be_cb = \<lambda>_. ex_cb\<rparr>"

definition demo_local :: "lsdn_context option" where
  "demo_local = do {
     (_, c) \<leftarrow> lsdn_settings_new_direct demo_new;
     (_, c) \<leftarrow> lsdn_net_new 1 1 c;
     (_, c) \<leftarrow> lsdn_phys_new c;
     (_, c) \<leftarrow> lsdn_phys_set_iface 3 ''eth0'' c;
     (_, c) \<leftarrow> lsdn_phys_attach 3 2 c;
     (_, c) \<leftarrow> lsdn_phys_claim_local 3 c;
     (_, c) \<leftarrow> lsdn_virt_new 2 c;
     (_, c) \<leftarrow> lsdn_virt_connect 5 3 ''tap0'' c;
     Some c
   }"

lemma demo_local_reachable: "demo_local = Some c \<Longrightarrow> reachable be c"
proof -
  assume "demo_local = Some c"
  then obtain r1 r2 r3 r4 r5 r6 r7 r8 c1 c2 c3 c4 c5 c6 c7 where s: "lsdn_settings_new_direct demo_new = Some (r1, c1)" "lsdn_net_new 1 1 c1 = Some (r2, c2)"
      "lsdn_phys_new c2 = Some (r3, c3)" "lsdn_phys_set_iface 3 ''eth0'' c3 = Some (r4, c4)" "lsdn_phys_attach 3 2 c4 = Some (r5, c5)"
      "lsdn_phys_claim_local 3 c5 = Some (r6, c6)" "lsdn_virt_new 2 c6 = Some (r7, c7)" "lsdn_virt_connect 5 3 ''tap0'' c7 = Some (r8, c)"
    by (auto simp: demo_local_def bind_eq_Some_conv)
  have "case (do { (_, c) \<leftarrow> lsdn_settings_new_direct demo_new; (_, c) \<leftarrow> lsdn_net_new 1 1 c; (_, c) \<leftarrow> lsdn_phys_new c;
      (_, c) \<leftarrow> lsdn_phys_set_iface 3 ''eth0'' c; (_, c) \<leftarrow> lsdn_phys_attach 3 2 c; (_, c) \<leftarrow> lsdn_phys_claim_local 3 c;
      (_, c) \<leftarrow> lsdn_virt_new 2 c; x \<leftarrow> physes c 3; Some (ph_state x) }) of Some s \<Rightarrow> s \<noteq> LSDN_STATE_DELETE | None \<Rightarrow> False"
    by code_simp
  then have "\<forall>x. physes c7 3 = Some x \<longrightarrow> ph_state x \<noteq> LSDN_STATE_DELETE" using s by auto
  then have st: "api_step demo_new c1" "api_step c1 c2" "api_step c2 c3" "api_step c3 c4" "api_step c4 c5" "api_step c5 c6" "api_step c6 c7" "api_step c7 c"
    using s by (auto intro: api_step.intros)
  show ?thesis by (rule call [OF call [OF call [OF call [OF call [OF call [OF call [OF call [OF init [OF demo_new_eq] st(1)] st(2)] st(3)] st(4)] st(5)] st(6)] st(7)] st(8)])
qed

definition demo_committed :: "lsdn_context option" where
  "demo_committed = do { c \<leftarrow> demo_local; (e, c) \<leftarrow> lsdn_commit demo_be CB_NULL c; if e = LSDNE_OK then Some c else None }"

definition demo_facts :: "lsdn_context \<Rightarrow> bool" where
  "demo_facts c \<longleftrightarrow> map_option virt_list (nets c 2) = Some [5] \<and> \<not> Option.is_none (virts c 5) \<and>
     list_all (\<lambda>r. Option.is_none (vrs c r)) [0..<next_ptr c] \<and> \<not> Option.is_none (lsdn_commit demo_be CB_NULL c)"

lemma demo_committed_eq:
  obtains c0 c where "reachable demo_be c0" "lsdn_commit demo_be CB_NULL c0 = Some (LSDNE_OK, c)" "demo_committed = Some c"
    "reachable demo_be c" "demo_facts c"
proof -
  have "case demo_committed of None \<Rightarrow> False | Some c \<Rightarrow> demo_facts c" by code_simp
  then obtain c where c: "demo_committed = Some c" "demo_facts c" by (rule case_SomeE)
  then obtain c0 where c0: "demo_local = Some c0" "lsdn_commit demo_be CB_NULL c0 = Some (LSDNE_OK, c)"
    by (auto simp: demo_committed_def bind_eq_Some_conv split: if_splits)
  have "reachable demo_be c" by (rule commit [OF demo_local_reachable [OF c0(1)] c0(2)]) simp_all
  then show thesis by (rule that [OF demo_local_reachable [OF c0(1)] c0(2) c(1) _ c(2)])
qed

lemma reachable_model_inv: "reachable be c \<Longrightarrow> model_inv c"
proof (induction rule: reachable.induct)
  case (commit c cb e c')
  then show ?case using lsdn_commit_outcomes [OF commit.IH commit.hyps(2)] by (auto simp: review_def)
qed (auto intro: context_new_inv api_step_inv validate_keeps_inv)

section \<open>What a commit promises\<close>

text \<open>
  C1. In every state a program reaches through the interface and through commits that succeed or are rejected, the
  links of the model are intact: every virt is in the list of its network and of the attachment it is connected through,
  every attachment in the lists of its network and its phys, and no other object is in these lists; there is at most one
  attachment of a phys to a network; and only a virt, attachment, phys or network marked \<^verbatim>\<open>DELETE\<close> waits to be freed.
\<close>

theorem lsdn_reachable_inv:
  assumes "reachable be c"
  shows "(\<forall>n x v. nets c n = Some x \<longrightarrow> (v \<in> set (virt_list x) \<longleftrightarrow> (\<exists>y. virts c v = Some y \<and> network y = n))) \<and>
    (\<forall>n x a. nets c n = Some x \<longrightarrow> (a \<in> set (attached_list x) \<longleftrightarrow> (\<exists>y. pas c a = Some y \<and> pa_net y = n))) \<and>
    (\<forall>p x a. physes c p = Some x \<longrightarrow> (a \<in> set (attached_to_list x) \<longleftrightarrow> (\<exists>y. pas c a = Some y \<and> pa_phys y = p))) \<and>
    (\<forall>a x v. pas c a = Some x \<longrightarrow> (v \<in> set (connected_virt_list x) \<longleftrightarrow> (\<exists>y. virts c v = Some y \<and> connected_through y = Some a))) \<and>
    (\<forall>v x a. virts c v = Some x \<longrightarrow> connected_through x = Some a \<longrightarrow> (\<exists>y. pas c a = Some y \<and> pa_net y = network x)) \<and>
    (\<forall>a b x y. pas c a = Some x \<longrightarrow> pas c b = Some y \<longrightarrow> pa_phys x = pa_phys y \<longrightarrow> pa_net x = pa_net y \<longrightarrow> a = b) \<and>
    (\<forall>v x. virts c v = Some x \<longrightarrow> (vi_pending_free x \<longleftrightarrow> vi_state x = LSDN_STATE_DELETE)) \<and>
    (\<forall>a x. pas c a = Some x \<longrightarrow> (pa_pending_free x \<longleftrightarrow> pa_state x = LSDN_STATE_DELETE))"
proof -
  have inv: "core_inv c" "phase_inv c" using reachable_model_inv [OF assms] by (simp_all add: model_inv_def)
  have own: "owns (nets c) virt_list (virts c) (Some \<circ> network)" "owns (nets c) attached_list (pas c) (Some \<circ> pa_net)"
    "owns (physes c) attached_to_list (pas c) (Some \<circ> pa_phys)" "owns (pas c) connected_virt_list (virts c) connected_through"
    using core_invD(2) [OF inv(1)] by (simp_all add: owners_inv_def)
  have att: "pa_unique (pas c)" "connected_ok (virts c) (pas c)" using core_invD(3) [OF inv(1)] by (simp_all add: attach_inv_def)
  have conn: "\<exists>y. pas c a = Some y \<and> pa_net y = network x" if "virts c v = Some x" "connected_through x = Some a" for v x a
    by (rule owns_owner [OF own(4) that]) (use that att(2) in \<open>auto simp: connected_ok_def\<close>)
  show ?thesis
    using owns_member [OF own(1)] owns_member [OF own(2)] owns_member [OF own(3)] owns_member [OF own(4)] conn att(1) inv(2)
    by (simp add: pa_unique_def phase_inv_def delete_inv_def)
qed

theorem lsdn_reachable_inv_witness:
  "\<exists>c x. demo_committed = Some c \<and> nets c 2 = Some x \<and> 5 \<in> set (virt_list x) \<and> (\<exists>y. virts c 5 = Some y \<and> network y = 2)"
proof -
  obtain c0 c where c: "reachable demo_be c0" "lsdn_commit demo_be CB_NULL c0 = Some (LSDNE_OK, c)" "demo_committed = Some c"
    "reachable demo_be c" "demo_facts c"
    by (rule demo_committed_eq)
  obtain x where x: "nets c 2 = Some x" "5 \<in> set (virt_list x)" using c(5) by (auto simp: demo_facts_def)
  show ?thesis using conjunct1 [OF lsdn_reachable_inv [OF c(4)]] x c(3) by blast
qed

text \<open>
  C2. A commit of a reachable model that returns \<^verbatim>\<open>LSDNE_OK\<close> has acknowledged everything: no object is new, waits for
  renewal or deletion, or has failed, and the model is reachable again.
\<close>

theorem lsdn_commit_acknowledges:
  assumes "reachable be c" "lsdn_commit be cb c = Some (LSDNE_OK, c')"
  shows "(\<forall>v x. virts c' v = Some x \<longrightarrow> vi_state x = LSDN_STATE_OK) \<and> (\<forall>a x. pas c' a = Some x \<longrightarrow> pa_state x = LSDN_STATE_OK) \<and>
     (\<forall>n x. nets c' n = Some x \<longrightarrow> ne_state x = LSDN_STATE_OK) \<and> (\<forall>p x. physes c' p = Some x \<longrightarrow> ph_state x = LSDN_STATE_OK) \<and>
     (\<forall>s x. settingss c' s = Some x \<longrightarrow> se_state x = LSDN_STATE_OK) \<and> problem_count (rep c') = 0 \<and> reachable be c'"
proof -
  have "all_ok c'" using lsdn_commit_outcomes(1) [OF reachable_model_inv [OF assms(1)] assms(2)] by simp
  moreover have "problem_count (rep c') = 0" using lsdn_commit_ok_quiet [OF assms(2)] .
  moreover have "reachable be c'" by (rule commit [OF assms]) simp_all
  ultimately show ?thesis by (simp add: all_ok_def)
qed

theorem lsdn_commit_acknowledges_witness:
  "\<exists>c x. demo_committed = Some c \<and> virts c 5 = Some x \<and> vi_state x = LSDN_STATE_OK"
proof -
  obtain c0 c where c: "reachable demo_be c0" "lsdn_commit demo_be CB_NULL c0 = Some (LSDNE_OK, c)" "demo_committed = Some c"
    "reachable demo_be c" "demo_facts c"
    by (rule demo_committed_eq)
  obtain x where x: "virts c 5 = Some x" using c(5) by (auto simp: demo_facts_def Option.is_none_def)
  show ?thesis using conjunct1 [OF lsdn_commit_acknowledges [OF c(1,2)]] x c(3) by blast
qed





end
