(* ===== verification/Spec2Isabelle.thy ===== *)
theory Spec2Isabelle
  imports RuleMirror DList ModelProps CommitProps
begin

text \<open>
  A verification library for lsdn, a program that builds virtual networks out of the traffic control
  and the tunnels of the Linux kernel. The parts of the program are modelled bottom up.
\<close>

end
